(* ===== verification/Prelude.thy ===== *)
theory Prelude
  imports
    Main
    "HOL-Library.Finite_Map"
    "HOL-Library.Char_ord"
    "HOL-Library.List_Lexorder"
    "HOL-Library.Product_Lexorder"
    "HOL-Library.Multiset"
begin

section \<open>Prelude\<close>

text \<open>
  Shared vocabulary of the development: Go errors and fallible results, Go maps as finite
  maps, sorting, and the generic lemmas on lists and maps the components use.

  A Go \<open>error\<close> is its message, and a fallible function returns \<open>go_error + 'a\<close>,
  \<open>Inl\<close> being the error. A Go \<open>map[string]V\<close> is a finite map
  \<open>(string, 'v) fmap\<close>, and reading a missing key of a \<open>map[string]string\<close> gives the
  empty string, as the Go index expression does (\<open>go_get\<close>). Byte slices and strings
  are both \<open>string\<close>: a list of 8-bit characters.
\<close>

type_synonym go_error = string
type_synonym 'a result = "go_error + 'a"
type_synonym strmap = "(string, string) fmap"

named_theorems map_facts \<open>lookups in the finite maps the operator builds\<close>
named_theorems go_eval \<open>definitions unfolded to evaluate the model on a concrete input\<close>

subsection \<open>Fallible results\<close>

definition bindR :: "'a result \<Rightarrow> ('a \<Rightarrow> 'b result) \<Rightarrow> 'b result" where
  "bindR r f = (case r of Inl e \<Rightarrow> Inl e | Inr a \<Rightarrow> f a)"

lemma bindR_simps [simp]:
  "bindR (Inl e) f = Inl e"
  "bindR (Inr a) f = f a"
  by (simp_all add: bindR_def)

lemma bindR_eq_Inr [simp]: "bindR r f = Inr b \<longleftrightarrow> (\<exists>a. r = Inr a \<and> f a = Inr b)"
  by (cases r) simp_all

definition isInr :: "'a + 'b \<Rightarrow> bool" where
  "isInr r = (case r of Inl _ \<Rightarrow> False | Inr _ \<Rightarrow> True)"

lemma isInr_simps [simp]: "isInr (Inr b)" "\<not> isInr (Inl a)"
  by (simp_all add: isInr_def)

lemma isInr_iff: "isInr r \<longleftrightarrow> (\<exists>b. r = Inr b)"
  by (cases r) simp_all

subsection \<open>Go maps\<close>

definition go_get :: "strmap \<Rightarrow> string \<Rightarrow> string" where
  "go_get m k = (case fmlookup m k of None \<Rightarrow> '''' | Some v \<Rightarrow> v)"

definition has_key :: "('k, 'v) fmap \<Rightarrow> 'k \<Rightarrow> bool" where
  "has_key m k = (fmlookup m k \<noteq> None)"

definition sorted_keys :: "('k::linorder, 'v) fmap \<Rightarrow> 'k list" where
  "sorted_keys m = sorted_list_of_fset (fmdom m)"

lemma go_get_upd [map_facts]: "go_get (fmupd k v m) x = (if x = k then v else go_get m x)"
  by (simp add: go_get_def)

lemma go_get_empty [map_facts]: "go_get fmempty x = ''''"
  by (simp add: go_get_def)

lemma go_get_lookup [map_facts]: "fmlookup m k = Some v \<Longrightarrow> go_get m k = v"
  by (simp add: go_get_def)

lemma go_get_missing [map_facts]: "fmlookup m k = None \<Longrightarrow> go_get m k = ''''"
  by (simp add: go_get_def)

lemma has_key_iff: "has_key m k \<longleftrightarrow> k |\<in>| fmdom m"
  by (auto simp: has_key_def fmlookup_dom_iff)

lemma has_key_upd [simp]: "has_key (fmupd k v m) x \<longleftrightarrow> x = k \<or> has_key m x"
  by (auto simp: has_key_def)

lemma has_key_empty [simp]: "\<not> has_key fmempty x"
  by (simp add: has_key_def)

lemma has_key_add [simp]: "has_key (m ++\<^sub>f n) x \<longleftrightarrow> has_key m x \<or> has_key n x"
  by (auto simp: has_key_iff)

lemma set_sorted_keys [simp]: "set (sorted_keys m) = fset (fmdom m)"
  by (simp add: sorted_keys_def)

lemma in_sorted_keys: "k \<in> set (sorted_keys m) \<longleftrightarrow> has_key m k"
  by (simp add: has_key_iff)

lemma sorted_sorted_keys [simp]: "sorted (sorted_keys m)"
  by (simp add: sorted_keys_def sorted_list_of_fset.rep_eq)

lemma distinct_sorted_keys [simp]: "distinct (sorted_keys m)"
  by (simp add: sorted_keys_def sorted_list_of_fset.rep_eq)

lemma sorted_keys_of_list: "sorted_keys (fmap_of_list xs) = remdups (sort (map fst xs))"
proof (rule sorted_distinct_set_unique)
  show "set (sorted_keys (fmap_of_list xs)) = set (remdups (sort (map fst xs)))"
    by (simp add: fmdom_of_list fset_of_list.rep_eq)
qed simp_all

lemma sorted_keys_empty [simp]: "sorted_keys fmempty = []"
  by (simp add: sorted_keys_def sorted_list_of_fset.rep_eq)

lemma sorted_keys_upd [simp]: "sorted_keys (fmupd k v m) = insort_insert k (sorted_keys m)"
proof (rule sorted_distinct_set_unique)
  show "set (sorted_keys (fmupd k v m)) = set (insort_insert k (sorted_keys m))"
    by (simp add: set_insort_insert)
qed (simp_all add: sorted_insort_insert distinct_insort_insert)

lemma fmadd_overlay [map_facts]:
  "fmlookup (m ++\<^sub>f n) k = (case fmlookup n k of Some v \<Rightarrow> Some v | None \<Rightarrow> fmlookup m k)"
  by (auto split: option.split simp: fmlookup_dom_iff)

subsection \<open>Sorting\<close>

text \<open>
  \<open>sort.Slice\<close> is not stable: it promises a permutation of its input that is sorted by the
  comparison. The model uses the library's \<open>sort_key\<close>, which is one such permutation, and
  \<open>sort_slice_unique\<close> shows it is the only one when no two elements compare equal, so the
  order in which the elements arrive does not matter then.
\<close>

lemma sort_slice_unique:
  assumes "mset ys = mset xs" and "sorted (map f ys)" and "distinct (map f xs)"
  shows "ys = sort_key f xs"
proof -
  have dxs: "distinct xs" and inj: "inj_on f (set xs)"
    using assms(3) by (simp_all add: distinct_map)
  have sets: "set ys = set xs" using assms(1) by (metis set_mset_mset)
  have dys: "distinct ys" using assms(1) dxs by (metis mset_eq_imp_distinct_iff)
  have one: "filter (\<lambda>x. f k = f x) zs = [k]"
    if "k \<in> set zs" "set zs = set xs" "distinct zs" for k zs
  proof -
    have "filter (\<lambda>x. f k = f x) zs = filter (\<lambda>x. x = k) zs"
      using inj that by (auto intro!: filter_cong dest: inj_onD)
    also have "\<dots> = [k]"
      using that(1,3) by (induction zs) (auto simp: filter_empty_conv)
    finally show ?thesis .
  qed
  have "sort_key f xs = ys"
    using assms(1,2) dxs dys sets by (intro properties_for_sort_key) (simp_all add: one)
  then show ?thesis by simp
qed

lemma sort_key_permutation:
  assumes "mset ys = mset xs" and "distinct (map f xs)"
  shows "sort_key f ys = sort_key f xs"
  by (rule sort_slice_unique) (simp_all add: assms)

lemma distinct_map_sort_key: "distinct (map g (sort_key f xs)) \<longleftrightarrow> distinct (map g xs)"
  by (metis mset_eq_imp_distinct_iff mset_map mset_sort)

end
