(* ===== verification/GoStrings.thy ===== *)
theory GoStrings
  imports Prelude
begin

section \<open>The Go string library the operator uses\<close>

text \<open>
  A Go string is a sequence of bytes, here a \<open>char list\<close>. The functions of the
  \<open>strings\<close>, \<open>unicode/utf8\<close> and \<open>strconv\<close> packages that the operator calls are
  written out: \<open>Split\<close>, \<open>Cut\<close>, \<open>Join\<close>, \<open>Fields\<close>, the \<open>Trim\<close> family, \<open>Index\<close>
  and \<open>LastIndex\<close> of one byte, decimal numbers, \<open>Quote\<close> (the verb \<open>%q\<close>) and the
  decoding of a string into runes. \<open>unicode.IsPrint\<close> beyond ASCII is a table of the
  runtime and stays a parameter of \<open>go_quote\<close>.
\<close>

subsection \<open>Splitting and joining\<close>

fun split_by :: "('a \<Rightarrow> bool) \<Rightarrow> 'a list \<Rightarrow> 'a list list" where
  "split_by P [] = [[]]"
| "split_by P (x # xs) =
     (if P x then [] # split_by P xs
      else (case split_by P xs of [] \<Rightarrow> [[x]] | l # ls \<Rightarrow> (x # l) # ls))"

definition go_split :: "char \<Rightarrow> string \<Rightarrow> string list" where
  "go_split c s = split_by (\<lambda>x. x = c) s"

fun go_join :: "string \<Rightarrow> string list \<Rightarrow> string" where
  "go_join sep [] = []"
| "go_join sep [x] = x"
| "go_join sep (x # y # ys) = x @ sep @ go_join sep (y # ys)"

lemma split_by_not_Nil [simp]: "split_by P xs \<noteq> []"
  by (induction xs) (auto split: list.split)

lemma split_by_none: "(\<And>x. x \<in> set xs \<Longrightarrow> \<not> P x) \<Longrightarrow> split_by P xs = [xs]"
  by (induction xs) auto

lemma split_by_append:
  "P s \<Longrightarrow> split_by P (xs @ s # ys) = split_by P xs @ split_by P ys"
  by (induction xs) (auto split: list.split simp: Cons_eq_append_conv)

lemma split_by_piece: "l \<in> set (split_by P xs) \<Longrightarrow> x \<in> set l \<Longrightarrow> \<not> P x \<and> x \<in> set xs"
proof (induction xs arbitrary: l)
  case (Cons y ys)
  obtain a ls where ls: "split_by P ys = a # ls"
    using split_by_not_Nil [of P ys] by (meson neq_Nil_conv)
  show ?case
    using Cons.prems Cons.IH [of a] Cons.IH [of l] ls by (auto split: if_splits)
qed simp

lemma go_split_not_Nil [simp]: "go_split c s \<noteq> []"
  by (simp add: go_split_def)

lemma go_split_none [simp]: "c \<notin> set s \<Longrightarrow> go_split c s = [s]"
  unfolding go_split_def by (rule split_by_none) auto

lemma go_split_append [simp]: "go_split c (xs @ c # ys) = go_split c xs @ go_split c ys"
  by (simp add: go_split_def split_by_append)

lemma go_split_Cons_sep [simp]: "go_split c (c # ys) = [] # go_split c ys"
  by (simp add: go_split_def)

lemma go_split_piece: "l \<in> set (go_split c s) \<Longrightarrow> c \<notin> set l \<and> set l \<subseteq> set s"
  unfolding go_split_def by (auto dest: split_by_piece)

lemma go_join_Cons: "ls \<noteq> [] \<Longrightarrow> go_join sep (l # ls) = l @ sep @ go_join sep ls"
  by (cases ls) simp_all

lemma go_join_append:
  "xs \<noteq> [] \<Longrightarrow> ys \<noteq> [] \<Longrightarrow> go_join sep (xs @ ys) = go_join sep xs @ sep @ go_join sep ys"
proof (induction xs)
  case (Cons x xs)
  then show ?case by (cases xs) (simp_all add: go_join_Cons)
qed simp

lemma go_join_split [simp]: "go_join [c] (go_split c s) = s"
proof (induction s)
  case (Cons x xs)
  show ?case
  proof (cases "x = c")
    case True
    then show ?thesis using Cons by (simp add: go_join_Cons)
  next
    case False
    obtain l ls where ls: "go_split c xs = l # ls"
      using go_split_not_Nil [of c xs] by (meson neq_Nil_conv)
    then have "go_split c (x # xs) = (x # l) # ls"
      using False by (simp add: go_split_def)
    then show ?thesis using Cons ls by (cases ls) simp_all
  qed
qed (simp add: go_split_def)

lemma go_split_join:
  "ls \<noteq> [] \<Longrightarrow> (\<And>l. l \<in> set ls \<Longrightarrow> c \<notin> set l) \<Longrightarrow> go_split c (go_join [c] ls) = ls"
proof (induction ls)
  case (Cons l ls)
  then show ?case by (cases ls) (simp_all add: go_join_Cons)
qed simp

lemma go_split_join_append:
  "ls \<noteq> [] \<Longrightarrow> go_split c (go_join [c] ls) = concat (map (go_split c) ls)"
proof (induction ls)
  case (Cons l ls)
  then show ?case by (cases ls) (simp_all add: go_join_Cons)
qed simp

text \<open>\<open>strings.Cut\<close> by one byte: the parts around its first occurrence, or not found.\<close>

fun go_cut :: "char \<Rightarrow> string \<Rightarrow> (string \<times> string) option" where
  "go_cut c [] = None"
| "go_cut c (x # xs) =
     (if x = c then Some ([], xs)
      else (case go_cut c xs of None \<Rightarrow> None | Some (b, a) \<Rightarrow> Some (x # b, a)))"

lemma go_cut_append [simp]: "c \<notin> set b \<Longrightarrow> go_cut c (b @ c # a) = Some (b, a)"
  by (induction b) auto

lemma go_cut_none: "go_cut c s = None \<longleftrightarrow> c \<notin> set s"
  by (induction s) (auto split: option.splits)

lemma go_cut_Some: "go_cut c s = Some (b, a) \<Longrightarrow> s = b @ c # a \<and> c \<notin> set b"
  by (induction s arbitrary: b) (auto split: if_splits option.splits)

subsection \<open>Prefixes, suffixes and positions\<close>

definition has_prefix :: "string \<Rightarrow> string \<Rightarrow> bool" where
  "has_prefix p s = (take (length p) s = p)"

definition trim_prefix :: "string \<Rightarrow> string \<Rightarrow> string" where
  "trim_prefix p s = (if has_prefix p s then drop (length p) s else s)"

definition cut_prefix :: "string \<Rightarrow> string \<Rightarrow> string option" where
  "cut_prefix p s = (if has_prefix p s then Some (drop (length p) s) else None)"

definition trim_suffix :: "string \<Rightarrow> string \<Rightarrow> string" where
  "trim_suffix p s = (if has_prefix (rev p) (rev s) then take (length s - length p) s else s)"

definition trim_right_set :: "string \<Rightarrow> string \<Rightarrow> string" where
  "trim_right_set cs s = rev (dropWhile (\<lambda>c. c \<in> set cs) (rev s))"

definition trim_set :: "string \<Rightarrow> string \<Rightarrow> string" where
  "trim_set cs s = dropWhile (\<lambda>c. c \<in> set cs) (trim_right_set cs s)"

fun go_index :: "char \<Rightarrow> string \<Rightarrow> nat option" where
  "go_index c [] = None"
| "go_index c (x # xs) = (if x = c then Some 0 else map_option Suc (go_index c xs))"

fun last_index :: "char \<Rightarrow> string \<Rightarrow> nat option" where
  "last_index c [] = None"
| "last_index c (x # xs) =
     (case last_index c xs of Some i \<Rightarrow> Some (Suc i)
      | None \<Rightarrow> if x = c then Some 0 else None)"

lemma has_prefix_append [simp]: "has_prefix p (p @ s)"
  by (simp add: has_prefix_def)

lemma has_prefix_iff: "has_prefix p s \<longleftrightarrow> (\<exists>r. s = p @ r)"
  unfolding has_prefix_def by (metis append_eq_conv_conj append_take_drop_id)

lemma trim_prefix_append [simp]: "trim_prefix p (p @ s) = s"
  by (simp add: trim_prefix_def)

lemma cut_prefix_append [simp]: "cut_prefix p (p @ s) = Some s"
  by (simp add: cut_prefix_def)

lemma cut_prefix_Some: "cut_prefix p s = Some r \<longleftrightarrow> s = p @ r"
  by (auto simp: cut_prefix_def has_prefix_iff)

lemma last_index_none: "last_index c s = None \<longleftrightarrow> c \<notin> set s"
  by (induction s) (auto split: option.splits)

lemma last_index_Some:
  "last_index c s = Some i \<Longrightarrow> i < length s \<and> s ! i = c \<and> c \<notin> set (drop (Suc i) s)"
proof (induction s arbitrary: i)
  case (Cons x xs)
  then show ?case
    by (auto split: option.splits if_splits simp: last_index_none)
qed simp

lemma go_index_Some: "go_index c s = Some i \<Longrightarrow> i < length s \<and> s ! i = c \<and> c \<notin> set (take i s)"
  by (induction s arbitrary: i) (auto split: if_splits)

lemma set_trim_set: "set (trim_set cs s) \<subseteq> set s"
proof
  fix x assume "x \<in> set (trim_set cs s)"
  then have "x \<in> set (rev (dropWhile (\<lambda>c. c \<in> set cs) (rev s)))"
    unfolding trim_set_def trim_right_set_def by (auto dest: set_dropWhileD)
  then show "x \<in> set s" by (auto dest: set_dropWhileD)
qed

lemma length_trim_set: "length (trim_set cs s) \<le> length s"
  unfolding trim_set_def trim_right_set_def
  by (metis le_trans length_dropWhile_le length_rev)

lemma hd_trim_set: "trim_set cs s \<noteq> [] \<Longrightarrow> hd (trim_set cs s) \<notin> set cs"
  unfolding trim_set_def by (drule hd_dropWhile)

lemma last_trim_set: "trim_set cs s \<noteq> [] \<Longrightarrow> last (trim_set cs s) \<notin> set cs"
proof -
  assume ne: "trim_set cs s \<noteq> []"
  let ?r = "trim_right_set cs s"
  have "?r \<noteq> []" using ne by (auto simp: trim_set_def)
  then have "dropWhile (\<lambda>c. c \<in> set cs) (rev s) \<noteq> []"
    by (simp add: trim_right_set_def)
  from hd_dropWhile [OF this] have "last ?r \<notin> set cs"
    by (simp add: trim_right_set_def last_rev)
  moreover have "last (trim_set cs s) = last ?r"
    using ne last_appendR [of "dropWhile (\<lambda>c. c \<in> set cs) ?r" "takeWhile (\<lambda>c. c \<in> set cs) ?r"]
    by (simp add: trim_set_def)
  ultimately show ?thesis by simp
qed

subsection \<open>Decimal numbers\<close>

definition digit :: "nat \<Rightarrow> char" where
  "digit d = char_of (48 + d)"

definition is_digit :: "char \<Rightarrow> bool" where
  "is_digit c = (48 \<le> (of_char c :: nat) \<and> (of_char c :: nat) \<le> 57)"

fun go_itoa :: "nat \<Rightarrow> string" where
  "go_itoa n = (if n < 10 then [digit n] else go_itoa (n div 10) @ [digit (n mod 10)])"

declare go_itoa.simps [simp del]

definition go_itoa_int :: "int \<Rightarrow> string" where
  "go_itoa_int i = (if i < 0 then ''-'' @ go_itoa (nat (- i)) else go_itoa (nat i))"

definition digits_value :: "string \<Rightarrow> nat" where
  "digits_value s = foldl (\<lambda>a c. 10 * a + (of_char c - 48)) 0 s"

text \<open>
  \<open>strconv.Atoi\<close>: an optional sign, at least one digit and nothing else, and a value that
  fits a 64-bit \<open>int\<close>; anything else is an error, here \<open>None\<close>.
\<close>

definition go_atoi :: "string \<Rightarrow> int option" where
  "go_atoi s =
     (let neg = has_prefix ''-'' s;
          ds = (if neg \<or> has_prefix ''+'' s then drop 1 s else s);
          v = (if neg then - int (digits_value ds) else int (digits_value ds))
      in if ds \<noteq> [] \<and> list_all is_digit ds \<and> - (2 ^ 63) \<le> v \<and> v < 2 ^ 63
         then Some v else None)"

lemma of_char_digit [simp]: "d < 10 \<Longrightarrow> (of_char (digit d) :: nat) = 48 + d"
  by (simp add: digit_def)

lemma is_digit_digit [simp]: "d < 10 \<Longrightarrow> is_digit (digit d)"
  by (simp add: is_digit_def)

lemma go_itoa_not_Nil [simp]: "go_itoa n \<noteq> []"
  by (subst go_itoa.simps) simp

lemma go_itoa_digits [simp]: "list_all is_digit (go_itoa n)"
proof (induction n rule: go_itoa.induct)
  case (1 n)
  then show ?case by (subst go_itoa.simps) simp
qed

lemma digits_value_itoa [simp]: "digits_value (go_itoa n) = n"
proof (induction n rule: go_itoa.induct)
  case (1 n)
  show ?case
  proof (cases "n < 10")
    case True
    then show ?thesis by (subst go_itoa.simps) (simp add: digits_value_def)
  next
    case False
    then have "digits_value (go_itoa (n div 10)) = n div 10" by (rule "1.IH")
    then show ?thesis
      using False by (subst go_itoa.simps) (simp add: digits_value_def)
  qed
qed

lemma go_itoa_set: "c \<in> set (go_itoa n) \<Longrightarrow> is_digit c"
  using go_itoa_digits [of n] by (auto simp: list_all_iff)

lemma go_atoi_itoa: "int n < 2 ^ 63 \<Longrightarrow> go_atoi (go_itoa n) = Some (int n)"
proof -
  assume n: "int n < 2 ^ 63"
  obtain c cs where c: "go_itoa n = c # cs"
    using go_itoa_not_Nil [of n] by (meson neq_Nil_conv)
  then have "is_digit c" using go_itoa_set [of c n] by simp
  then have "c \<noteq> CHR ''-''" "c \<noteq> CHR ''+''" by (auto simp: is_digit_def)
  then have p: "\<not> has_prefix ''-'' (go_itoa n)" "\<not> has_prefix ''+'' (go_itoa n)"
    by (simp_all add: c has_prefix_def)
  have "digits_value (go_itoa n) = n" "list_all is_digit (go_itoa n)" "go_itoa n \<noteq> []"
    by simp_all
  then show ?thesis
    using n p unfolding go_atoi_def Let_def by simp
qed

subsection \<open>Runes\<close>

text \<open>
  \<open>utf8.DecodeRuneInString\<close>: the first rune and its width in bytes. An encoding that is
  not valid UTF-8 gives \<open>RuneError\<close> (65533) with width 1. Ranging over a string, and the
  functions below, decode it rune by rune; each rune keeps the bytes it came from.
\<close>

definition rune_error :: nat where
  "rune_error = 65533"

definition is_cont :: "nat \<Rightarrow> bool" where
  "is_cont b = (128 \<le> b \<and> b \<le> 191)"

fun decode_rune :: "nat list \<Rightarrow> nat \<times> nat" where
  "decode_rune [] = (rune_error, 1)"
| "decode_rune (b0 # bs) =
    (if b0 < 128 then (b0, 1)
     else if 194 \<le> b0 \<and> b0 \<le> 223 then
       (case bs of b1 # _ \<Rightarrow>
          if is_cont b1 then ((b0 - 192) * 64 + (b1 - 128), 2) else (rune_error, 1)
        | _ \<Rightarrow> (rune_error, 1))
     else if 224 \<le> b0 \<and> b0 \<le> 239 then
       (case bs of b1 # b2 # _ \<Rightarrow>
          if (if b0 = 224 then 160 else 128) \<le> b1 \<and> b1 \<le> (if b0 = 237 then 159 else 191)
             \<and> is_cont b2
          then ((b0 - 224) * 4096 + (b1 - 128) * 64 + (b2 - 128), 3) else (rune_error, 1)
        | _ \<Rightarrow> (rune_error, 1))
     else if 240 \<le> b0 \<and> b0 \<le> 244 then
       (case bs of b1 # b2 # b3 # _ \<Rightarrow>
          if (if b0 = 240 then 144 else 128) \<le> b1 \<and> b1 \<le> (if b0 = 244 then 143 else 191)
             \<and> is_cont b2 \<and> is_cont b3
          then ((b0 - 240) * 262144 + (b1 - 128) * 4096 + (b2 - 128) * 64 + (b3 - 128), 4)
          else (rune_error, 1)
        | _ \<Rightarrow> (rune_error, 1))
     else (rune_error, 1))"

lemma decode_rune_width: "1 \<le> snd (decode_rune bs)"
  by (induction bs rule: decode_rune.induct) (auto split: list.split)

lemma decode_rune_width4: "snd (decode_rune bs) \<le> 4"
  by (cases bs) (auto split: list.split)

text \<open>A byte below 128 inside a decoded chunk is the rune of that chunk.\<close>

lemma decode_rune_high_bytes:
  "128 \<le> b0 \<Longrightarrow> b \<in> set (take (snd (decode_rune (b0 # r))) (b0 # r)) \<Longrightarrow> 128 \<le> b"
  by (auto simp: is_cont_def split: if_splits list.splits)

lemma decode_rune_low_byte:
  assumes "b \<in> set (take (snd (decode_rune bs)) bs)" and "b < 128"
  shows "fst (decode_rune bs) = b"
proof (cases bs)
  case (Cons b0 r)
  show ?thesis
  proof (cases "b0 < 128")
    case True
    then show ?thesis using assms Cons by simp
  next
    case False
    then show ?thesis
      using assms decode_rune_high_bytes [of b0 b r] unfolding Cons by linarith
  qed
qed (use assms in simp)

function runes :: "string \<Rightarrow> (nat \<times> string) list" where
  "runes s =
     (if s = [] then []
      else (let (r, w) = decode_rune (map of_char (take 4 s))
            in (r, take w s) # runes (drop w s)))"
  by pat_completeness auto
termination
proof (relation "measure length")
  fix s x r w
  assume "s \<noteq> ([] :: string)" and x: "x = decode_rune (map of_char (take 4 s))" and "(r, w) = x"
  then have "1 \<le> w" using decode_rune_width by (metis snd_conv)
  then show "(drop w s, s) \<in> measure length"
    using \<open>s \<noteq> []\<close> by simp
qed simp

declare runes.simps [simp del]

definition unrunes :: "(nat \<times> string) list \<Rightarrow> string" where
  "unrunes rs = concat (map snd rs)"

definition is_ascii :: "char \<Rightarrow> bool" where
  "is_ascii c = ((of_char c :: nat) < 128)"

lemma runes_Nil [simp]: "runes [] = []"
  by (simp add: runes.simps)

lemma runes_ascii_Cons [simp]: "is_ascii c \<Longrightarrow> runes (c # s) = (of_char c, [c]) # runes s"
  by (subst runes.simps) (simp add: is_ascii_def)

lemma runes_ascii: "list_all is_ascii s \<Longrightarrow> runes s = map (\<lambda>c. (of_char c, [c])) s"
  by (induction s) auto

lemma unrunes_runes [simp]: "unrunes (runes s) = s"
proof (induction s rule: runes.induct)
  case (1 s)
  show ?case
  proof (cases "s = []")
    case False
    obtain r w where rw: "decode_rune (map of_char (take 4 s)) = (r, w)"
      by (cases "decode_rune (map of_char (take 4 s))")
    have "unrunes (runes (drop w s)) = drop w s"
      using "1.IH" [OF False refl] rw by simp
    then show ?thesis
      using False rw by (subst runes.simps) (simp add: unrunes_def)
  qed (simp add: unrunes_def)
qed

lemma ascii_rune:
  assumes "c \<in> set s" and "is_ascii c"
  shows "\<exists>q \<in> set (runes s). fst q = of_char c"
  using assms
proof (induction s rule: runes.induct)
  case (1 s)
  obtain r w where rw: "decode_rune (map of_char (take 4 s)) = (r, w)"
    by (cases "decode_rune (map of_char (take 4 s))")
  have ne: "s \<noteq> []" using "1.prems" by auto
  have rs: "runes s = (r, take w s) # runes (drop w s)"
    using ne rw by (subst runes.simps) simp
  have "w \<le> 4" using decode_rune_width4 [of "map of_char (take 4 s)"] rw by simp
  then have tk: "take w (map of_char (take 4 s)) = map of_char (take w s)"
    by (simp add: take_map)
  show ?case
  proof (cases "c \<in> set (drop w s)")
    case True
    then show ?thesis using "1.IH" [OF ne refl, of r w] rw "1.prems"(2) rs by auto
  next
    case False
    then have "c \<in> set (take w s)"
      using "1.prems"(1) append_take_drop_id [of w s] by (metis Un_iff set_append)
    then have "of_char c \<in> set (take w (map of_char (take 4 s)) :: nat list)"
      by (simp add: tk)
    then have "r = of_char c"
      using decode_rune_low_byte [of "of_char c" "map of_char (take 4 s)"] rw "1.prems"(2)
      by (simp add: is_ascii_def)
    then show ?thesis using rs by simp
  qed
qed

definition rune_valid :: "nat \<times> string \<Rightarrow> bool" where
  "rune_valid p = (\<not> (fst p = rune_error \<and> length (snd p) = 1))"

definition valid_utf8 :: "string \<Rightarrow> bool" where
  "valid_utf8 s = list_all rune_valid (runes s)"

subsection \<open>White space\<close>

definition is_space :: "nat \<Rightarrow> bool" where
  "is_space r = (r \<in> set [9, 10, 11, 12, 13, 32, 133, 160, 5760, 8232, 8233, 8239, 8287, 12288]
     \<or> (8192 \<le> r \<and> r \<le> 8202))"

definition trim_space :: "string \<Rightarrow> string" where
  "trim_space s =
     (let sp = (\<lambda>p. is_space (fst p))
      in unrunes (rev (dropWhile sp (rev (dropWhile sp (runes s))))))"

lemmas ascii_eval = runes_ascii_Cons runes_Nil is_ascii_def valid_utf8_def rune_valid_def
  rune_error_def trim_space_def unrunes_def is_space_def Let_def

definition go_fields :: "string \<Rightarrow> string list" where
  "go_fields s = map unrunes (filter (\<lambda>l. l \<noteq> []) (split_by (\<lambda>p. is_space (fst p)) (runes s)))"

subsection \<open>Quoting\<close>

definition hex_digit :: "nat \<Rightarrow> char" where
  "hex_digit d = (if d < 10 then char_of (48 + d) else char_of (87 + d))"

fun hex_pad :: "nat \<Rightarrow> nat \<Rightarrow> string" where
  "hex_pad 0 n = []"
| "hex_pad (Suc k) n = hex_pad k (n div 16) @ [hex_digit (n mod 16)]"

definition quote_rune :: "(nat \<Rightarrow> bool) \<Rightarrow> nat \<times> string \<Rightarrow> string" where
  "quote_rune is_print p =
     (let r = fst p in
      if \<not> rune_valid p then [CHR 0x5C, CHR ''x''] @ hex_pad 2 (of_char (hd (snd p)))
      else if r = 34 \<or> r = 92 then CHR 0x5C # snd p
      else if (if r < 128 then 32 \<le> r \<and> r < 127 else is_print r) then snd p
      else if r = 7 then [CHR 0x5C, CHR ''a'']
      else if r = 8 then [CHR 0x5C, CHR ''b'']
      else if r = 12 then [CHR 0x5C, CHR ''f'']
      else if r = 10 then [CHR 0x5C, CHR ''n'']
      else if r = 13 then [CHR 0x5C, CHR ''r'']
      else if r = 9 then [CHR 0x5C, CHR ''t'']
      else if r = 11 then [CHR 0x5C, CHR ''v'']
      else if r < 32 \<or> r = 127 then [CHR 0x5C, CHR ''x''] @ hex_pad 2 r
      else if r < 65536 then [CHR 0x5C, CHR ''u''] @ hex_pad 4 r
      else [CHR 0x5C, CHR ''U''] @ hex_pad 8 r)"

definition go_quote :: "(nat \<Rightarrow> bool) \<Rightarrow> string \<Rightarrow> string" where
  "go_quote is_print s = [CHR 0x22] @ concat (map (quote_rune is_print) (runes s)) @ [CHR 0x22]"

text \<open>The verb \<open>%v\<close> on a slice of strings: the elements between brackets.\<close>

definition go_show_list :: "string list \<Rightarrow> string" where
  "go_show_list xs = ''['' @ go_join '' '' xs @ '']''"

end
