(* ===== verification/ApiTypes.thy ===== *)
theory ApiTypes
  imports GoStrings
begin

section \<open>The API types (api/v1)\<close>

text \<open>
  The custom resources of the operator and the parts of the Kubernetes metadata it reads and
  writes: \<open>Mosquitto\<close> and \<open>MosquittoUser\<close> with their spec and status, conditions, and the
  accessors that resolve defaults. A pointer field of the Go struct is an \<open>option\<close>, a
  \<open>time.Time\<close> an integer, an \<open>int32\<close> or \<open>int64\<close> that is only copied and compared an
  \<open>int\<close>. \<open>corev1.ResourceRequirements\<close> is carried as its two resource lists.
\<close>

subsection \<open>Object metadata and conditions\<close>

record owner_ref =
  refKind :: string
  refName :: string
  refUID :: string
  refController :: bool

record object_meta =
  metaName :: string
  metaNamespace :: string
  metaUID :: string
  metaGeneration :: int
  metaCreationTimestamp :: int
  metaDeletionTimestamp :: "int option"
  metaLabels :: strmap
  metaAnnotations :: strmap
  metaOwnerReferences :: "owner_ref list"
  metaManagedFields :: "string list"

definition empty_meta :: object_meta where
  "empty_meta = \<lparr>metaName = '''', metaNamespace = '''', metaUID = '''', metaGeneration = 0,
     metaCreationTimestamp = 0, metaDeletionTimestamp = None, metaLabels = fmempty,
     metaAnnotations = fmempty, metaOwnerReferences = [], metaManagedFields = []\<rparr>"

record condition =
  condType :: string
  condStatus :: string
  condObservedGeneration :: int
  condLastTransitionTime :: int
  condReason :: string
  condMessage :: string

definition ConditionTrue :: string where "ConditionTrue = ''True''"
definition ConditionFalse :: string where "ConditionFalse = ''False''"

subsection \<open>Mosquitto\<close>

datatype quantity = Quantity string

record resource_requirements =
  resRequests :: "(string, quantity) fmap"
  resLimits :: "(string, quantity) fmap"

record mosquitto_metrics =
  metricsEnabled :: bool

record mosquitto_tls =
  tlsSecretName :: string

record mosquitto_storage =
  storageSize :: string
  storageClassName :: "string option"

record mosquitto_spec =
  specReplicas :: int
  specImage :: string
  specConfig :: string
  specAntiAffinity :: string
  specTLS :: "mosquitto_tls option"
  specResources :: resource_requirements
  specStorage :: "mosquitto_storage option"
  specPodLabels :: strmap
  specPodAnnotations :: strmap
  specMetrics :: "mosquitto_metrics option"

record mosquitto_status =
  statusPhase :: string
  statusReadyReplicas :: int
  statusObservedGeneration :: int
  statusUsers :: int
  statusConditions :: "condition list"

record mosquitto =
  mMeta :: object_meta
  mSpec :: mosquitto_spec
  mStatus :: mosquitto_status

abbreviation mName :: "mosquitto \<Rightarrow> string" where
  "mName m \<equiv> metaName (mMeta m)"

abbreviation mNamespace :: "mosquitto \<Rightarrow> string" where
  "mNamespace m \<equiv> metaNamespace (mMeta m)"

definition AntiAffinityModeOff :: string where "AntiAffinityModeOff = ''off''"
definition AntiAffinityModeSoft :: string where "AntiAffinityModeSoft = ''soft''"
definition AntiAffinityModeHard :: string where "AntiAffinityModeHard = ''hard''"
definition AntiAffinityWeight :: int where "AntiAffinityWeight = 100"
definition AntiAffinityTopologyKey :: string where
  "AntiAffinityTopologyKey = ''kubernetes.io/hostname''"

definition PhasePending :: string where "PhasePending = ''Pending''"
definition PhaseProgressing :: string where "PhaseProgressing = ''Progressing''"
definition PhaseReady :: string where "PhaseReady = ''Ready''"
definition PhaseFailed :: string where "PhaseFailed = ''Failed''"

definition ConsumableLabel :: string where "ConsumableLabel = ''mko.gtrfc.com/consumable''"
definition ConsumableLabelValue :: string where "ConsumableLabelValue = ''true''"

definition ReasonSecretNotFound :: string where "ReasonSecretNotFound = ''SecretNotFound''"
definition ReasonSecretNotConsumable :: string where
  "ReasonSecretNotConsumable = ''SecretNotConsumable''"
definition ConditionTypeReady :: string where "ConditionTypeReady = ''Ready''"
definition ConditionTypeUsers :: string where "ConditionTypeUsers = ''Users''"
definition ReasonUsersAccepted :: string where "ReasonUsersAccepted = ''UsersAccepted''"
definition ReasonNoUsers :: string where "ReasonNoUsers = ''NoUsers''"
definition ReasonConfigDirectiveRefused :: string where
  "ReasonConfigDirectiveRefused = ''ConfigDirectiveRefused''"
definition ReasonNamespaceNotGranted :: string where
  "ReasonNamespaceNotGranted = ''NamespaceNotGranted''"

definition AntiAffinityMode :: "mosquitto \<Rightarrow> string" where
  "AntiAffinityMode m =
     (if specAntiAffinity (mSpec m) = AntiAffinityModeSoft then AntiAffinityModeSoft
      else if specAntiAffinity (mSpec m) = AntiAffinityModeHard then AntiAffinityModeHard
      else AntiAffinityModeOff)"

definition IsTLSEnabled :: "mosquitto \<Rightarrow> bool" where
  "IsTLSEnabled m =
     (case specTLS (mSpec m) of None \<Rightarrow> False | Some t \<Rightarrow> tlsSecretName t \<noteq> '''')"

definition IsMetricsEnabled :: "mosquitto \<Rightarrow> bool" where
  "IsMetricsEnabled m =
     (case specMetrics (mSpec m) of None \<Rightarrow> False | Some x \<Rightarrow> metricsEnabled x)"

definition IsStorageEnabled :: "mosquitto \<Rightarrow> bool" where
  "IsStorageEnabled m =
     (case specStorage (mSpec m) of None \<Rightarrow> False | Some x \<Rightarrow> storageSize x \<noteq> '''')"

subsection \<open>MosquittoUser\<close>

definition AccessRead :: string where "AccessRead = ''read''"
definition AccessWrite :: string where "AccessWrite = ''write''"
definition AccessReadWrite :: string where "AccessReadWrite = ''readwrite''"

definition DefaultUsernameKey :: string where "DefaultUsernameKey = ''username''"
definition DefaultPasswordKey :: string where "DefaultPasswordKey = ''password''"

definition ReasonUserAccepted :: string where "ReasonUserAccepted = ''Accepted''"
definition ReasonBrokerNotFound :: string where "ReasonBrokerNotFound = ''BrokerNotFound''"
definition ReasonKeyNotFound :: string where "ReasonKeyNotFound = ''KeyNotFound''"
definition ReasonPasswordEmpty :: string where "ReasonPasswordEmpty = ''PasswordEmpty''"
definition ReasonUsernameInvalid :: string where "ReasonUsernameInvalid = ''UsernameInvalid''"
definition ReasonUsernameReserved :: string where "ReasonUsernameReserved = ''UsernameReserved''"
definition ReasonUsernameConflict :: string where "ReasonUsernameConflict = ''UsernameConflict''"
definition ReasonTopicRefused :: string where "ReasonTopicRefused = ''TopicRefused''"

record mosquitto_acl =
  aclTopic :: string
  aclAccess :: string

record credentials_secret =
  credName :: string
  credUsernameKey :: string
  credPasswordKey :: string

record mosquitto_user_spec =
  userBrokerRef :: string
  userCredentialsSecret :: credentials_secret
  userACLs :: "mosquitto_acl list"

record mosquitto_user_status =
  ustatObservedGeneration :: int
  ustatUsername :: string
  ustatConditions :: "condition list"

record mosquitto_user =
  uMeta :: object_meta
  uSpec :: mosquitto_user_spec
  uStatus :: mosquitto_user_status

abbreviation uName :: "mosquitto_user \<Rightarrow> string" where
  "uName u \<equiv> metaName (uMeta u)"

definition UsernameKey :: "mosquitto_user \<Rightarrow> string" where
  "UsernameKey u =
     (if credUsernameKey (userCredentialsSecret (uSpec u)) \<noteq> ''''
      then credUsernameKey (userCredentialsSecret (uSpec u)) else DefaultUsernameKey)"

definition PasswordKey :: "mosquitto_user \<Rightarrow> string" where
  "PasswordKey u =
     (if credPasswordKey (userCredentialsSecret (uSpec u)) \<noteq> ''''
      then credPasswordKey (userCredentialsSecret (uSpec u)) else DefaultPasswordKey)"

text \<open>
  ACL entries are ordered by topic, then by access, as \<open>canonicalACLs\<close> compares them; the
  order makes the library's \<open>sort\<close> and \<open>sorted\<close> apply to them.
\<close>

instantiation mosquitto_acl_ext :: (linorder) linorder
begin

definition less_eq_mosquitto_acl_ext :: "'a mosquitto_acl_ext \<Rightarrow> 'a mosquitto_acl_ext \<Rightarrow> bool"
  where "less_eq_mosquitto_acl_ext r s \<longleftrightarrow>
    (aclTopic r, aclAccess r, mosquitto_acl.more r) \<le> (aclTopic s, aclAccess s, mosquitto_acl.more s)"

definition less_mosquitto_acl_ext :: "'a mosquitto_acl_ext \<Rightarrow> 'a mosquitto_acl_ext \<Rightarrow> bool"
  where "less_mosquitto_acl_ext r s \<longleftrightarrow>
    (aclTopic r, aclAccess r, mosquitto_acl.more r) < (aclTopic s, aclAccess s, mosquitto_acl.more s)"

instance
proof
  fix x y z :: "'a mosquitto_acl_ext"
  show "(x < y) = (x \<le> y \<and> \<not> y \<le> x)"
    unfolding less_mosquitto_acl_ext_def less_eq_mosquitto_acl_ext_def by (rule less_le_not_le)
  show "x \<le> x"
    unfolding less_eq_mosquitto_acl_ext_def by simp
  show "x \<le> y \<Longrightarrow> y \<le> z \<Longrightarrow> x \<le> z"
    unfolding less_eq_mosquitto_acl_ext_def by (rule order_trans)
  show "x \<le> y \<Longrightarrow> y \<le> x \<Longrightarrow> x = y"
    unfolding less_eq_mosquitto_acl_ext_def by (cases x; cases y) (auto dest: order_antisym)
  show "x \<le> y \<or> y \<le> x"
    unfolding less_eq_mosquitto_acl_ext_def by (rule linear)
qed

end

end
