(* ===== verification/Labels.thy ===== *)
theory Labels
  imports ApiTypes
begin

section \<open>Labels and names (internal/common/labels.go)\<close>

text \<open>
  The names of the objects of one broker, the labels stamped on them, and the map functions
  every write of the operator goes through: \<open>MergeLabels\<close>, \<open>MapEntriesMissing\<close>,
  \<open>JoinKeys\<close> and \<open>RemovedKeys\<close>. The theory shows that the version label is always one the
  API server accepts, that a merge leaves nothing missing and keeps every other key, and that
  the applied-keys record recovers exactly the keys that left the spec.
\<close>

definition LabelComponent :: string where "LabelComponent = ''app.kubernetes.io/component''"
definition LabelInstance :: string where "LabelInstance = ''app.kubernetes.io/instance''"
definition LabelManagedBy :: string where "LabelManagedBy = ''app.kubernetes.io/managed-by''"
definition LabelName :: string where "LabelName = ''app.kubernetes.io/name''"
definition LabelVersion :: string where "LabelVersion = ''app.kubernetes.io/version''"
definition AppName :: string where "AppName = ''mosquitto''"
definition ManagedBy :: string where "ManagedBy = ''mosquitto-operator''"
definition ComponentBroker :: string where "ComponentBroker = ''broker''"
definition maxLabelValueLength :: nat where "maxLabelValueLength = 63"
definition shortDigestLength :: nat where "shortDigestLength = 12"

lemmas label_names [go_eval] = LabelComponent_def LabelInstance_def LabelManagedBy_def
  LabelName_def LabelVersion_def AppName_def ManagedBy_def ComponentBroker_def

subsection \<open>The version label\<close>

definition label_rune :: "nat \<Rightarrow> bool" where
  "label_rune r = ((97 \<le> r \<and> r \<le> 122) \<or> (65 \<le> r \<and> r \<le> 90) \<or> (48 \<le> r \<and> r \<le> 57)
     \<or> r = 45 \<or> r = 95 \<or> r = 46)"

definition sanitizeLabelValue :: "string \<Rightarrow> string" where
  "sanitizeLabelValue value =
     (let b = map (\<lambda>(r, _). if label_rune r then char_of r else CHR ''-'') (runes value);
          out = (if length b > maxLabelValueLength then take maxLabelValueLength b else b);
          out = trim_set ''-_.'' out
      in if out = '''' then ''unknown'' else out)"

definition ExtractVersionFromImage :: "string \<Rightarrow> string" where
  "ExtractVersionFromImage img =
     (case last_index (CHR ''@'') img of
        Some idx \<Rightarrow>
          (let digest = drop (idx + 1) img;
               digest = (case go_index (CHR '':'') digest of
                           Some algoEnd \<Rightarrow> drop (algoEnd + 1) digest | None \<Rightarrow> digest);
               digest = (if length digest > shortDigestLength
                         then take shortDigestLength digest else digest)
           in sanitizeLabelValue digest)
      | None \<Rightarrow>
          (let tagPart = (case last_index (CHR ''/'') img of
                            Some lastSlash \<Rightarrow> drop lastSlash img | None \<Rightarrow> img)
           in case last_index (CHR '':'') tagPart of
                Some idx \<Rightarrow> sanitizeLabelValue (drop (idx + 1) tagPart)
              | None \<Rightarrow> ''latest''))"

text \<open>
  The rule of the API server for a non-empty label value: at most 63 bytes, letters, digits,
  dashes, underscores and dots, starting and ending with a letter or a digit.
\<close>

definition label_char :: "char \<Rightarrow> bool" where
  "label_char c = label_rune (of_char c)"

definition valid_label_value :: "string \<Rightarrow> bool" where
  "valid_label_value v \<longleftrightarrow> v \<noteq> [] \<and> length v \<le> 63 \<and> list_all label_char v \<and>
     hd v \<notin> set ''-_.'' \<and> last v \<notin> set ''-_.''"

lemma label_char_ascii: "label_char c \<Longrightarrow> is_ascii c"
  by (auto simp: label_char_def label_rune_def is_ascii_def)

lemma label_char_char_of: "label_rune r \<Longrightarrow> label_char (char_of r)"
  by (auto simp: label_char_def label_rune_def)

lemma label_char_dash: "label_char (CHR ''-'')"
  by (simp add: label_char_def label_rune_def)

lemma sanitizeLabelValue_valid: "valid_label_value (sanitizeLabelValue v)"
proof -
  let ?b = "map (\<lambda>(r, _). if label_rune r then char_of r else CHR ''-'') (runes v) :: string"
  define out where
    "out = (if length ?b > maxLabelValueLength then take maxLabelValueLength ?b else ?b)"
  have len: "length out \<le> 63" by (simp add: out_def maxLabelValueLength_def)
  have chars: "label_char c" if "c \<in> set out" for c
    using that label_char_char_of label_char_dash
    by (auto simp: out_def split: if_splits dest!: in_set_takeD)
  have eq: "sanitizeLabelValue v =
      (if trim_set ''-_.'' out = '''' then ''unknown'' else trim_set ''-_.'' out)"
    by (simp add: sanitizeLabelValue_def out_def Let_def)
  show ?thesis
  proof (cases "trim_set ''-_.'' out = ''''")
    case True
    then show ?thesis
      by (simp add: eq valid_label_value_def label_char_def label_rune_def)
  next
    case False
    have "length (trim_set ''-_.'' out) \<le> 63"
      using len length_trim_set [of "''-_.''" out] by linarith
    moreover have "list_all label_char (trim_set ''-_.'' out)"
      using set_trim_set [of "''-_.''" out] chars by (auto simp: list_all_iff)
    ultimately show ?thesis
      using False hd_trim_set [OF False] last_trim_set [OF False]
      by (simp add: eq valid_label_value_def)
  qed
qed

lemma sanitizeLabelValue_id:
  assumes "valid_label_value v"
  shows "sanitizeLabelValue v = v"
proof -
  have v: "v \<noteq> []" "length v \<le> 63" "list_all label_char v" "hd v \<notin> set ''-_.''"
    "last v \<notin> set ''-_.''"
    using assms by (simp_all add: valid_label_value_def)
  have "runes v = map (\<lambda>c. (of_char c, [c])) v"
    using v(3) label_char_ascii by (intro runes_ascii) (auto simp: list_all_iff)
  then have b: "map (\<lambda>(r, _). if label_rune r then char_of r else CHR ''-'') (runes v) = v"
    using v(3) by (auto simp: list_all_iff label_char_def intro!: map_idI)
  have "trim_right_set ''-_.'' v = v"
    using v(1,5) by (cases v rule: rev_cases) (simp_all add: trim_right_set_def)
  then have "trim_set ''-_.'' v = v"
    using v(1,4) by (cases v) (simp_all add: trim_set_def)
  then show ?thesis
    using v(1,2) unfolding sanitizeLabelValue_def Let_def b
    by (simp add: maxLabelValueLength_def)
qed

lemma last_index_append [simp]: "c \<notin> set b \<Longrightarrow> last_index c (a @ c # b) = Some (length a)"
  by (induction a) (auto split: option.split simp: last_index_none)

lemma last_index_append_none: "c \<notin> set b \<Longrightarrow> last_index c (a @ b) = last_index c a"
proof (induction a)
  case Nil
  then show ?case by (simp add: last_index_none)
qed simp

lemma valid_label_value_no_separator:
  "valid_label_value t \<Longrightarrow> CHR ''@'' \<notin> set t \<and> CHR '':'' \<notin> set t \<and> CHR ''/'' \<notin> set t"
  by (auto simp: valid_label_value_def list_all_iff label_char_def label_rune_def)

text \<open>The version label derived from an image reference is always a label value the API
  server accepts, whatever the reference looks like.\<close>

theorem version_label_valid: "valid_label_value (ExtractVersionFromImage img)"
proof -
  have "valid_label_value ''latest''"
    by (simp add: valid_label_value_def label_char_def label_rune_def)
  then show ?thesis
    by (simp add: ExtractVersionFromImage_def sanitizeLabelValue_valid Let_def split: option.split)
qed

text \<open>A tag that is already a label value reaches the version label unchanged, also behind
  a registry with a port, as long as the reference carries no digest.\<close>

lemma version_label_keeps_tag:
  assumes "valid_label_value tag" and "CHR ''@'' \<notin> set repo"
  shows "ExtractVersionFromImage (repo @ '':'' @ tag) = tag"
proof -
  note sep = valid_label_value_no_separator [OF assms(1)]
  have nodigest: "last_index (CHR ''@'') (repo @ CHR '':'' # tag) = None"
    using assms(2) sep by (simp add: last_index_none)
  have slash: "last_index (CHR ''/'') (repo @ CHR '':'' # tag) = last_index (CHR ''/'') repo"
    using sep by (intro last_index_append_none) simp
  have tagged: "last_index (CHR '':'') (drop n repo @ CHR '':'' # tag) = Some (length repo - n)" for n
    using sep last_index_append [of "CHR '':''" tag "drop n repo"] by simp
  show ?thesis
  proof (cases "last_index (CHR ''/'') repo")
    case None
    then show ?thesis
      using tagged [of 0] sanitizeLabelValue_id [OF assms(1)] nodigest slash
      by (simp add: ExtractVersionFromImage_def Let_def)
  next
    case (Some i)
    then have "i < length repo" using last_index_Some by blast
    then show ?thesis
      using Some tagged [of i] sanitizeLabelValue_id [OF assms(1)] nodigest slash
      by (simp add: ExtractVersionFromImage_def Let_def)
  qed
qed

subsection \<open>Labels and names of one broker\<close>

definition BaseLabels :: "mosquitto \<Rightarrow> string \<Rightarrow> strmap" where
  "BaseLabels m img = fmap_of_list
     [(LabelName, AppName), (LabelInstance, mName m), (LabelManagedBy, ManagedBy),
      (LabelComponent, ComponentBroker), (LabelVersion, ExtractVersionFromImage img)]"

definition SelectorLabels :: "mosquitto \<Rightarrow> strmap" where
  "SelectorLabels m = fmap_of_list
     [(LabelName, AppName), (LabelInstance, mName m), (LabelManagedBy, ManagedBy)]"

definition StatefulSetName :: "mosquitto \<Rightarrow> string" where
  "StatefulSetName m = mName m"

definition HeadlessServiceName :: "mosquitto \<Rightarrow> string" where
  "HeadlessServiceName m = mName m @ ''-headless''"

definition AuthSecretName :: "mosquitto \<Rightarrow> string" where
  "AuthSecretName m = mName m @ ''-auth''"

definition ClientServiceName :: "mosquitto \<Rightarrow> string" where
  "ClientServiceName m = mName m"

lemma SelectorLabels_sub_BaseLabels [map_facts]:
  "fmlookup (SelectorLabels m) k = Some v \<Longrightarrow> fmlookup (BaseLabels m img) k = Some v"
  by (auto simp: SelectorLabels_def BaseLabels_def label_names fmlookup_of_list
      split: if_splits)

subsection \<open>Maps\<close>

definition MapEntriesMissing :: "strmap \<Rightarrow> strmap \<Rightarrow> bool" where
  "MapEntriesMissing desired current = (\<not> fmpred (\<lambda>k v. go_get current k = v) desired)"

definition MergeLabels :: "strmap \<Rightarrow> strmap \<Rightarrow> strmap" where
  "MergeLabels base overlay = base ++\<^sub>f overlay"

definition JoinKeys :: "strmap \<Rightarrow> string" where
  "JoinKeys m = go_join '','' (sorted_keys m)"

definition RemovedKeys :: "string \<Rightarrow> string \<Rightarrow> string list" where
  "RemovedKeys previous current =
     (if previous = '''' then []
      else filter (\<lambda>k. k \<notin> set (go_split (CHR '','') current)) (go_split (CHR '','') previous))"

lemma MapEntriesMissing_iff:
  "MapEntriesMissing d c \<longleftrightarrow> (\<exists>k v. fmlookup d k = Some v \<and> go_get c k \<noteq> v)"
  by (auto simp: MapEntriesMissing_def fmpred_iff)

lemma not_MapEntriesMissingD:
  "\<not> MapEntriesMissing d c \<Longrightarrow> fmlookup d k = Some v \<Longrightarrow> go_get c k = v"
  by (auto simp: MapEntriesMissing_iff)

lemma MergeLabels_lookup [map_facts]:
  "fmlookup (MergeLabels b a) k = (case fmlookup a k of Some v \<Rightarrow> Some v | None \<Rightarrow> fmlookup b k)"
  unfolding MergeLabels_def by (rule fmadd_overlay)

lemma MergeLabels_wins [map_facts]:
  "fmlookup a k = Some v \<Longrightarrow> fmlookup (MergeLabels b a) k = Some v"
  by (simp add: MergeLabels_lookup)

lemma MergeLabels_keeps [map_facts]:
  "fmlookup a k = None \<Longrightarrow> fmlookup (MergeLabels b a) k = fmlookup b k"
  by (simp add: MergeLabels_lookup)

lemma merge_not_missing [simp]: "\<not> MapEntriesMissing d (MergeLabels c d)"
  by (simp add: MapEntriesMissing_iff go_get_def MergeLabels_lookup)

lemma merge_idem [simp]: "MergeLabels (MergeLabels c d) d = MergeLabels c d"
  by (rule fmap_ext) (simp add: MergeLabels_lookup split: option.split)

text \<open>
  The comparison reads a missing key as the empty string. So an entry whose desired value is
  empty is never reported as missing.
\<close>

lemma missing_misses_empty_value: "\<not> MapEntriesMissing (fmupd k '''' fmempty) fmempty"
  by (simp add: MapEntriesMissing_iff go_get_empty)

text \<open>The key record: keys of the API never are empty and never carry a comma.\<close>

definition plain_keys :: "strmap \<Rightarrow> bool" where
  "plain_keys m \<longleftrightarrow> list_all (\<lambda>k. k \<noteq> '''' \<and> CHR '','' \<notin> set k) (sorted_keys m)"

lemma plain_keysD: "plain_keys m \<Longrightarrow> has_key m k \<Longrightarrow> k \<noteq> '''' \<and> CHR '','' \<notin> set k"
  unfolding plain_keys_def list_all_iff by (simp add: has_key_iff)

lemma split_JoinKeys:
  assumes "plain_keys m" and "sorted_keys m \<noteq> []"
  shows "go_split (CHR '','') (JoinKeys m) = sorted_keys m"
  unfolding JoinKeys_def
proof (rule go_split_join)
  fix l assume "l \<in> set (sorted_keys m)"
  then have "has_key m l" by (simp only: in_sorted_keys)
  then show "CHR '','' \<notin> set l" using plain_keysD [OF assms(1)] by blast
qed (rule assms)

lemma JoinKeys_Nil: "plain_keys m \<Longrightarrow> JoinKeys m = '''' \<longleftrightarrow> sorted_keys m = []"
proof
  assume m: "plain_keys m" and e: "JoinKeys m = ''''"
  show "sorted_keys m = []"
  proof (rule ccontr)
    assume ne: "sorted_keys m \<noteq> []"
    from split_JoinKeys [OF m ne] e have "sorted_keys m = [[]]" by simp
    then have "has_key m []" using in_sorted_keys [of "[]" m] by simp
    then show False using plain_keysD [OF m] by blast
  qed
qed (simp add: JoinKeys_def)

lemma in_split_JoinKeys:
  assumes "plain_keys m" and "k \<noteq> ''''"
  shows "k \<in> set (go_split (CHR '','') (JoinKeys m)) \<longleftrightarrow> has_key m k"
proof (cases "sorted_keys m = []")
  case True
  then have "\<not> has_key m k" using in_sorted_keys [of k m] by simp
  then show ?thesis using True assms(2) by (simp add: JoinKeys_def)
next
  case False
  then show ?thesis using split_JoinKeys [OF assms(1) False] by (simp only: in_sorted_keys)
qed

text \<open>The record of applied keys is exact. From the values written for two key sets, the
  operator recovers the keys that were listed and no longer are, each once and in order.\<close>

lemma RemovedKeys_exact:
  assumes "plain_keys a" and "plain_keys b"
  shows "RemovedKeys (JoinKeys a) (JoinKeys b) = filter (\<lambda>k. \<not> has_key b k) (sorted_keys a)"
proof (cases "sorted_keys a = []")
  case True
  then show ?thesis by (simp add: RemovedKeys_def JoinKeys_def)
next
  case False
  have "k \<noteq> ''''" if "k \<in> set (sorted_keys a)" for k
    using plain_keysD [OF assms(1), of k] that unfolding in_sorted_keys by blast
  then have "filter (\<lambda>k. k \<notin> set (go_split (CHR '','') (JoinKeys b))) (sorted_keys a)
      = filter (\<lambda>k. \<not> has_key b k) (sorted_keys a)"
    using in_split_JoinKeys [OF assms(2)] by (intro filter_cong) auto
  then show ?thesis
    using False JoinKeys_Nil [OF assms(1)] split_JoinKeys [OF assms(1)]
    by (simp add: RemovedKeys_def)
qed

end
