(* ===== verification/Config.thy ===== *)
theory Config
  imports Labels
begin

section \<open>The broker configuration (internal/builder/config_allowlist.go, configmap.go)\<close>

text \<open>
  The generated \<open>mosquitto.conf\<close> and the check of the lines a user appends to it. A line of
  the file is a directive when it has a first word and that word does not start a comment
  (\<open>line_directive\<close>); the theory shows that the check admits exactly the allowlisted ones, and
  that whatever it admits, the lines of the file that are not tuning are the generated ones.
\<close>

abbreviation (input) nl :: char where "nl \<equiv> CHR 0x0A"

subsection \<open>The allowlist\<close>

definition AllowedConfigDirectives :: "string list" where
  "AllowedConfigDirectives =
    [''autosave_interval'', ''autosave_on_changes'', ''connection_messages'', ''global_max_clients'',
     ''global_max_connections'', ''log_timestamp'', ''log_timestamp_format'', ''log_type'',
     ''max_connections'', ''max_inflight_bytes'', ''max_inflight_messages'', ''max_keepalive'',
     ''max_packet_size'', ''max_qos'', ''max_queued_bytes'', ''max_queued_messages'',
     ''max_topic_alias'', ''max_topic_alias_broker'', ''memory_limit'',
     ''persistent_client_expiration'', ''queue_qos0_messages'', ''retain_available'',
     ''retain_expiry_interval'', ''set_tcp_nodelay'', ''sys_interval'', ''upgrade_outgoing_qos'']"

fun validate_lines :: "(nat \<Rightarrow> bool) \<Rightarrow> nat \<Rightarrow> string list \<Rightarrow> go_error option" where
  "validate_lines is_print i [] = None"
| "validate_lines is_print i (line # lines) =
     (case go_fields line of
        [] \<Rightarrow> validate_lines is_print (i + 1) lines
      | field # _ \<Rightarrow>
          if has_prefix ''#'' field then validate_lines is_print (i + 1) lines
          else if field \<notin> set AllowedConfigDirectives
          then Some (''spec.config line '' @ go_itoa (i + 1) @ '' ('' @
            go_quote is_print (trim_space line) @ ''): the directive '' @ go_quote is_print field @
            '' is not on the allowlist of tuning directives'')
          else validate_lines is_print (i + 1) lines)"

definition ValidateSpecConfig :: "(nat \<Rightarrow> bool) \<Rightarrow> mosquitto \<Rightarrow> go_error option" where
  "ValidateSpecConfig is_print m = validate_lines is_print 0 (go_split nl (specConfig (mSpec m)))"

subsection \<open>The generated file\<close>

definition SysInterval :: nat where "SysInterval = 10"
definition MaxPacketSize :: nat where "MaxPacketSize = 2000000"
definition MQTTPort :: int where "MQTTPort = 1883"
definition MQTTSPort :: int where "MQTTSPort = 8883"
definition MQTTPortName :: string where "MQTTPortName = ''mqtt''"
definition MQTTSPortName :: string where "MQTTSPortName = ''mqtts''"
definition ConfigKey :: string where "ConfigKey = ''mosquitto.conf''"
definition ConfigMountPath :: string where "ConfigMountPath = ''/mosquitto/config''"
definition TLSMountPath :: string where "TLSMountPath = ''/mosquitto/tls''"
definition DataMountPath :: string where "DataMountPath = ''/mosquitto/data''"
definition AuthMountPath :: string where "AuthMountPath = ''/mosquitto/auth''"
definition PasswordPluginPath :: string where
  "PasswordPluginPath = ''/usr/lib/mosquitto_password_file.so''"
definition ACLPluginPath :: string where "ACLPluginPath = ''/usr/lib/mosquitto_acl_file.so''"
definition TLSCertKey :: string where "TLSCertKey = ''tls.crt''"
definition TLSKeyKey :: string where "TLSKeyKey = ''tls.key''"

lemmas config_names [go_eval] = SysInterval_def MaxPacketSize_def MQTTPort_def MQTTSPort_def
  MQTTPortName_def MQTTSPortName_def ConfigKey_def ConfigMountPath_def TLSMountPath_def
  DataMountPath_def AuthMountPath_def PasswordPluginPath_def ACLPluginPath_def TLSCertKey_def
  TLSKeyKey_def

definition ConfigMapName :: "mosquitto \<Rightarrow> string" where
  "ConfigMapName m = mName m @ ''-config''"

definition BrokerPort :: "mosquitto \<Rightarrow> int" where
  "BrokerPort m = (if IsTLSEnabled m then MQTTSPort else MQTTPort)"

definition BrokerPortName :: "mosquitto \<Rightarrow> string" where
  "BrokerPortName m = (if IsTLSEnabled m then MQTTSPortName else MQTTPortName)"

definition header_lines :: "string list" where
  "header_lines =
    [''# Generated by mosquitto-operator. Edits are overwritten on the next reconcile;'',
     ''# append your own directives through spec.config instead.'',
     '''',
     ''# Logging goes to the container log so kubectl logs is the single source.'',
     ''log_dest stdout'',
     ''log_type error'',
     ''log_type warning'',
     ''log_type notice'',
     ''log_type information'',
     '''',
     ''# Persistence writes into the data mount, which is a PVC when spec.storage'',
     ''# is set and an emptyDir otherwise.'',
     ''persistence true'',
     ''persistence_location '' @ DataMountPath @ ''/'',
     '''',
     ''# Two broker defaults, stated rather than inherited (M28, M29): how often'',
     ''# $SYS is published, which is the resolution of the metrics exporter, and'',
     ''# the packet limit 2.1 lowered. A line in spec.config overrides either.'',
     ''sys_interval '' @ go_itoa SysInterval,
     ''max_packet_size '' @ go_itoa MaxPacketSize,
     '''',
     ''# Users. The operator renders every MosquittoUser bound to this broker into'',
     ''# these two files; the reloader sidecar copies a change in and reloads the'',
     ''# broker without a restart. There is no anonymous access.'',
     ''plugin_load pwfile '' @ PasswordPluginPath,
     ''plugin_opt_password_file '' @ AuthMountPath @ ''/passwd'',
     ''plugin_load aclfile '' @ ACLPluginPath,
     ''plugin_opt_acl_file '' @ AuthMountPath @ ''/acl'',
     '''']"

definition listener_lines :: "bool \<Rightarrow> string list" where
  "listener_lines tls =
    (if tls then
      [''# MQTTS listener. The certificate and key come from the secret named in'',
       ''# spec.tls.secretName; the operator neither creates nor renews them.'',
       ''listener '' @ go_itoa_int MQTTSPort,
       ''certfile '' @ TLSMountPath @ ''/'' @ TLSCertKey,
       ''keyfile '' @ TLSMountPath @ ''/'' @ TLSKeyKey]
     else
      [''# Plain MQTT listener.'',
       ''listener '' @ go_itoa_int MQTTPort])"

definition access_lines :: "string list" where
  "access_lines =
    [''listener_allow_anonymous false'',
     ''# The client ID is the username: no client can take over another client's'',
     ''# session, and one username holds one connection.'',
     ''use_username_as_clientid true'',
     ''plugin_use pwfile'',
     ''plugin_use aclfile'',
     '''']"

definition spec_lines :: "string \<Rightarrow> string list" where
  "spec_lines config =
    (if trim_space config \<noteq> ''''
     then [''# spec.config, appended after every line passed the allowlist.'',
           trim_right_set [nl] config, '''']
     else [])"

definition GenerateMosquittoConf :: "mosquitto \<Rightarrow> string" where
  "GenerateMosquittoConf m =
     go_join [nl] (header_lines @ listener_lines (IsTLSEnabled m) @ access_lines @
       spec_lines (specConfig (mSpec m)))"

subsection \<open>The ConfigMap\<close>

definition DefaultImage :: string where "DefaultImage = ''eclipse-mosquitto:2.1.2-alpine''"

definition ResolveImage :: "mosquitto \<Rightarrow> string" where
  "ResolveImage m = (if specImage (mSpec m) \<noteq> '''' then specImage (mSpec m) else DefaultImage)"

record config_map =
  cmMeta :: object_meta
  cmData :: strmap

definition object_meta_of :: "string \<Rightarrow> string \<Rightarrow> strmap \<Rightarrow> strmap \<Rightarrow> object_meta" where
  "object_meta_of name namespace labels annotations =
     empty_meta\<lparr>metaName := name, metaNamespace := namespace, metaLabels := labels,
       metaAnnotations := annotations\<rparr>"

lemma object_meta_of_simps [simp]:
  "metaName (object_meta_of n ns l a) = n" "metaNamespace (object_meta_of n ns l a) = ns"
  "metaLabels (object_meta_of n ns l a) = l" "metaAnnotations (object_meta_of n ns l a) = a"
  "metaOwnerReferences (object_meta_of n ns l a) = []"
  by (simp_all add: object_meta_of_def empty_meta_def)

definition BuildConfigMap :: "mosquitto \<Rightarrow> config_map" where
  "BuildConfigMap m = \<lparr>cmMeta = object_meta_of (ConfigMapName m) (mNamespace m)
       (BaseLabels m (ResolveImage m)) fmempty,
     cmData = fmap_of_list [(ConfigKey, GenerateMosquittoConf m)]\<rparr>"

subsection \<open>What the check admits\<close>

definition line_directive :: "string \<Rightarrow> string option" where
  "line_directive line =
     (case go_fields line of [] \<Rightarrow> None
      | field # _ \<Rightarrow> if has_prefix ''#'' field then None else Some field)"

definition line_admitted :: "string \<Rightarrow> bool" where
  "line_admitted line =
     (case line_directive line of None \<Rightarrow> True | Some d \<Rightarrow> d \<in> set AllowedConfigDirectives)"

definition refusal_message :: "(nat \<Rightarrow> bool) \<Rightarrow> nat \<Rightarrow> string \<Rightarrow> string" where
  "refusal_message is_print n line =
     ''spec.config line '' @ go_itoa n @ '' ('' @ go_quote is_print (trim_space line) @
     ''): the directive '' @ go_quote is_print (the (line_directive line)) @
     '' is not on the allowlist of tuning directives''"

lemma validate_lines_None: "validate_lines is_print i ls = None \<longleftrightarrow> list_all line_admitted ls"
  by (induction ls arbitrary: i)
    (auto simp: line_admitted_def line_directive_def split: list.splits)

lemma validate_lines_Some:
  "validate_lines is_print i ls = Some e \<Longrightarrow>
     \<exists>k < length ls. \<not> line_admitted (ls ! k) \<and> list_all line_admitted (take k ls) \<and>
       e = refusal_message is_print (i + k + 1) (ls ! k)"
proof (induction ls arbitrary: i)
  case (Cons l ls)
  show ?case
  proof (cases "line_admitted l")
    case True
    then have "validate_lines is_print (i + 1) ls = Some e"
      using Cons.prems by (auto simp: line_admitted_def line_directive_def split: list.splits if_splits)
    from Cons.IH [OF this] obtain k where "k < length ls" "\<not> line_admitted (ls ! k)"
      "list_all line_admitted (take k ls)" "e = refusal_message is_print (i + 1 + k + 1) (ls ! k)"
      by blast
    then show ?thesis using True by (intro exI [of _ "Suc k"]) simp
  next
    case False
    then have "e = refusal_message is_print (i + 1) l"
      using Cons.prems
      by (auto simp: line_admitted_def line_directive_def refusal_message_def split: list.splits if_splits)
    then show ?thesis using False by (intro exI [of _ 0]) simp
  qed
qed simp

text \<open>C26: the check of spec.config passes exactly when every line is blank, a comment or an allowlisted
  directive; otherwise its message names the first line that is none of these, by its number.\<close>

theorem ValidateSpecConfig_decides:
  "case ValidateSpecConfig is_print m of
     None \<Rightarrow> list_all line_admitted (go_split nl (specConfig (mSpec m)))
   | Some e \<Rightarrow> (let ls = go_split nl (specConfig (mSpec m)) in
       \<exists>k < length ls. \<not> line_admitted (ls ! k) \<and> list_all line_admitted (take k ls) \<and>
         e = refusal_message is_print (k + 1) (ls ! k))"
  using validate_lines_None [of is_print 0] validate_lines_Some [of is_print 0]
  by (auto simp: ValidateSpecConfig_def Let_def split: option.split)

subsection \<open>What the broker runs with\<close>

definition security_lines :: "bool \<Rightarrow> string list" where
  "security_lines tls =
    [''log_dest stdout'', ''persistence true'', ''persistence_location /mosquitto/data/'',
     ''plugin_load pwfile /usr/lib/mosquitto_password_file.so'',
     ''plugin_opt_password_file /mosquitto/auth/passwd'',
     ''plugin_load aclfile /usr/lib/mosquitto_acl_file.so'',
     ''plugin_opt_acl_file /mosquitto/auth/acl''] @
    (if tls then [''listener 8883'', ''certfile /mosquitto/tls/tls.crt'', ''keyfile /mosquitto/tls/tls.key'']
     else [''listener 1883'']) @
    [''listener_allow_anonymous false'', ''use_username_as_clientid true'',
     ''plugin_use pwfile'', ''plugin_use aclfile'']"

text \<open>The directive of a line that starts with an ASCII word.\<close>

definition plain_char :: "char \<Rightarrow> bool" where
  "plain_char c \<longleftrightarrow> is_ascii c \<and> \<not> is_space (of_char c)"

definition first_word :: "string \<Rightarrow> string" where
  "first_word l = takeWhile (\<lambda>c. c \<noteq> CHR '' '') l"

lemma go_fields_word:
  assumes "list_all plain_char w" and "w \<noteq> []" and "r = [] \<or> hd r = CHR '' ''"
  shows "\<exists>fs. go_fields (w @ r) = w # fs"
proof -
  have rw: "runes (w @ r) = map (\<lambda>c. (of_char c, [c])) w @ runes r"
    using assms(1) by (induction w) (auto simp: plain_char_def)
  have ns: "split_by (\<lambda>p. is_space (fst p)) (map (\<lambda>c. (of_char c, [c])) w)
      = [map (\<lambda>c. (of_char c, [c])) w]"
    using assms(1) by (intro split_by_none) (auto simp: list_all_iff plain_char_def)
  have uw: "unrunes (map (\<lambda>c. (of_char c, [c])) w) = w"
    by (induction w) (simp_all add: unrunes_def)
  show ?thesis
  proof (cases r)
    case Nil
    then show ?thesis using rw ns uw assms(2) by (simp add: go_fields_def)
  next
    case (Cons c s)
    then have "runes r = (32, '' '') # runes s" using assms(3) by (simp add: is_ascii_def)
    then show ?thesis
      using rw ns uw assms(2) split_by_append [of "\<lambda>p. is_space (fst p)" "(32, '' '')"
          "map (\<lambda>c. (of_char c, [c])) w" "runes s"]
      by (simp add: go_fields_def is_space_def)
  qed
qed

lemma line_admitted_word:
  assumes "list_all plain_char (first_word l)" and "first_word l \<noteq> []"
  shows "line_admitted l \<longleftrightarrow> hd l = CHR ''#'' \<or> first_word l \<in> set AllowedConfigDirectives"
proof -
  let ?r = "dropWhile (\<lambda>c. c \<noteq> CHR '' '') l"
  have l: "first_word l @ ?r = l" by (simp add: first_word_def)
  have "?r = [] \<or> hd ?r = CHR '' ''" using hd_dropWhile [of "\<lambda>c. c \<noteq> CHR '' ''" l] by auto
  from go_fields_word [OF assms this] obtain fs where "go_fields l = first_word l # fs"
    unfolding l by blast
  moreover have "has_prefix ''#'' (first_word l) \<longleftrightarrow> hd l = CHR ''#''"
    using assms(2) by (cases l) (auto simp: first_word_def has_prefix_def split: if_splits)
  ultimately show ?thesis
    by (cases "hd l = CHR ''#''") (simp_all add: line_admitted_def line_directive_def)
qed

lemma itoa_config: "go_itoa 10 = ''10''" "go_itoa 2000000 = ''2000000''"
  "go_itoa_int 1883 = ''1883''" "go_itoa_int 8883 = ''8883''"
  by (simp_all add: go_itoa.simps go_itoa_int_def digit_def char_of_def bit_Suc_0_iff)

lemma generated_lines_nl:
  "l \<in> set (header_lines @ listener_lines tls @ access_lines) \<Longrightarrow> nl \<notin> set l"
  by (auto simp: header_lines_def listener_lines_def access_lines_def config_names itoa_config
      split: if_splits)

lemma empty_admitted: "line_admitted ''''"
  by (simp add: line_admitted_def line_directive_def go_fields_def)

lemma comment_admitted: "line_admitted ''# spec.config, appended after every line passed the allowlist.''"
  by (subst line_admitted_word) (simp_all add: first_word_def plain_char_def is_ascii_def is_space_def)

lemma generated_lines_restricted:
  "filter (\<lambda>l. \<not> line_admitted l) (header_lines @ listener_lines tls @ access_lines) = security_lines tls"
  by (cases tls) (simp_all add: header_lines_def listener_lines_def access_lines_def config_names itoa_config
      line_admitted_word empty_admitted first_word_def plain_char_def is_ascii_def is_space_def
      AllowedConfigDirectives_def security_lines_def)

lemma trim_right_lines: "set (go_split c (trim_right_set [c] s)) \<subseteq> set (go_split c s)"
proof -
  have "s = trim_right_set [c] s @ rev (takeWhile (\<lambda>x. x = c) (rev s))"
    using takeWhile_dropWhile_id [of "\<lambda>x. x = c" "rev s"]
    by (simp add: trim_right_set_def flip: rev_append)
  moreover have "rev (takeWhile (\<lambda>x. x = c) (rev s)) = replicate n c"
    if "n = length (takeWhile (\<lambda>x. x = c) (rev s))" for n
    using that by (intro replicate_eqI) (auto dest: set_takeWhileD)
  ultimately obtain n where s: "s = trim_right_set [c] s @ replicate n c" by metis
  show ?thesis
  proof (cases n)
    case 0
    then show ?thesis using s by simp
  next
    case (Suc k)
    have "set (go_split c (trim_right_set [c] s)) \<subseteq>
        set (go_split c (trim_right_set [c] s @ c # replicate k c))" by simp
    then show ?thesis using s Suc by (metis replicate_Suc)
  qed
qed

lemma concat_split_plain:
  "(\<And>l. l \<in> set ls \<Longrightarrow> c \<notin> set l) \<Longrightarrow> concat (map (go_split c) ls) = ls"
  by (induction ls) simp_all

lemma conf_lines:
  "go_split nl (GenerateMosquittoConf m) =
     header_lines @ listener_lines (IsTLSEnabled m) @ access_lines @
       concat (map (go_split nl) (spec_lines (specConfig (mSpec m))))"
proof -
  let ?base = "header_lines @ listener_lines (IsTLSEnabled m) @ access_lines"
  have "concat (map (go_split nl) ?base) = ?base"
    by (rule concat_split_plain) (rule generated_lines_nl)
  moreover have "?base \<noteq> []" by (simp add: access_lines_def)
  then have "go_split nl (go_join [nl] (?base @ ls)) =
      concat (map (go_split nl) ?base) @ concat (map (go_split nl) ls)" for ls
    by (subst go_split_join_append) auto
  ultimately show ?thesis by (simp add: GenerateMosquittoConf_def)
qed

text \<open>C6: whatever the allowlist let through, the lines of the generated file that are not tuning are
  the operator's own: one listener, no anonymous access, the two plugins and nothing else.\<close>

theorem conf_security_lines:
  assumes "ValidateSpecConfig is_print m = None"
  shows "filter (\<lambda>l. \<not> line_admitted l) (go_split nl (GenerateMosquittoConf m)) =
    security_lines (IsTLSEnabled m)"
proof -
  let ?config = "specConfig (mSpec m)"
  have "list_all line_admitted (go_split nl ?config)"
    using assms validate_lines_None by (simp add: ValidateSpecConfig_def)
  then have "list_all line_admitted (go_split nl (trim_right_set [nl] ?config))"
    using trim_right_lines [of nl ?config] by (auto simp: list_all_iff)
  then have "filter (\<lambda>l. \<not> line_admitted l) (concat (map (go_split nl) (spec_lines ?config))) = []"
    by (auto simp: spec_lines_def list_all_iff comment_admitted empty_admitted filter_empty_conv)
  then show ?thesis
    unfolding conf_lines using generated_lines_restricted [of "IsTLSEnabled m"] by simp
qed

definition sample_broker :: mosquitto where
  "sample_broker = \<lparr>
     mMeta = empty_meta\<lparr>metaName := ''mq'', metaNamespace := ''ns'', metaUID := ''u1''\<rparr>,
     mSpec = \<lparr>specReplicas = 1, specImage = '''', specConfig = ''log_type all'', specAntiAffinity = ''soft'',
       specTLS = Some \<lparr>tlsSecretName = ''cert''\<rparr>,
       specResources = \<lparr>resRequests = fmempty, resLimits = fmempty\<rparr>,
       specStorage = Some \<lparr>storageSize = ''1Gi'', storageClassName = None\<rparr>,
       specPodLabels = fmap_of_list [(''team'', ''a''), (LabelInstance, ''forged'')],
       specPodAnnotations = fmap_of_list [(''note'', ''b'')],
       specMetrics = Some \<lparr>metricsEnabled = True\<rparr>\<rparr>,
     mStatus = \<lparr>statusPhase = '''', statusReadyReplicas = 0, statusObservedGeneration = 0,
       statusUsers = 0, statusConditions = []\<rparr>\<rparr>"

lemma sample_broker_config: "ValidateSpecConfig is_print sample_broker = None"
proof -
  have "line_admitted ''log_type all''"
    by (subst line_admitted_word)
      (simp_all add: first_word_def plain_char_def is_ascii_def is_space_def AllowedConfigDirectives_def)
  then have "list_all line_admitted (go_split nl ''log_type all'')" by simp
  then show ?thesis
    using validate_lines_None [of is_print 0 "go_split nl ''log_type all''"]
    by (simp only: ValidateSpecConfig_def sample_broker_def mosquitto.simps mosquitto_spec.simps)
qed

theorem conf_security_lines_witness:
  "''listener 8883'' \<in> set (go_split nl (GenerateMosquittoConf sample_broker)) \<and>
   ''listener_allow_anonymous true'' \<notin> set (go_split nl (GenerateMosquittoConf sample_broker))"
proof -
  have tls: "IsTLSEnabled sample_broker" by (simp add: IsTLSEnabled_def sample_broker_def)
  have lines: "set (filter (\<lambda>l. \<not> line_admitted l) (go_split nl (GenerateMosquittoConf sample_broker)))
      = set (security_lines True)"
    by (simp only: conf_security_lines [OF sample_broker_config [of "\<lambda>_. False"]] tls)
  have "''listener 8883'' \<in> set (security_lines True)" by (simp add: security_lines_def)
  moreover have "\<not> line_admitted ''listener_allow_anonymous true''"
    by (subst line_admitted_word)
      (simp_all add: first_word_def plain_char_def is_ascii_def is_space_def AllowedConfigDirectives_def)
  moreover have "''listener_allow_anonymous true'' \<notin> set (security_lines True)"
    by (simp add: security_lines_def)
  moreover have "l \<in> set (security_lines True) \<longleftrightarrow>
      l \<in> set (go_split nl (GenerateMosquittoConf sample_broker)) \<and> \<not> line_admitted l" for l
    unfolding lines [symmetric] set_filter mem_Collect_eq by (rule refl)
  ultimately show ?thesis by blast
qed

end
