(* ===== verification/Hash.thy ===== *)
theory Hash
  imports GoStrings
begin

section \<open>Password hashes (internal/auth/hash.go)\<close>

text \<open>
  The \<open>$7$\<close> PBKDF2-SHA512 hashes of the password-file plugin: how one is written
  (\<open>HashPassword\<close>), parsed (\<open>parseHash\<close>) and verified (\<open>VerifyPassword\<close>). Padded
  base64 is written out, with the decoder's tolerance for line breaks. The key derivation
  itself is a parameter, the field \<open>rtPbkdf2\<close> of the runtime, of which only the documented
  length of the key is ever assumed (\<open>pbkdf2_ok\<close>). A random source is the bytes it still
  holds.
\<close>

record runtime =
  rtIsPrint :: "nat \<Rightarrow> bool"
  rtPbkdf2 :: "string \<Rightarrow> string \<Rightarrow> int \<Rightarrow> nat \<Rightarrow> string result"

definition pbkdf2_ok :: "runtime \<Rightarrow> bool" where
  "pbkdf2_ok rt \<longleftrightarrow> (\<forall>pw salt n len k. rtPbkdf2 rt pw salt n len = Inr k \<longrightarrow> length k = len)"

subsection \<open>Base64\<close>

definition b64_alphabet :: string where
  "b64_alphabet = ''ABCDEFGHIJKLMNOPQRSTUVWXYZabcdefghijklmnopqrstuvwxyz0123456789+/''"

definition b64_char :: "nat \<Rightarrow> char" where
  "b64_char n = b64_alphabet ! n"

definition b64_value :: "char \<Rightarrow> nat option" where
  "b64_value c = go_index c b64_alphabet"

fun b64_encode :: "string \<Rightarrow> string" where
  "b64_encode [] = []"
| "b64_encode [a] =
     (let x = of_char a
      in [b64_char (x div 4), b64_char (x mod 4 * 16), CHR ''='', CHR ''=''])"
| "b64_encode [a, b] =
     (let x = of_char a; y = of_char b
      in [b64_char (x div 4), b64_char (x mod 4 * 16 + y div 16), b64_char (y mod 16 * 4), CHR ''=''])"
| "b64_encode (a # b # c # r) =
     (let x = of_char a; y = of_char b; z = of_char c
      in [b64_char (x div 4), b64_char (x mod 4 * 16 + y div 16),
          b64_char (y mod 16 * 4 + z div 64), b64_char (z mod 64)] @ b64_encode r)"

fun b64_decode_quanta :: "string \<Rightarrow> string option" where
  "b64_decode_quanta [] = Some []"
| "b64_decode_quanta (a # b # c # d # r) =
     (case (b64_value a, b64_value b) of
        (Some x, Some y) \<Rightarrow>
          (let p = char_of (x * 4 + y div 16) in
           if c = CHR ''='' then (if d = CHR ''='' \<and> r = [] then Some [p] else None)
           else (case b64_value c of None \<Rightarrow> None | Some z \<Rightarrow>
             (let q = char_of (y mod 16 * 16 + z div 4) in
              if d = CHR ''='' then (if r = [] then Some [p, q] else None)
              else (case b64_value d of None \<Rightarrow> None | Some w \<Rightarrow>
                (case b64_decode_quanta r of None \<Rightarrow> None
                 | Some s \<Rightarrow> Some (p # q # char_of (z mod 4 * 64 + w) # s))))))
      | _ \<Rightarrow> None)"
| "b64_decode_quanta _ = None"

definition b64_decode :: "string \<Rightarrow> string option" where
  "b64_decode s = b64_decode_quanta (filter (\<lambda>c. c \<noteq> CHR 0x0A \<and> c \<noteq> CHR 0x0D) s)"

text \<open>\<open>base64.RawURLEncoding\<close>: the URL alphabet, without padding.\<close>

definition raw_url_encode :: "string \<Rightarrow> string" where
  "raw_url_encode s =
     map (\<lambda>c. if c = CHR ''+'' then CHR ''-'' else if c = CHR ''/'' then CHR ''_'' else c)
       (filter (\<lambda>c. c \<noteq> CHR ''='') (b64_encode s))"

lemma b64_value_all: "list_all (\<lambda>n. b64_value (b64_char n) = Some n) [0..<64]"
  by code_simp

lemma b64_value_char [simp]: "n < 64 \<Longrightarrow> b64_value (b64_char n) = Some n"
  using b64_value_all by (simp add: list_all_iff)

lemma b64_char_in: "n < 64 \<Longrightarrow> b64_char n \<in> set b64_alphabet"
  unfolding b64_char_def by (rule nth_mem) (simp add: b64_alphabet_def)

lemma b64_char_safe:
  assumes "n < 64"
  shows "b64_char n \<noteq> CHR ''='' \<and> b64_char n \<noteq> CHR 0x0A \<and> b64_char n \<noteq> CHR 0x0D \<and>
    b64_char n \<noteq> CHR ''$'' \<and> b64_char n \<noteq> CHR '':''"
  using b64_char_in [OF assms] by (auto simp: b64_alphabet_def)

lemma b64_char_eq_pad [simp]: "n < 64 \<Longrightarrow> b64_char n \<noteq> CHR ''=''"
  using b64_char_safe by blast

lemma byte_split:
  fixes x y z :: nat
  assumes "x < 256" "y < 256" "z < 256"
  shows "x div 4 < 64" "x mod 4 * 16 < 64" "x mod 4 * 16 + y div 16 < 64" "y mod 16 * 4 < 64"
    "y mod 16 * 4 + z div 64 < 64" "z mod 64 < 64"
    "x div 4 * 4 + x mod 4 * 16 div 16 = x"
    "x div 4 * 4 + (x mod 4 * 16 + y div 16) div 16 = x"
    "(x mod 4 * 16 + y div 16) mod 16 * 16 + y mod 16 * 4 div 4 = y"
    "(x mod 4 * 16 + y div 16) mod 16 * 16 + (y mod 16 * 4 + z div 64) div 4 = y"
    "(y mod 16 * 4 + z div 64) mod 4 * 64 + z mod 64 = z"
proof -
  have y: "y div 16 < 16" and z: "z div 64 < 4" using assms by linarith+
  have x4: "x mod 4 < 4" and y16: "y mod 16 < 16" by simp_all
  show "x div 4 < 64" "x mod 4 * 16 < 64" "x mod 4 * 16 + y div 16 < 64" "y mod 16 * 4 < 64"
    "y mod 16 * 4 + z div 64 < 64" "z mod 64 < 64"
    using assms y z x4 y16 by linarith+
  have "(x mod 4 * 16 + y div 16) div 16 = x mod 4" "(x mod 4 * 16 + y div 16) mod 16 = y div 16"
    "(y mod 16 * 4 + z div 64) div 4 = y mod 16" "(y mod 16 * 4 + z div 64) mod 4 = z div 64"
    using y z by simp_all
  then show "x div 4 * 4 + x mod 4 * 16 div 16 = x"
    "x div 4 * 4 + (x mod 4 * 16 + y div 16) div 16 = x"
    "(x mod 4 * 16 + y div 16) mod 16 * 16 + y mod 16 * 4 div 4 = y"
    "(x mod 4 * 16 + y div 16) mod 16 * 16 + (y mod 16 * 4 + z div 64) div 4 = y"
    "(y mod 16 * 4 + z div 64) mod 4 * 64 + z mod 64 = z"
    by simp_all
qed

lemma byte_split_high:
  fixes x :: nat
  assumes "x < 256"
  shows "x div 16 div 16 = 0" "x div 16 mod 16 = x div 16" "x div 64 div 4 = 0"
    "x div 64 mod 4 = x div 64"
proof -
  have "x div 16 < 16" "x div 64 < 4" using assms by linarith+
  then show "x div 16 div 16 = 0" "x div 16 mod 16 = x div 16" "x div 64 div 4 = 0"
    "x div 64 mod 4 = x div 64" by simp_all
qed

lemmas byte_split_char = byte_split [OF nat_of_char_less_256 nat_of_char_less_256 nat_of_char_less_256]
  byte_split_high [OF nat_of_char_less_256]

lemma b64_decode_quanta_encode [simp]: "b64_decode_quanta (b64_encode s) = Some s"
  by (induction s rule: b64_encode.induct) (simp_all add: Let_def byte_split_char)

lemma set_b64_encode:
  "c \<in> set (b64_encode s) \<Longrightarrow> c = CHR ''='' \<or> (\<exists>n<64. c = b64_char n)"
  by (induction s rule: b64_encode.induct) (auto simp: Let_def intro: byte_split_char)

lemma b64_encode_chars:
  assumes "c \<in> set (b64_encode s)"
  shows "c \<noteq> CHR 0x0A \<and> c \<noteq> CHR 0x0D \<and> c \<noteq> CHR ''$'' \<and> c \<noteq> CHR '':''"
  using set_b64_encode [OF assms] b64_char_safe by auto

lemma b64_decode_encode [simp]: "b64_decode (b64_encode s) = Some s"
proof -
  have "filter (\<lambda>c. c \<noteq> CHR 0x0A \<and> c \<noteq> CHR 0x0D) (b64_encode s) = b64_encode s"
    using b64_encode_chars by (simp add: filter_id_conv)
  then show ?thesis by (simp add: b64_decode_def)
qed

subsection \<open>Writing and reading a hash\<close>

definition HashIterations :: nat where "HashIterations = 1000"
definition saltLength :: nat where "saltLength = 64"
definition keyLength :: nat where "keyLength = 64"
definition hashPrefix :: string where "hashPrefix = ''$7$''"

text \<open>\<open>io.ReadFull\<close>: the first \<open>n\<close> bytes and the bytes left, or an error.\<close>

definition read_full :: "nat \<Rightarrow> string \<Rightarrow> (string \<times> string) result" where
  "read_full n random =
     (if n \<le> length random then Inr (take n random, drop n random)
      else Inl (if random = '''' then ''EOF'' else ''unexpected EOF''))"

definition wrap_err :: "string \<Rightarrow> 'a result \<Rightarrow> 'a result" where
  "wrap_err what r = (case r of Inl e \<Rightarrow> Inl (what @ '': '' @ e) | Inr a \<Rightarrow> Inr a)"

definition HashPassword :: "runtime \<Rightarrow> string \<Rightarrow> string \<Rightarrow> (string \<times> string) result" where
  "HashPassword rt password random =
     bindR (wrap_err ''reading a salt'' (read_full saltLength random)) (\<lambda>(salt, random').
     bindR (wrap_err ''deriving the key''
              (rtPbkdf2 rt password salt (int HashIterations) keyLength)) (\<lambda>key.
     Inr (hashPrefix @ go_itoa HashIterations @ ''$'' @ b64_encode salt @ ''$'' @ b64_encode key,
          random')))"

definition errMalformedHash :: go_error where
  "errMalformedHash = ''not a $7$ PBKDF2-SHA512 hash''"

definition parseHash :: "string \<Rightarrow> (int \<times> string \<times> string) result" where
  "parseHash encoded =
     (if \<not> has_prefix hashPrefix encoded then Inl errMalformedHash
      else (case go_split (CHR ''$'') (trim_prefix hashPrefix encoded) of
        [p0, p1, p2] \<Rightarrow>
          (case go_atoi p0 of None \<Rightarrow> Inl errMalformedHash | Some iterations \<Rightarrow>
           if iterations < 1 then Inl errMalformedHash
           else (case b64_decode p1 of None \<Rightarrow> Inl errMalformedHash | Some salt \<Rightarrow>
             if length salt = 0 then Inl errMalformedHash
             else (case b64_decode p2 of None \<Rightarrow> Inl errMalformedHash | Some key \<Rightarrow>
               if length key = 0 then Inl errMalformedHash
               else Inr (iterations, salt, key))))
      | _ \<Rightarrow> Inl errMalformedHash))"

definition VerifyPassword :: "runtime \<Rightarrow> string \<Rightarrow> string \<Rightarrow> bool" where
  "VerifyPassword rt encoded password =
     (case parseHash encoded of
        Inl _ \<Rightarrow> False
      | Inr (iterations, salt, key) \<Rightarrow>
          (case rtPbkdf2 rt password salt iterations (length key) of
             Inl _ \<Rightarrow> False
           | Inr derived \<Rightarrow> derived = key))"

lemma wrap_err_Inr [simp]: "wrap_err w r = Inr a \<longleftrightarrow> r = Inr a"
  by (cases r) (simp_all add: wrap_err_def)

lemma wrap_err_simps [simp]:
  "wrap_err w (Inr a) = Inr a"
  "wrap_err w (Inl e) = Inl (w @ '': '' @ e)"
  by (simp_all add: wrap_err_def)

lemma read_full_Inr:
  "read_full n r = Inr (b, r') \<longleftrightarrow> n \<le> length r \<and> b = take n r \<and> r' = drop n r"
  by (auto simp: read_full_def)

lemma HashPassword_Inr:
  "HashPassword rt pw rnd = Inr (h, rnd') \<longleftrightarrow>
   (\<exists>key. 64 \<le> length rnd \<and> rnd' = drop 64 rnd \<and>
      rtPbkdf2 rt pw (take 64 rnd) 1000 64 = Inr key \<and>
      h = ''$7$'' @ go_itoa 1000 @ ''$'' @ b64_encode (take 64 rnd) @ ''$'' @ b64_encode key)"
  by (auto simp: HashPassword_def read_full_Inr saltLength_def keyLength_def HashIterations_def
      hashPrefix_def)

lemma dollar_free:
  "CHR ''$'' \<notin> set (go_itoa n)" "CHR ''$'' \<notin> set (b64_encode s)"
  "CHR 0x0A \<notin> set (go_itoa n)" "CHR 0x0A \<notin> set (b64_encode s)"
  "CHR '':'' \<notin> set (go_itoa n)" "CHR '':'' \<notin> set (b64_encode s)"
  using b64_encode_chars go_itoa_set by (fastforce simp: is_digit_def)+

lemma parseHash_format:
  assumes "0 < n" "int n < 2 ^ 63" "salt \<noteq> []" "key \<noteq> []"
  shows "parseHash (hashPrefix @ go_itoa n @ ''$'' @ b64_encode salt @ ''$'' @ b64_encode key)
    = Inr (int n, salt, key)"
proof -
  have "go_split (CHR ''$'') (go_itoa n @ CHR ''$'' # b64_encode salt @ CHR ''$'' # b64_encode key)
      = [go_itoa n, b64_encode salt, b64_encode key]"
    by (simp add: dollar_free)
  then show ?thesis
    using assms by (simp add: parseHash_def go_atoi_itoa)
qed

lemma HashPassword_parse:
  assumes "pbkdf2_ok rt" and "HashPassword rt pw rnd = Inr (h, rnd')"
  shows "\<exists>key. parseHash h = Inr (1000, take 64 rnd, key) \<and> length key = 64 \<and>
    rtPbkdf2 rt pw (take 64 rnd) 1000 64 = Inr key"
proof -
  obtain key where len: "64 \<le> length rnd"
    and key: "rtPbkdf2 rt pw (take 64 rnd) 1000 64 = Inr key"
    and h: "h = ''$7$'' @ go_itoa 1000 @ ''$'' @ b64_encode (take 64 rnd) @ ''$'' @ b64_encode key"
    using assms(2) unfolding HashPassword_Inr by blast
  have k64: "length key = 64" using assms(1) key by (auto simp: pbkdf2_ok_def)
  moreover have "take 64 rnd \<noteq> []" "key \<noteq> []" using len k64 by auto
  ultimately show ?thesis
    using parseHash_format [of 1000 "take 64 rnd" key] h key by (simp add: hashPrefix_def)
qed

lemma HashPassword_line_safe:
  "HashPassword rt pw rnd = Inr (h, rnd') \<Longrightarrow> CHR 0x0A \<notin> set h \<and> CHR '':'' \<notin> set h \<and> h \<noteq> []"
  unfolding HashPassword_Inr by (auto simp: dollar_free)

text \<open>C30: a hash the operator writes verifies for exactly those passwords whose derived key, under
  the salt it drew and the fixed iteration count, is the key it stored. The password it was made
  from is one of them.\<close>

theorem HashPassword_verifies:
  assumes "pbkdf2_ok rt" and "HashPassword rt pw rnd = Inr (h, rnd')"
  shows "VerifyPassword rt h pw \<and>
    (VerifyPassword rt h pw' \<longleftrightarrow>
       rtPbkdf2 rt pw' (take 64 rnd) 1000 64 = rtPbkdf2 rt pw (take 64 rnd) 1000 64)"
proof -
  obtain key where p: "parseHash h = Inr (1000, take 64 rnd, key)" and l: "length key = 64"
    and k: "rtPbkdf2 rt pw (take 64 rnd) 1000 64 = Inr key"
    using HashPassword_parse [OF assms] by blast
  show ?thesis by (simp add: VerifyPassword_def p l k split: sum.split)
qed

text \<open>A runtime to evaluate the model with: the key is the password, padded to its length.\<close>

definition sample_runtime :: runtime where
  "sample_runtime = \<lparr>rtIsPrint = (\<lambda>_. False),
     rtPbkdf2 = (\<lambda>pw salt n len. Inr (take len (pw @ replicate len (CHR 0x00))))\<rparr>"

lemma sample_runtime_ok: "pbkdf2_ok sample_runtime"
  by (auto simp: pbkdf2_ok_def sample_runtime_def min_def)

theorem HashPassword_verifies_witness:
  "\<exists>h r. HashPassword sample_runtime ''secret'' (replicate 64 (CHR ''s'')) = Inr (h, r) \<and>
     VerifyPassword sample_runtime h ''secret'' \<and> \<not> VerifyPassword sample_runtime h ''other''"
proof -
  let ?rnd = "replicate 64 (CHR ''s'')"
  obtain h where h: "HashPassword sample_runtime ''secret'' ?rnd = Inr (h, '''')"
    by (simp add: HashPassword_Inr sample_runtime_def)
  from HashPassword_verifies [OF sample_runtime_ok h, of "''other''"]
  have "VerifyPassword sample_runtime h ''secret''" "\<not> VerifyPassword sample_runtime h ''other''"
    by (simp_all add: sample_runtime_def)
  with h show ?thesis by blast
qed

text \<open>C39: a hash that parses has a positive 64-bit iteration count, a salt and a key; a string
  without the prefix of the format never parses, so it never verifies.\<close>

theorem parseHash_bounds:
  "(parseHash e = Inr (n, salt, key) \<longrightarrow>
      has_prefix ''$7$'' e \<and> 1 \<le> n \<and> n < 2 ^ 63 \<and> salt \<noteq> [] \<and> key \<noteq> []) \<and>
   (\<not> has_prefix ''$7$'' e \<longrightarrow> \<not> VerifyPassword rt e pw)"
  by (auto simp: parseHash_def VerifyPassword_def hashPrefix_def go_atoi_def Let_def
      split: if_splits list.splits option.splits)

theorem parseHash_bounds_witness:
  "(parseHash ''$7$101$c2FsdA==$a2V5'' = Inr (101, ''salt'', ''key'') \<and> (1 :: int) \<le> 101) \<and>
   \<not> VerifyPassword sample_runtime ''$6$salt$key'' ''key''"
proof -
  have p: "parseHash ''$7$101$c2FsdA==$a2V5'' = Inr (101, ''salt'', ''key'')"
    by code_simp
  have "\<not> has_prefix ''$7$'' ''$6$salt$key''" by (simp add: has_prefix_def)
  then show ?thesis
    using p parseHash_bounds [of "''$7$101$c2FsdA==$a2V5''" 101 "''salt''" "''key''"]
      parseHash_bounds [of "''$6$salt$key''" _ _ _ sample_runtime "''key''"] by blast
qed

end
