(* ===== verification/Render.thy ===== *)
theory Render
  imports ApiTypes Hash
begin

section \<open>Rendering the users of a broker (internal/auth/render.go)\<close>

text \<open>
  The mode-independent half of rendering: the checks on one user (\<open>check\<close>,
  \<open>topicProblem\<close>), the resolution of username collisions by age (\<open>resolveCollisions\<close>), the
  canonical order of an ACL (\<open>canonicalACLs\<close>), the decision to keep a hash
  (\<open>keepOrHash\<close>) and \<open>RenderUsers\<close>, which is the Go function \<open>Render\<close>. The payload, the
  mode-specific half, is the Go interface \<open>Payload\<close>: a record of two functions, with the
  locale \<open>payload\<close> stating what its users rely on.
\<close>

definition ReservedPrefix :: string where "ReservedPrefix = ''mko-''"
definition ExporterUsername :: string where "ExporterUsername = ReservedPrefix @ ''exporter''"

record principal =
  prUsername :: string
  prPassword :: string
  prACLs :: "mosquitto_acl list"

definition ExporterPrincipal :: "string \<Rightarrow> principal" where
  "ExporterPrincipal password = \<lparr>prUsername = ExporterUsername, prPassword = password,
     prACLs = [\<lparr>aclTopic = ''$SYS/#'', aclAccess = AccessRead\<rparr>]\<rparr>"

record input =
  inName :: string
  inCreated :: int
  inUsername :: string
  inPassword :: string
  inACLs :: "mosquitto_acl list"

record accepted =
  acUsername :: string
  acHash :: string
  acACLs :: "mosquitto_acl list"

record verdict =
  vAccepted :: bool
  vReason :: string
  vMessage :: string

record payload =
  pHashes :: "strmap \<Rightarrow> strmap"
  pRender :: "accepted list \<Rightarrow> strmap"

record render_result =
  resData :: strmap
  resVerdicts :: "(string, verdict) fmap"
  resAccepted :: nat

definition refused :: "string \<Rightarrow> string \<Rightarrow> verdict" where
  "refused reason message = \<lparr>vAccepted = False, vReason = reason, vMessage = message\<rparr>"

subsection \<open>The checks on one user\<close>

text \<open>\<open>usernamePattern\<close> and its source text.\<close>

definition usernamePattern_text :: string where
  "usernamePattern_text = ''^[A-Za-z0-9][A-Za-z0-9._@-]{0,127}$''"

definition alnum :: "char \<Rightarrow> bool" where
  "alnum c = (let n = (of_char c :: nat) in
     (65 \<le> n \<and> n \<le> 90) \<or> (97 \<le> n \<and> n \<le> 122) \<or> (48 \<le> n \<and> n \<le> 57))"

definition usernamePattern :: "string \<Rightarrow> bool" where
  "usernamePattern u = (case u of [] \<Rightarrow> False | c # cs \<Rightarrow>
     alnum c \<and> length cs \<le> 127 \<and> list_all (\<lambda>x. alnum x \<or> x \<in> set ''._@-'') cs)"

text \<open>\<open>strings.ToLower\<close> on ASCII; it is only applied to usernames the pattern admitted.\<close>

definition lower_char :: "char \<Rightarrow> char" where
  "lower_char c = (let n = (of_char c :: nat) in
     if 65 \<le> n \<and> n \<le> 90 then char_of (n + 32) else c)"

definition isControl :: "nat \<Rightarrow> bool" where
  "isControl r = (r < 32 \<or> r = 127)"

fun levelProblem :: "string list \<Rightarrow> string" where
  "levelProblem [] = ''''"
| "levelProblem (level # levels) =
     (if CHR ''#'' \<in> set level \<and> (level \<noteq> ''#'' \<or> levels \<noteq> [])
      then ''# must be a whole level and the last one''
      else if CHR ''+'' \<in> set level \<and> level \<noteq> ''+'' then ''+ must be a whole level''
      else levelProblem levels)"

definition topicProblem :: "string \<Rightarrow> string" where
  "topicProblem topic =
     (if topic = '''' then ''it is empty''
      else if has_prefix ''$'' topic
        then ''a topic starting with $ is reserved for the broker and the operator''
      else if \<not> valid_utf8 topic then ''it is not valid UTF-8''
      else if list_ex (\<lambda>p. isControl (fst p)) (runes topic)
        then ''it contains a control character''
      else if trim_space topic \<noteq> topic then ''it starts or ends with whitespace''
      else levelProblem (go_split (CHR ''/'') topic))"

fun check_acls :: "runtime \<Rightarrow> mosquitto_acl list \<Rightarrow> verdict option" where
  "check_acls rt [] = None"
| "check_acls rt (acl # acls) =
     (let problem = topicProblem (aclTopic acl) in
      if problem \<noteq> ''''
      then Some (refused ReasonTopicRefused
        (''ACL topic '' @ go_quote (rtIsPrint rt) (aclTopic acl) @ '' is refused: '' @ problem))
      else if aclAccess acl \<noteq> AccessRead \<and> aclAccess acl \<noteq> AccessWrite
        \<and> aclAccess acl \<noteq> AccessReadWrite
      then Some (refused ReasonTopicRefused
        (''ACL topic '' @ go_quote (rtIsPrint rt) (aclTopic acl) @ '' has access '' @
         go_quote (rtIsPrint rt) (aclAccess acl) @ '', which is not read, write or readwrite''))
      else check_acls rt acls)"

definition check :: "runtime \<Rightarrow> input \<Rightarrow> verdict option" where
  "check rt inp =
     (if \<not> usernamePattern (inUsername inp)
      then Some (refused ReasonUsernameInvalid
        (''username '' @ go_quote (rtIsPrint rt) (inUsername inp) @
         '' is not allowed: it must match '' @ usernamePattern_text))
      else if has_prefix ReservedPrefix (map lower_char (inUsername inp))
      then Some (refused ReasonUsernameReserved
        (''username '' @ go_quote (rtIsPrint rt) (inUsername inp) @ '' is reserved: the prefix '' @
         ReservedPrefix @ '' belongs to principals the operator renders itself''))
      else if inPassword inp = ''''
      then Some (refused ReasonPasswordEmpty ''the password is empty'')
      else check_acls rt (inACLs inp))"

subsection \<open>Collisions, canonical ACLs and hashes\<close>

text \<open>
  The loop of \<open>resolveCollisions\<close> over the sorted candidates, with the map of holders and the
  map of verdicts it fills; it returns the winners in the order of the loop.
\<close>

fun resolve_loop :: "runtime \<Rightarrow> input list \<Rightarrow> strmap \<Rightarrow> (string, verdict) fmap
    \<Rightarrow> input list \<times> (string, verdict) fmap" where
  "resolve_loop rt [] holders verdicts = ([], verdicts)"
| "resolve_loop rt (inp # inps) holders verdicts =
     (case fmlookup holders (inUsername inp) of
        Some holder \<Rightarrow>
          resolve_loop rt inps holders
            (fmupd (inName inp) (refused ReasonUsernameConflict
               (''username '' @ go_quote (rtIsPrint rt) (inUsername inp) @
                '' is held by the older MosquittoUser '' @ holder)) verdicts)
      | None \<Rightarrow>
          (let (winners, verdicts') =
             resolve_loop rt inps (fmupd (inUsername inp) (inName inp) holders) verdicts
           in (inp # winners, verdicts')))"

definition resolveCollisions :: "runtime \<Rightarrow> input list \<Rightarrow> (string, verdict) fmap
    \<Rightarrow> input list \<times> (string, verdict) fmap" where
  "resolveCollisions rt candidates verdicts =
     resolve_loop rt (sort_key (\<lambda>i. (inCreated i, inName i)) candidates) fmempty verdicts"

fun dedup_acls :: "mosquitto_acl list \<Rightarrow> mosquitto_acl list \<Rightarrow> mosquitto_acl list" where
  "dedup_acls seen [] = []"
| "dedup_acls seen (a # as) =
     (if a \<in> set seen then dedup_acls seen as else a # dedup_acls (a # seen) as)"

definition canonicalACLs :: "mosquitto_acl list \<Rightarrow> mosquitto_acl list" where
  "canonicalACLs acls = sort (dedup_acls [] acls)"

definition keepOrHash :: "runtime \<Rightarrow> string \<Rightarrow> string \<Rightarrow> string \<Rightarrow> (string \<times> string) result" where
  "keepOrHash rt previous password random =
     (if previous \<noteq> '''' \<and> VerifyPassword rt previous password then Inr (previous, random)
      else HashPassword rt password random)"

subsection \<open>Render\<close>

fun refuse_loop :: "runtime \<Rightarrow> input list \<Rightarrow> (string, verdict) fmap
    \<Rightarrow> input list \<times> (string, verdict) fmap" where
  "refuse_loop rt [] verdicts = ([], verdicts)"
| "refuse_loop rt (inp # inps) verdicts =
     (case check rt inp of
        Some v \<Rightarrow> refuse_loop rt inps (fmupd (inName inp) v verdicts)
      | None \<Rightarrow> (let (candidates, verdicts') = refuse_loop rt inps verdicts
                 in (inp # candidates, verdicts')))"

definition accepted_verdict :: "runtime \<Rightarrow> input \<Rightarrow> verdict" where
  "accepted_verdict rt inp = \<lparr>vAccepted = True, vReason = ReasonUserAccepted,
     vMessage = ''rendered into the broker's credentials as '' @
       go_quote (rtIsPrint rt) (inUsername inp)\<rparr>"

fun accept_loop :: "runtime \<Rightarrow> strmap \<Rightarrow> input list \<Rightarrow> (string, verdict) fmap \<Rightarrow> string
    \<Rightarrow> (accepted list \<times> (string, verdict) fmap \<times> string) result" where
  "accept_loop rt known [] verdicts random = Inr ([], verdicts, random)"
| "accept_loop rt known (inp # inps) verdicts random =
     bindR (wrap_err (''hashing the password of MosquittoUser '' @ inName inp)
              (keepOrHash rt (go_get known (inUsername inp)) (inPassword inp) random))
       (\<lambda>(hash, random').
     bindR (accept_loop rt known inps (fmupd (inName inp) (accepted_verdict rt inp) verdicts) random')
       (\<lambda>(rest, verdicts', random'').
     Inr (\<lparr>acUsername = inUsername inp, acHash = hash, acACLs = canonicalACLs (inACLs inp)\<rparr> # rest,
          verdicts', random'')))"

fun reserve_loop :: "runtime \<Rightarrow> strmap \<Rightarrow> principal list \<Rightarrow> string
    \<Rightarrow> (accepted list \<times> string) result" where
  "reserve_loop rt known [] random = Inr ([], random)"
| "reserve_loop rt known (p # ps) random =
     (if \<not> has_prefix ReservedPrefix (prUsername p) \<or> prPassword p = ''''
      then Inl (''the operator's principal '' @ go_quote (rtIsPrint rt) (prUsername p) @
                '' needs the prefix '' @ ReservedPrefix @ '' and a password'')
      else
     bindR (wrap_err (''hashing the password of '' @ prUsername p)
              (keepOrHash rt (go_get known (prUsername p)) (prPassword p) random))
       (\<lambda>(hash, random').
     bindR (reserve_loop rt known ps random') (\<lambda>(rest, random'').
     Inr (\<lparr>acUsername = prUsername p, acHash = hash, acACLs = canonicalACLs (prACLs p)\<rparr> # rest,
          random''))))"

definition RenderUsers :: "runtime \<Rightarrow> payload \<Rightarrow> input list \<Rightarrow> principal list \<Rightarrow> strmap \<Rightarrow> string
    \<Rightarrow> (render_result \<times> string) result" where
  "RenderUsers rt P inputs reserved previous random =
     (let (candidates, verdicts) = refuse_loop rt inputs fmempty;
          (winners, verdicts) = resolveCollisions rt candidates verdicts;
          known = pHashes P previous
      in bindR (accept_loop rt known winners verdicts random) (\<lambda>(users, verdicts, random).
         bindR (reserve_loop rt known reserved random) (\<lambda>(principals, random).
         Inr (\<lparr>resData = pRender P (sort_key acUsername (users @ principals)),
               resVerdicts = verdicts, resAccepted = length users\<rparr>, random))))"

subsection \<open>What the checks admit\<close>

definition valid_access :: "string \<Rightarrow> bool" where
  "valid_access a \<longleftrightarrow> a = AccessRead \<or> a = AccessWrite \<or> a = AccessReadWrite"

definition valid_acl :: "mosquitto_acl \<Rightarrow> bool" where
  "valid_acl a \<longleftrightarrow> topicProblem (aclTopic a) = '''' \<and> valid_access (aclAccess a)"

definition user_admitted :: "input \<Rightarrow> bool" where
  "user_admitted i \<longleftrightarrow> usernamePattern (inUsername i) \<and>
     \<not> has_prefix ReservedPrefix (map lower_char (inUsername i)) \<and>
     inPassword i \<noteq> '''' \<and> list_all valid_acl (inACLs i)"

lemma check_acls_None: "check_acls rt acls = None \<longleftrightarrow> list_all valid_acl acls"
  by (induction acls) (auto simp: Let_def valid_acl_def valid_access_def)

lemma check_None: "check rt i = None \<longleftrightarrow> user_admitted i"
  by (simp add: check_def user_admitted_def check_acls_None)

lemma check_acls_not_accepted: "check_acls rt acls = Some v \<Longrightarrow> \<not> vAccepted v"
  by (induction acls) (auto simp: Let_def refused_def split: if_splits)

lemma check_not_accepted: "check rt i = Some v \<Longrightarrow> \<not> vAccepted v"
  by (auto simp: check_def refused_def dest: check_acls_not_accepted split: if_splits)

lemma levelProblem_none:
  "levelProblem ls = '''' \<longleftrightarrow>
     list_all (\<lambda>l. CHR ''+'' \<in> set l \<longrightarrow> l = ''+'') ls \<and>
     list_all (\<lambda>l. CHR ''#'' \<notin> set l) (butlast ls) \<and>
     (ls \<noteq> [] \<longrightarrow> CHR ''#'' \<in> set (last ls) \<longrightarrow> last ls = ''#'')"
proof (induction ls)
  case (Cons l ls)
  then show ?case by (cases ls) auto
qed simp

text \<open>C29: a topic filter is admitted exactly when it is a well-formed MQTT filter the operator may
  grant: not empty, not under the dollar sign, valid UTF-8 without control characters and without
  white space around it, a plus sign only as a whole level, and a hash sign only as the whole last
  level.\<close>

theorem topicProblem_none_iff:
  "topicProblem t = '''' \<longleftrightarrow>
     t \<noteq> '''' \<and> hd t \<noteq> CHR ''$'' \<and> valid_utf8 t \<and>
     list_all (\<lambda>p. \<not> isControl (fst p)) (runes t) \<and> trim_space t = t \<and>
     (let levels = go_split (CHR ''/'') t in
        list_all (\<lambda>l. CHR ''+'' \<in> set l \<longrightarrow> l = ''+'') levels \<and>
        list_all (\<lambda>l. CHR ''#'' \<notin> set l) (butlast levels) \<and>
        (CHR ''#'' \<in> set (last levels) \<longrightarrow> last levels = ''#''))"
proof -
  have "has_prefix ''$'' t \<longleftrightarrow> hd t = CHR ''$''" if "t \<noteq> ''''"
    using that by (cases t) (auto simp: has_prefix_def)
  moreover have "list_ex (\<lambda>p. isControl (fst p)) (runes t) \<longleftrightarrow>
      \<not> list_all (\<lambda>p. \<not> isControl (fst p)) (runes t)"
    by (auto simp: list_ex_iff list_all_iff)
  ultimately show ?thesis
    by (auto simp: topicProblem_def levelProblem_none Let_def)
qed

theorem topicProblem_none_iff_witness:
  "topicProblem ''sensors/+/temp/#'' = '''' \<and> topicProblem ''a/#/b'' \<noteq> '''' \<and>
   topicProblem ''a/b#'' \<noteq> '''' \<and> topicProblem ''$SYS/#'' \<noteq> ''''"
  unfolding topicProblem_none_iff by (simp add: ascii_eval isControl_def go_split_def)

text \<open>What rendering needs of an admitted name and topic: they cannot break a line.\<close>

lemma alnum_safe: "alnum c \<Longrightarrow> c \<noteq> CHR 0x0A \<and> c \<noteq> CHR '':''"
  by (auto simp: alnum_def)

lemma usernamePattern_chars:
  "usernamePattern u \<Longrightarrow> c \<in> set u \<Longrightarrow> alnum c \<or> c \<in> set ''._@-''"
  by (cases u) (auto simp: usernamePattern_def list_all_iff)

lemma usernamePattern_safe:
  assumes "usernamePattern u"
  shows "u \<noteq> '''' \<and> CHR 0x0A \<notin> set u \<and> CHR '':'' \<notin> set u"
proof -
  have "u \<noteq> ''''" using assms by (auto simp: usernamePattern_def)
  moreover have "c \<noteq> CHR 0x0A \<and> c \<noteq> CHR '':''" if "c \<in> set u" for c
    using usernamePattern_chars [OF assms that] alnum_safe [of c] by auto
  ultimately show ?thesis by blast
qed

lemma topic_line_safe: "topicProblem t = '''' \<Longrightarrow> CHR 0x0A \<notin> set t"
proof
  assume t: "topicProblem t = ''''" and nl: "CHR 0x0A \<in> set t"
  have "is_ascii (CHR 0x0A)" by (simp add: is_ascii_def)
  from ascii_rune [OF nl this] obtain q where "q \<in> set (runes t)" "fst q = 10" by auto
  moreover have "list_all (\<lambda>p. \<not> isControl (fst p)) (runes t)"
    using t by (auto simp: topicProblem_def list_ex_iff list_all_iff split: if_splits)
  ultimately show False by (auto simp: list_all_iff isControl_def)
qed

text \<open>The canonical form of an ACL is the sorted list of its distinct entries, so reordering or
  repeating entries in the resource renders the same bytes.\<close>

lemma canonicalACLs_eq: "canonicalACLs acls = sorted_list_of_set (set acls)"
proof -
  have "set (dedup_acls seen acls) = set acls - set seen \<and> distinct (dedup_acls seen acls)"
    for seen acls
    by (induction acls arbitrary: seen) auto
  from this [of "[]" acls] have "set (canonicalACLs acls) = set acls" "distinct (canonicalACLs acls)"
    by (simp_all add: canonicalACLs_def)
  then show ?thesis
    by (metis canonicalACLs_def sorted_list_of_set.idem_if_sorted_distinct sorted_sort)
qed

lemma set_canonicalACLs [simp]: "set (canonicalACLs acls) = set acls"
  by (simp add: canonicalACLs_eq)

subsection \<open>The loops\<close>

lemma refuse_loop_candidates: "fst (refuse_loop rt inps vs) = filter (\<lambda>i. check rt i = None) inps"
  by (induction inps arbitrary: vs) (auto split: option.split simp: split_beta)

lemma refuse_loop_frame:
  "(\<And>i. i \<in> set inps \<Longrightarrow> check rt i \<noteq> None \<Longrightarrow> inName i \<noteq> n) \<Longrightarrow>
     fmlookup (snd (refuse_loop rt inps vs)) n = fmlookup vs n"
proof (induction inps arbitrary: vs)
  case (Cons i inps)
  have "fmlookup (snd (refuse_loop rt inps vs')) n = fmlookup vs' n" for vs'
    using Cons.prems by (intro Cons.IH) simp_all
  moreover have "inName i \<noteq> n" if "check rt i \<noteq> None"
    using Cons.prems [of i] that by simp
  ultimately show ?case by (auto split: option.split simp: split_beta)
qed simp

lemma refuse_loop_verdict:
  assumes "distinct (map inName inps)" and "i \<in> set inps" and "check rt i = Some v"
  shows "fmlookup (snd (refuse_loop rt inps vs)) (inName i) = Some v"
  using assms
proof (induction inps arbitrary: vs)
  case (Cons j inps)
  show ?case
  proof (cases "i = j")
    case True
    have "inName k \<noteq> inName i" if "k \<in> set inps" for k
      using Cons.prems(1) True that by (metis distinct.simps(2) image_eqI list.set_map list.simps(9))
    then have "fmlookup (snd (refuse_loop rt inps (fmupd (inName i) v vs))) (inName i) = Some v"
      by (simp add: refuse_loop_frame)
    then show ?thesis using True Cons.prems(3) by simp
  next
    case False
    then have "fmlookup (snd (refuse_loop rt inps vs')) (inName i) = Some v" for vs'
      using Cons.prems by (intro Cons.IH) simp_all
    then show ?thesis by (simp split: option.split add: split_beta)
  qed
qed simp

lemma refuse_loop_permutation:
  assumes "mset inps' = mset inps" and "distinct (map inName inps)"
  shows "snd (refuse_loop rt inps' vs) = snd (refuse_loop rt inps vs)"
proof (rule fmap_ext)
  fix n
  have d': "distinct (map inName inps')"
    using assms by (metis mset_eq_imp_distinct_iff mset_map)
  have s: "set inps' = set inps" using assms(1) by (metis set_mset_mset)
  show "fmlookup (snd (refuse_loop rt inps' vs)) n = fmlookup (snd (refuse_loop rt inps vs)) n"
  proof (cases "\<exists>i v. i \<in> set inps \<and> check rt i = Some v \<and> inName i = n")
    case True
    then show ?thesis using refuse_loop_verdict assms(2) d' s by metis
  next
    case False
    then show ?thesis using s by (subst (1 2) refuse_loop_frame) auto
  qed
qed

text \<open>The verdict of a candidate that lost its username.\<close>

definition conflict_verdict :: "runtime \<Rightarrow> input \<Rightarrow> string \<Rightarrow> verdict" where
  "conflict_verdict rt i holder = refused ReasonUsernameConflict
     (''username '' @ go_quote (rtIsPrint rt) (inUsername i) @
      '' is held by the older MosquittoUser '' @ holder)"

text \<open>\<open>first_with u xs\<close> is the first candidate of the loop with username \<open>u\<close>.\<close>

definition first_with :: "string \<Rightarrow> input list \<Rightarrow> input option" where
  "first_with u xs = find (\<lambda>j. inUsername j = u) xs"

lemma resolve_loop_frame:
  "n \<notin> inName ` set xs \<Longrightarrow> fmlookup (snd (resolve_loop rt xs holders vs)) n = fmlookup vs n"
proof (induction xs arbitrary: holders vs)
  case (Cons x xs)
  then show ?case by (auto split: option.split prod.split simp: split_beta)
qed simp

lemma resolve_loop_winners:
  "set (fst (resolve_loop rt xs holders vs)) \<subseteq> set xs \<and>
   distinct (map inUsername (fst (resolve_loop rt xs holders vs))) \<and>
   (\<forall>w \<in> set (fst (resolve_loop rt xs holders vs)). fmlookup holders (inUsername w) = None)"
proof (induction xs arbitrary: holders vs)
  case (Cons x xs)
  show ?case
  proof (cases "fmlookup holders (inUsername x)")
    case None
    then show ?thesis
      using Cons.IH [of "fmupd (inUsername x) (inName x) holders" vs]
      by (auto simp: split_beta split: if_splits)
  next
    case (Some h)
    then show ?thesis using Cons.IH by (auto simp: conflict_verdict_def)
  qed
qed simp

lemma resolve_loop_held:
  assumes "distinct (map inName xs)" and "i \<in> set xs" and "fmlookup holders (inUsername i) = Some h"
  shows "i \<notin> set (fst (resolve_loop rt xs holders vs)) \<and>
    fmlookup (snd (resolve_loop rt xs holders vs)) (inName i) = Some (conflict_verdict rt i h)"
  using assms
proof (induction xs arbitrary: holders vs)
  case (Cons x xs)
  show ?case
  proof (cases "x = i")
    case True
    have "inName i \<notin> inName ` set xs" using Cons.prems(1) True by auto
    moreover have "i \<notin> set (fst (resolve_loop rt xs holders vs'))" for vs'
      using resolve_loop_winners [of rt xs holders vs'] Cons.prems(3) by auto
    ultimately show ?thesis
      using True Cons.prems(3) by (simp add: resolve_loop_frame conflict_verdict_def)
  next
    case False
    then have i: "i \<in> set xs" "distinct (map inName xs)" using Cons.prems by auto
    show ?thesis
    proof (cases "fmlookup holders (inUsername x)")
      case None
      then have "inUsername x \<noteq> inUsername i" using Cons.prems(3) by auto
      then show ?thesis
        using None False Cons.IH [OF i(2,1), of "fmupd (inUsername x) (inName x) holders" vs]
          Cons.prems(3) by (simp add: split_beta)
    next
      case (Some h')
      then show ?thesis using Cons.IH [OF i(2,1) Cons.prems(3)] by simp
    qed
  qed
qed simp

lemma resolve_loop_free:
  assumes "distinct (map inName xs)" and "i \<in> set xs" and "fmlookup holders (inUsername i) = None"
  shows "(if first_with (inUsername i) xs = Some i
     then i \<in> set (fst (resolve_loop rt xs holders vs))
     else (\<exists>j. first_with (inUsername i) xs = Some j \<and>
       i \<notin> set (fst (resolve_loop rt xs holders vs)) \<and>
       fmlookup (snd (resolve_loop rt xs holders vs)) (inName i)
         = Some (conflict_verdict rt i (inName j))))"
  using assms
proof (induction xs arbitrary: holders vs)
  case (Cons x xs)
  show ?case
  proof (cases "x = i")
    case True
    then show ?thesis using Cons.prems(3) by (simp add: first_with_def split_beta)
  next
    case False
    then have i: "i \<in> set xs" "distinct (map inName xs)" using Cons.prems by auto
    show ?thesis
    proof (cases "inUsername x = inUsername i")
      case same: True
      then show ?thesis
        using False Cons.prems(3)
          resolve_loop_held [OF i(2,1), of "fmupd (inUsername x) (inName x) holders" "inName x" rt vs]
        by (simp add: first_with_def split_beta)
    next
      case other: False
      show ?thesis
      proof (cases "fmlookup holders (inUsername x)")
        case None
        then show ?thesis
          using other False Cons.prems(3)
            Cons.IH [OF i(2,1), of "fmupd (inUsername x) (inName x) holders" vs]
          by (auto simp: first_with_def split_beta)
      next
        case (Some h')
        then show ?thesis
          using other Cons.IH [OF i(2,1) Cons.prems(3)] by (auto simp: first_with_def)
      qed
    qed
  qed
qed simp

text \<open>
  A rendered hash is either the previous one, which verifies, or a fresh one. Both verify.
\<close>

definition good_hash :: "runtime \<Rightarrow> strmap \<Rightarrow> string \<Rightarrow> string \<Rightarrow> string \<Rightarrow> bool" where
  "good_hash rt known u pw h \<longleftrightarrow>
     (h = go_get known u \<and> h \<noteq> '''' \<and> VerifyPassword rt h pw) \<or>
     (\<exists>r r'. HashPassword rt pw r = Inr (h, r'))"

lemma keepOrHash_good:
  "keepOrHash rt (go_get known u) pw rnd = Inr (h, rnd') \<Longrightarrow> good_hash rt known u pw h"
  by (auto simp: keepOrHash_def good_hash_def split: if_splits)

lemma good_hash_verifies:
  "pbkdf2_ok rt \<Longrightarrow> good_hash rt known u pw h \<Longrightarrow> h \<noteq> '''' \<and> VerifyPassword rt h pw"
  using HashPassword_parse HashPassword_line_safe
  by (fastforce simp: good_hash_def VerifyPassword_def)

lemma keepOrHash_keeps:
  "h \<noteq> '''' \<Longrightarrow> VerifyPassword rt h pw \<Longrightarrow> keepOrHash rt h pw rnd = Inr (h, rnd)"
  by (simp add: keepOrHash_def)

definition user_entry :: "runtime \<Rightarrow> strmap \<Rightarrow> input \<Rightarrow> accepted \<Rightarrow> bool" where
  "user_entry rt known w a \<longleftrightarrow> acUsername a = inUsername w \<and>
     acACLs a = canonicalACLs (inACLs w) \<and> good_hash rt known (inUsername w) (inPassword w) (acHash a)"

definition principal_entry :: "runtime \<Rightarrow> strmap \<Rightarrow> principal \<Rightarrow> accepted \<Rightarrow> bool" where
  "principal_entry rt known p a \<longleftrightarrow> has_prefix ReservedPrefix (prUsername p) \<and> prPassword p \<noteq> '''' \<and>
     acUsername a = prUsername p \<and> acACLs a = canonicalACLs (prACLs p) \<and>
     good_hash rt known (prUsername p) (prPassword p) (acHash a)"

lemma accept_loop_entries:
  "accept_loop rt known ws vs rnd = Inr (us, vs', rnd') \<Longrightarrow> list_all2 (user_entry rt known) ws us"
  by (induction ws arbitrary: vs rnd us vs' rnd')
    (auto simp: user_entry_def dest: keepOrHash_good)

lemma reserve_loop_entries:
  "reserve_loop rt known ps rnd = Inr (us, rnd') \<Longrightarrow> list_all2 (principal_entry rt known) ps us"
  by (induction ps arbitrary: rnd us rnd')
    (auto simp: principal_entry_def dest: keepOrHash_good split: if_splits)

lemma accept_loop_verdicts:
  assumes "accept_loop rt known ws vs rnd = Inr (us, vs', rnd')" and "distinct (map inName ws)"
  shows "(\<forall>w \<in> set ws. fmlookup vs' (inName w) = Some (accepted_verdict rt w)) \<and>
    (\<forall>n. n \<notin> inName ` set ws \<longrightarrow> fmlookup vs' n = fmlookup vs n)"
  using assms
proof (induction ws arbitrary: vs rnd us)
  case (Cons w ws)
  then obtain rnd1 us1 where rec:
    "accept_loop rt known ws (fmupd (inName w) (accepted_verdict rt w) vs) rnd1 = Inr (us1, vs', rnd')"
    by auto
  from Cons.IH [OF this] Cons.prems(2)
  have ih: "\<forall>x \<in> set ws. fmlookup vs' (inName x) = Some (accepted_verdict rt x)"
    "\<forall>n. n \<notin> inName ` set ws \<longrightarrow>
       fmlookup vs' n = fmlookup (fmupd (inName w) (accepted_verdict rt w) vs) n"
    by auto
  have "inName w \<notin> inName ` set ws" using Cons.prems(2) by simp
  then have "fmlookup vs' (inName w) = Some (accepted_verdict rt w)"
    using ih(2) by simp
  then show ?case using ih by auto
qed simp

text \<open>The loops draw no randomness when every hash they look up is kept.\<close>

lemma accept_loop_keeps:
  assumes "list_all2 (user_entry rt known) ws us" and "pbkdf2_ok rt"
    and "\<And>a. a \<in> set us \<Longrightarrow> go_get known' (acUsername a) = acHash a"
    and "accept_loop rt known ws vs rnd0 = Inr (us, vs', rnd1)"
  shows "accept_loop rt known' ws vs rnd = Inr (us, vs', rnd)"
  using assms
proof (induction ws us arbitrary: vs rnd0 rule: list_all2_induct)
  case (Cons w ws a us)
  from Cons.hyps(1) have ok: "acHash a \<noteq> ''''" "VerifyPassword rt (acHash a) (inPassword w)"
    unfolding user_entry_def by (blast dest: good_hash_verifies [OF Cons.prems(1)])+
  have a: "go_get known' (inUsername w) = acHash a"
    using Cons.prems(2) [of a] Cons.hyps(1) by (simp add: user_entry_def)
  from Cons.prems(3) obtain h rnd2 where
    rec: "accept_loop rt known ws (fmupd (inName w) (accepted_verdict rt w) vs) rnd2 = Inr (us, vs', rnd1)"
    and aeq: "a = \<lparr>acUsername = inUsername w, acHash = h, acACLs = canonicalACLs (inACLs w)\<rparr>"
    by auto
  have "accept_loop rt known' ws (fmupd (inName w) (accepted_verdict rt w) vs) rnd = Inr (us, vs', rnd)"
    using Cons.prems(2) by (intro Cons.IH [OF Cons.prems(1) _ rec]) simp
  then show ?case using a ok aeq by (simp add: keepOrHash_keeps)
qed simp

lemma reserve_loop_keeps:
  assumes "list_all2 (principal_entry rt known) ps us" and "pbkdf2_ok rt"
    and "\<And>a. a \<in> set us \<Longrightarrow> go_get known' (acUsername a) = acHash a"
    and "reserve_loop rt known ps rnd0 = Inr (us, rnd1)"
  shows "reserve_loop rt known' ps rnd = Inr (us, rnd)"
  using assms
proof (induction ps us arbitrary: rnd0 rule: list_all2_induct)
  case (Cons p ps a us)
  from Cons.hyps(1)
  have ok: "acHash a \<noteq> ''''" "VerifyPassword rt (acHash a) (prPassword p)"
    "has_prefix ReservedPrefix (prUsername p)" "prPassword p \<noteq> ''''"
    unfolding principal_entry_def by (blast dest: good_hash_verifies [OF Cons.prems(1)])+
  have a: "go_get known' (prUsername p) = acHash a"
    using Cons.prems(2) [of a] Cons.hyps(1) by (simp add: principal_entry_def)
  from Cons.prems(3) ok obtain h rnd2 where
    rec: "reserve_loop rt known ps rnd2 = Inr (us, rnd1)"
    and aeq: "a = \<lparr>acUsername = prUsername p, acHash = h, acACLs = canonicalACLs (prACLs p)\<rparr>"
    by auto
  have "reserve_loop rt known' ps rnd = Inr (us, rnd)"
    using Cons.prems(2) by (intro Cons.IH [OF Cons.prems(1) _ rec]) simp
  then show ?case using a ok aeq by (simp add: keepOrHash_keeps)
qed simp

subsection \<open>Render\<close>

definition candidates_of :: "runtime \<Rightarrow> input list \<Rightarrow> input list" where
  "candidates_of rt inputs = sort_key (\<lambda>i. (inCreated i, inName i))
     (filter (\<lambda>i. check rt i = None) inputs)"

definition winners_of :: "runtime \<Rightarrow> input list \<Rightarrow> input list" where
  "winners_of rt inputs = fst (resolve_loop rt (candidates_of rt inputs) fmempty
     (snd (refuse_loop rt inputs fmempty)))"

definition losers_verdicts :: "runtime \<Rightarrow> input list \<Rightarrow> (string, verdict) fmap" where
  "losers_verdicts rt inputs = snd (resolve_loop rt (candidates_of rt inputs) fmempty
     (snd (refuse_loop rt inputs fmempty)))"

lemma RenderUsers_eq:
  "RenderUsers rt P inputs reserved previous random =
     bindR (accept_loop rt (pHashes P previous) (winners_of rt inputs) (losers_verdicts rt inputs) random)
       (\<lambda>(users, verdicts, random).
     bindR (reserve_loop rt (pHashes P previous) reserved random) (\<lambda>(principals, random).
     Inr (\<lparr>resData = pRender P (sort_key acUsername (users @ principals)),
            resVerdicts = verdicts, resAccepted = length users\<rparr>, random)))"
  by (simp add: RenderUsers_def Let_def split_beta resolveCollisions_def candidates_of_def
      winners_of_def losers_verdicts_def refuse_loop_candidates)

lemma RenderUsers_Inr:
  assumes "RenderUsers rt P inputs reserved previous random = Inr (res, random')"
  obtains users principals vs r where
    "accept_loop rt (pHashes P previous) (winners_of rt inputs) (losers_verdicts rt inputs) random
       = Inr (users, vs, r)"
    "reserve_loop rt (pHashes P previous) reserved r = Inr (principals, random')"
    "res = \<lparr>resData = pRender P (sort_key acUsername (users @ principals)),
       resVerdicts = vs, resAccepted = length users\<rparr>"
  using assms unfolding RenderUsers_eq by (auto simp: split_beta)

lemma set_candidates_of: "set (candidates_of rt inputs) = {i \<in> set inputs. user_admitted i}"
  by (auto simp: candidates_of_def check_None)

lemma winners_of_facts:
  "set (winners_of rt inputs) \<subseteq> {i \<in> set inputs. user_admitted i}"
  "distinct (map inUsername (winners_of rt inputs))"
  using resolve_loop_winners [of rt "candidates_of rt inputs" fmempty "snd (refuse_loop rt inputs fmempty)"]
  unfolding set_candidates_of winners_of_def by auto

text \<open>C22: the order in which the users arrive does not matter. A permutation of the same users, whose
  object names are distinct, renders the same data, the same verdicts and the same count, from the
  same random bytes.\<close>

theorem RenderUsers_order_independent:
  assumes "mset inputs' = mset inputs" and "distinct (map inName inputs)"
  shows "RenderUsers rt P inputs' reserved previous random = RenderUsers rt P inputs reserved previous random"
proof -
  have m: "mset (filter (\<lambda>i. check rt i = None) inputs') = mset (filter (\<lambda>i. check rt i = None) inputs)"
    using assms(1) by simp
  have "inj_on inName (set (filter (\<lambda>i. check rt i = None) inputs))"
    using assms(2) by (auto simp: distinct_map intro: inj_on_subset)
  then have "distinct (map (\<lambda>i. (inCreated i, inName i)) (filter (\<lambda>i. check rt i = None) inputs))"
    using assms(2) by (auto simp: distinct_map inj_on_def)
  then have "candidates_of rt inputs' = candidates_of rt inputs"
    unfolding candidates_of_def by (intro sort_key_permutation m)
  moreover have "snd (refuse_loop rt inputs' fmempty) = snd (refuse_loop rt inputs fmempty)"
    by (rule refuse_loop_permutation [OF assms])
  ultimately show ?thesis by (simp add: RenderUsers_eq winners_of_def losers_verdicts_def)
qed

text \<open>Three users to evaluate the model with: two of them name the same username.\<close>

definition sample_ann :: input where
  "sample_ann = \<lparr>inName = ''a'', inCreated = 1, inUsername = ''ann'', inPassword = ''x'',
     inACLs = [\<lparr>aclTopic = ''t/#'', aclAccess = AccessRead\<rparr>]\<rparr>"

definition sample_bob :: input where
  "sample_bob = \<lparr>inName = ''b'', inCreated = 2, inUsername = ''bob'', inPassword = ''y'', inACLs = []\<rparr>"

definition sample_late :: input where
  "sample_late = \<lparr>inName = ''c'', inCreated = 3, inUsername = ''ann'', inPassword = ''z'', inACLs = []\<rparr>"

lemmas sample_inputs = sample_ann_def sample_bob_def sample_late_def

theorem RenderUsers_order_independent_witness:
  "\<forall>P random. RenderUsers sample_runtime P [sample_late, sample_bob, sample_ann] [] fmempty random
     = RenderUsers sample_runtime P [sample_ann, sample_bob, sample_late] [] fmempty random"
  by (intro allI, rule RenderUsers_order_independent) (simp_all add: sample_inputs)

text \<open>The age order of users, and the facts of a rendered pass for one admitted user.\<close>

definition older :: "input \<Rightarrow> input \<Rightarrow> bool" where
  "older i j \<longleftrightarrow> inCreated i < inCreated j \<or> (inCreated i = inCreated j \<and> inName i < inName j)"

definition same_username :: "input list \<Rightarrow> input \<Rightarrow> input set" where
  "same_username inputs i = {j \<in> set inputs. user_admitted j \<and> inUsername j = inUsername i}"

lemma find_sorted_least:
  assumes "sorted (map f xs)" and "find P xs = Some j"
  shows "j \<in> set xs \<and> P j \<and> (\<forall>k \<in> set xs. P k \<longrightarrow> f j \<le> f k)"
  using assms by (induction xs) (auto split: if_splits)

lemma first_with_candidates:
  assumes "distinct (map inName inputs)" and "i \<in> set inputs" "user_admitted i"
    and "first_with (inUsername i) (candidates_of rt inputs) = Some j"
  shows "j \<in> same_username inputs i \<and> (\<forall>k \<in> same_username inputs i. k = j \<or> older j k)"
proof -
  have "sorted (map (\<lambda>i. (inCreated i, inName i)) (candidates_of rt inputs))"
    by (simp add: candidates_of_def)
  note least = find_sorted_least [OF this assms(4) [unfolded first_with_def]]
  have "k = j \<or> older j k" if k: "k \<in> same_username inputs i" for k
  proof (cases "inName k = inName j")
    case True
    then show ?thesis
      using assms(1) k least by (auto simp: distinct_map same_username_def set_candidates_of dest: inj_onD)
  next
    case False
    then show ?thesis
      using least k by (force simp: same_username_def set_candidates_of older_def less_eq_prod_def)
  qed
  then show ?thesis using least by (auto simp: same_username_def set_candidates_of)
qed

lemma distinct_winner_names:
  "distinct (map inName inputs) \<Longrightarrow> distinct (map inName (winners_of rt inputs))"
proof -
  assume d: "distinct (map inName inputs)"
  have "distinct (winners_of rt inputs)"
    using winners_of_facts(2) [of rt inputs] by (simp add: distinct_map)
  moreover have "inj_on inName (set (winners_of rt inputs))"
    using d winners_of_facts(1) [of rt inputs] by (auto simp: distinct_map intro: inj_on_subset)
  ultimately show ?thesis by (simp add: distinct_map)
qed

lemma distinct_candidate_names:
  assumes "distinct (map inName inputs)"
  shows "distinct (map inName (candidates_of rt inputs))"
proof -
  have "inj_on inName (set (candidates_of rt inputs))"
    using assms by (auto simp: distinct_map set_candidates_of intro: inj_on_subset)
  then show ?thesis using assms by (auto simp: distinct_map candidates_of_def)
qed


lemma render_verdicts:
  assumes "RenderUsers rt P inputs reserved previous random = Inr (res, random')"
    and "distinct (map inName inputs)" and "i \<in> set inputs"
  shows "case check rt i of
      Some v \<Rightarrow> fmlookup (resVerdicts res) (inName i) = Some v
    | None \<Rightarrow> (\<exists>j \<in> same_username inputs i.
        (\<forall>k \<in> same_username inputs i. k = j \<or> older j k) \<and>
        fmlookup (resVerdicts res) (inName i) =
          Some (if j = i then accepted_verdict rt i else conflict_verdict rt i (inName j)))"
proof -
  obtain us vs r where
    acc: "accept_loop rt (pHashes P previous) (winners_of rt inputs) (losers_verdicts rt inputs) random
       = Inr (us, vs, r)" and vs: "resVerdicts res = vs"
    using assms(1) by (auto elim: RenderUsers_Inr)
  note av = accept_loop_verdicts [OF acc distinct_winner_names [OF assms(2)]]
  have inj: "x = i" if "x \<in> set inputs" "inName x = inName i" for x
    using assms(2,3) that by (auto simp: distinct_map dest: inj_onD)
  show ?thesis
  proof (cases "check rt i")
    case (Some v)
    then have na: "\<not> user_admitted i" using check_None [of rt i] by simp
    then have "inName i \<notin> inName ` set (winners_of rt inputs)"
      "inName i \<notin> inName ` set (candidates_of rt inputs)"
      using winners_of_facts(1) [of rt inputs] inj by (auto simp: set_candidates_of)
    then have "fmlookup vs (inName i) = Some v"
      using av refuse_loop_verdict [OF assms(2,3) Some] by (simp add: losers_verdicts_def resolve_loop_frame)
    then show ?thesis by (simp add: Some vs)
  next
    case None
    then have ua: "user_admitted i" by (simp add: check_None)
    then have ic: "i \<in> set (candidates_of rt inputs)" using assms(3) by (simp add: set_candidates_of)
    note free = resolve_loop_free [OF distinct_candidate_names [OF assms(2), of rt] ic,
        of fmempty rt "snd (refuse_loop rt inputs fmempty)", simplified,
        folded winners_of_def losers_verdicts_def]
    obtain j where j: "first_with (inUsername i) (candidates_of rt inputs) = Some j"
      using free by (auto split: if_splits)
    note least = first_with_candidates [OF assms(2,3) ua j]
    have "fmlookup vs (inName i) =
        Some (if j = i then accepted_verdict rt i else conflict_verdict rt i (inName j))"
    proof (cases "j = i")
      case True
      then show ?thesis using free j av by simp
    next
      case False
      then have "i \<notin> set (winners_of rt inputs)"
        "fmlookup (losers_verdicts rt inputs) (inName i) = Some (conflict_verdict rt i (inName j))"
        using free j by simp_all
      moreover have "inName i \<notin> inName ` set (winners_of rt inputs)"
        using calculation(1) winners_of_facts(1) [of rt inputs] inj by fastforce
      ultimately show ?thesis using av False by simp
    qed
    then show ?thesis using least by (auto simp: None vs)
  qed
qed

text \<open>C16: collisions are decided by age. In a pass over users with distinct object names, a user that
  passes the checks is accepted when it is the oldest of those with its username, and otherwise
  gets a conflict naming the object that is the oldest. A user that fails a check gets the verdict
  of the check.\<close>

theorem RenderUsers_verdicts:
  assumes "RenderUsers rt P inputs reserved previous random = Inr (res, random')"
    and "distinct (map inName inputs)" and "i \<in> set inputs"
  shows "case check rt i of
      Some v \<Rightarrow> fmlookup (resVerdicts res) (inName i) = Some v
    | None \<Rightarrow> (\<exists>j \<in> same_username inputs i.
        (\<forall>k \<in> same_username inputs i. k = j \<or> older j k) \<and>
        fmlookup (resVerdicts res) (inName i) =
          Some (if j = i then accepted_verdict rt i else conflict_verdict rt i (inName j)))"
  by (rule render_verdicts [OF assms])

subsection \<open>When rendering succeeds\<close>

text \<open>PBKDF2 derives a key for the one length the program asks for. Go documents that it fails only for lengths
  outside of 1 to \<open>(2^32 - 1)\<close> times the size of a digest; iterations, salt length and key length are the constants of \<open>hash.go\<close>.\<close>

definition pbkdf2_derives :: "runtime \<Rightarrow> bool" where
  "pbkdf2_derives rt \<longleftrightarrow> (\<forall>pw salt. length salt = saltLength \<longrightarrow> isInr (rtPbkdf2 rt pw salt (int HashIterations) keyLength))"

definition principals_served :: "principal list \<Rightarrow> bool" where
  "principals_served ps \<longleftrightarrow>
     list_all (\<lambda>p. has_prefix ReservedPrefix (prUsername p) \<and> prPassword p \<noteq> '''') ps"

lemma keepOrHash_total:
  assumes "pbkdf2_derives rt" and "64 + n \<le> length rnd"
  shows "\<exists>h rnd'. keepOrHash rt prev pw rnd = Inr (h, rnd') \<and> n \<le> length rnd'"
proof (cases "prev \<noteq> '''' \<and> VerifyPassword rt prev pw")
  case True
  then show ?thesis using assms(2) by (simp add: keepOrHash_def)
next
  case False
  have "length (take 64 rnd) = saltLength" using assms(2) by (simp add: saltLength_def)
  then have "isInr (rtPbkdf2 rt pw (take 64 rnd) (int HashIterations) keyLength)"
    using assms(1) unfolding pbkdf2_derives_def by blast
  then obtain k where "rtPbkdf2 rt pw (take 64 rnd) 1000 64 = Inr k"
    by (auto simp: isInr_iff HashIterations_def keyLength_def)
  then have "HashPassword rt pw rnd = Inr (''$7$'' @ go_itoa 1000 @ ''$'' @
      b64_encode (take 64 rnd) @ ''$'' @ b64_encode k, drop 64 rnd)"
    using assms(2) by (simp add: HashPassword_Inr)
  then show ?thesis using assms(2) False by (auto simp: keepOrHash_def)
qed

lemma accept_loop_total:
  assumes "pbkdf2_derives rt" and "64 * length ws + n \<le> length rnd"
  shows "\<exists>us vs' rnd'. accept_loop rt known ws vs rnd = Inr (us, vs', rnd') \<and> n \<le> length rnd'"
  using assms(2)
proof (induction ws arbitrary: vs rnd)
  case (Cons w ws)
  obtain h rnd1 where k: "keepOrHash rt (go_get known (inUsername w)) (inPassword w) rnd = Inr (h, rnd1)"
    and l: "64 * length ws + n \<le> length rnd1"
    using keepOrHash_total [OF assms(1), of "64 * length ws + n" rnd] Cons.prems
    by (metis add.assoc add.commute length_Cons mult_Suc_right)
  from Cons.IH [OF l] show ?case by (fastforce simp: k)
qed simp

lemma reserve_loop_total:
  assumes "pbkdf2_derives rt" and "principals_served ps" and "64 * length ps \<le> length rnd"
  shows "\<exists>us rnd'. reserve_loop rt known ps rnd = Inr (us, rnd')"
  using assms(2,3)
proof (induction ps arbitrary: rnd)
  case (Cons p ps)
  obtain h rnd1 where k: "keepOrHash rt (go_get known (prUsername p)) (prPassword p) rnd = Inr (h, rnd1)"
    and l: "64 * length ps \<le> length rnd1"
    using keepOrHash_total [OF assms(1), of "64 * length ps" rnd] Cons.prems(2)
    by (metis length_Cons mult_Suc_right)
  have "principals_served ps" using Cons.prems(1) by (simp add: principals_served_def)
  from Cons.IH [OF this l] show ?case
    using Cons.prems(1) by (auto simp: k principals_served_def)
qed simp

lemma render_total:
  assumes "pbkdf2_derives rt" and "principals_served reserved"
    and "64 * (length inputs + length reserved) \<le> length random"
  shows "isInr (RenderUsers rt P inputs reserved previous random)"
proof -
  have "distinct (winners_of rt inputs)"
    using winners_of_facts(2) [of rt inputs] by (simp add: distinct_map)
  then have "length (winners_of rt inputs) = card (set (winners_of rt inputs))"
    by (simp add: distinct_card)
  also have "\<dots> \<le> card (set inputs)"
    using winners_of_facts(1) [of rt inputs] by (intro card_mono) auto
  also have "\<dots> \<le> length inputs" by (rule card_length)
  finally have "64 * length (winners_of rt inputs) \<le> 64 * length inputs" by simp
  then have "64 * length (winners_of rt inputs) + 64 * length reserved \<le> length random"
    using assms(3) by (simp add: distrib_left)
  from accept_loop_total [OF assms(1) this] obtain us vs r where
    acc: "accept_loop rt (pHashes P previous) (winners_of rt inputs) (losers_verdicts rt inputs) random
       = Inr (us, vs, r)" and "64 * length reserved \<le> length r" by blast
  from reserve_loop_total [OF assms(1,2) this(2)] acc show ?thesis
    unfolding isInr_iff RenderUsers_eq by force
qed

text \<open>C21: no user can make a pass fail. Whatever the users' names, passwords and topics are, and whatever the
  files of the last pass hold, rendering returns a result, given a key derivation that does not fail for the
  program's own iteration count, salt length and key length (no condition on other lengths, or on the stored
  hashes), one salt of random bytes per principal and reserved principals of the operator's own kind.\<close>

theorem RenderUsers_succeeds:
  assumes "pbkdf2_derives rt" and "principals_served reserved"
    and "64 * (length inputs + length reserved) \<le> length random"
  shows "isInr (RenderUsers rt P inputs reserved previous random)"
  by (rule render_total [OF assms])

lemma sample_runtime_total: "pbkdf2_derives sample_runtime"
  by (simp add: pbkdf2_derives_def sample_runtime_def)

theorem RenderUsers_succeeds_witness:
  "\<forall>P. isInr (RenderUsers sample_runtime P [sample_ann, sample_bob, sample_late]
     [ExporterPrincipal ''pw''] fmempty (replicate 256 (CHR ''s'')))"
  by (intro allI, rule RenderUsers_succeeds [OF sample_runtime_total])
    (simp_all add: principals_served_def ExporterPrincipal_def ExporterUsername_def)

lemma sample_admitted: "user_admitted sample_ann" "user_admitted sample_bob" "user_admitted sample_late"
  by (simp_all add: user_admitted_def sample_inputs usernamePattern_def alnum_def lower_char_def
      has_prefix_def ReservedPrefix_def valid_acl_def valid_access_def topicProblem_def
      ascii_eval isControl_def go_split_def)

theorem RenderUsers_verdicts_witness:
  "\<forall>P. \<exists>res r. RenderUsers sample_runtime P [sample_late, sample_ann] []
       fmempty (replicate 128 (CHR ''s'')) = Inr (res, r) \<and>
     fmlookup (resVerdicts res) ''a'' = Some (accepted_verdict sample_runtime sample_ann) \<and>
     fmlookup (resVerdicts res) ''c'' = Some (conflict_verdict sample_runtime sample_late ''a'')"
proof
  fix P
  let ?ins = "[sample_late, sample_ann]"
  have "isInr (RenderUsers sample_runtime P ?ins [] fmempty (replicate 128 (CHR ''s'')))"
    by (rule render_total [OF sample_runtime_total]) (simp_all add: principals_served_def)
  then obtain res r where R: "RenderUsers sample_runtime P ?ins [] fmempty (replicate 128 (CHR ''s''))
      = Inr (res, r)" by (auto simp: isInr_iff)
  note adm = sample_admitted
  have same: "same_username ?ins sample_ann = {sample_ann, sample_late}"
    "same_username ?ins sample_late = {sample_ann, sample_late}"
    using adm by (auto simp: same_username_def sample_inputs)
  have d: "distinct (map inName ?ins)" by (simp add: sample_inputs)
  have old: "older sample_ann sample_late" "\<not> older sample_late sample_ann" "sample_ann \<noteq> sample_late"
    by (simp_all add: older_def sample_inputs)
  have "fmlookup (resVerdicts res) (inName sample_ann) = Some (accepted_verdict sample_runtime sample_ann)"
    using RenderUsers_verdicts [OF R d, of sample_ann] adm old
    by (auto simp: check_None [THEN iffD2] same)
  moreover have "fmlookup (resVerdicts res) (inName sample_late)
      = Some (conflict_verdict sample_runtime sample_late (inName sample_ann))"
    using RenderUsers_verdicts [OF R d, of sample_late] adm old
    by (auto simp: check_None [THEN iffD2] same)
  ultimately show "\<exists>res r. RenderUsers sample_runtime P ?ins [] fmempty (replicate 128 (CHR ''s''))
      = Inr (res, r) \<and>
     fmlookup (resVerdicts res) ''a'' = Some (accepted_verdict sample_runtime sample_ann) \<and>
     fmlookup (resVerdicts res) ''c'' = Some (conflict_verdict sample_runtime sample_late ''a'')"
    using R by (auto simp: sample_inputs)
qed

subsection \<open>What a pass renders\<close>

definition principals_ok :: "principal list \<Rightarrow> bool" where
  "principals_ok ps \<longleftrightarrow> distinct (map prUsername ps) \<and> list_all (\<lambda>p. usernamePattern (prUsername p)) ps"

text \<open>
  The entries of a successful pass: the accepted users and the reserved principals, with
  distinct usernames that match the pattern, each with a hash that is kept or fresh.
\<close>

lemma user_entry_names: "list_all2 (user_entry rt k) ws us \<Longrightarrow> map acUsername us = map inUsername ws"
  by (induction rule: list_all2_induct) (simp_all add: user_entry_def)

lemma principal_entry_names:
  "list_all2 (principal_entry rt k) ps us \<Longrightarrow> map acUsername us = map prUsername ps"
  by (induction rule: list_all2_induct) (simp_all add: principal_entry_def)

lemma lower_reserved: "has_prefix ReservedPrefix u \<Longrightarrow> has_prefix ReservedPrefix (map lower_char u)"
  by (auto simp: has_prefix_iff ReservedPrefix_def lower_char_def)

lemma list_all2_member1: "list_all2 R xs ys \<Longrightarrow> x \<in> set xs \<Longrightarrow> \<exists>y \<in> set ys. R x y"
  by (induction rule: list_all2_induct) auto

lemma list_all2_member2: "list_all2 R xs ys \<Longrightarrow> y \<in> set ys \<Longrightarrow> \<exists>x \<in> set xs. R x y"
  by (induction rule: list_all2_induct) auto

lemma user_entry_good:
  "list_all2 (user_entry rt k) ws us \<Longrightarrow> a \<in> set us \<Longrightarrow> \<exists>u pw. good_hash rt k u pw (acHash a)"
  by (induction rule: list_all2_induct) (auto simp: user_entry_def)

lemma principal_entry_good:
  "list_all2 (principal_entry rt k) ps us \<Longrightarrow> a \<in> set us \<Longrightarrow> \<exists>u pw. good_hash rt k u pw (acHash a)"
  by (induction rule: list_all2_induct) (auto simp: principal_entry_def)

lemma entries_distinct:
  assumes "list_all2 (user_entry rt k) (winners_of rt inputs) us"
    and "list_all2 (principal_entry rt k) reserved ps" and "principals_ok reserved"
  shows "distinct (map acUsername (us @ ps)) \<and>
    (\<forall>e \<in> set (us @ ps). usernamePattern (acUsername e))"
proof -
  have us: "map acUsername us = map inUsername (winners_of rt inputs)"
    by (rule user_entry_names [OF assms(1)])
  have ps: "map acUsername ps = map prUsername reserved"
    by (rule principal_entry_names [OF assms(2)])
  have uadm: "usernamePattern u \<and> \<not> has_prefix ReservedPrefix u" if "u \<in> set (map acUsername us)" for u
    using that us winners_of_facts(1) [of rt inputs] lower_reserved by (auto simp: user_admitted_def)
  have pres: "usernamePattern u \<and> has_prefix ReservedPrefix u" if "u \<in> set (map acUsername ps)" for u
  proof -
    have "u \<in> set (map prUsername reserved)" using that unfolding ps .
    then obtain p where p: "p \<in> set reserved" "u = prUsername p" by auto
    have "has_prefix ReservedPrefix (prUsername p)"
      using assms(2) p(1) by (auto simp: list_all2_conv_all_nth principal_entry_def in_set_conv_nth)
    then show ?thesis using p assms(3) by (simp add: principals_ok_def list_all_iff)
  qed
  have "distinct (map acUsername us)" "distinct (map acUsername ps)"
    using us ps winners_of_facts(2) [of rt inputs] assms(3) by (simp_all add: principals_ok_def)
  moreover have "set (map acUsername us) \<inter> set (map acUsername ps) = {}"
    using uadm pres by blast
  ultimately have "distinct (map acUsername us @ map acUsername ps)" by simp
  moreover have "\<forall>e \<in> set (us @ ps). usernamePattern (acUsername e)"
    using uadm pres by auto
  ultimately show ?thesis by simp
qed

lemma accepted_iff_winner:
  assumes run: "RenderUsers rt P inputs reserved previous random = Inr (res, random')"
    and acc: "accept_loop rt (pHashes P previous) (winners_of rt inputs) (losers_verdicts rt inputs) random
       = Inr (us, resVerdicts res, r)"
    and d: "distinct (map inName inputs)" and i: "i \<in> set inputs"
  shows "(\<exists>v. fmlookup (resVerdicts res) (inName i) = Some v \<and> vAccepted v) \<longleftrightarrow>
    i \<in> set (winners_of rt inputs)"
proof (cases "check rt i")
  case (Some w)
  then have "i \<notin> set (winners_of rt inputs)"
    using winners_of_facts(1) [of rt inputs] check_None [of rt i] by auto
  then show ?thesis using render_verdicts [OF run d i] check_not_accepted [OF Some] Some by simp
next
  case None
  then have ic: "i \<in> set (candidates_of rt inputs)"
    using i by (simp add: set_candidates_of check_None)
  note free = resolve_loop_free [OF distinct_candidate_names [OF d, of rt] ic,
      of fmempty rt "snd (refuse_loop rt inputs fmempty)", simplified,
      folded winners_of_def losers_verdicts_def]
  note av = accept_loop_verdicts [OF acc distinct_winner_names [OF d]]
  show ?thesis
  proof (cases "i \<in> set (winners_of rt inputs)")
    case True
    then show ?thesis using av by (simp add: accepted_verdict_def)
  next
    case False
    have "\<exists>j :: input. fmlookup (losers_verdicts rt inputs) (inName i)
        = Some (conflict_verdict rt i (inName j))" using free False by (auto split: if_splits)
    then obtain j :: input where j: "fmlookup (losers_verdicts rt inputs) (inName i)
        = Some (conflict_verdict rt i (inName j))" by blast
    have "inName i \<notin> inName ` set (winners_of rt inputs)"
      using False i d winners_of_facts(1) [of rt inputs] by (auto simp: distinct_map dest: inj_onD)
    then have "fmlookup (resVerdicts res) (inName i) = fmlookup (losers_verdicts rt inputs) (inName i)"
      using av by blast
    then show ?thesis using False j by (simp add: conflict_verdict_def refused_def)
  qed
qed

definition user_accepted :: "render_result \<Rightarrow> input \<Rightarrow> bool" where
  "user_accepted res i \<longleftrightarrow> (\<exists>v. fmlookup (resVerdicts res) (inName i) = Some v \<and> vAccepted v)"

lemma render_verdict_names:
  assumes "RenderUsers rt P inputs reserved previous random = Inr (res, random')"
    and "distinct (map inName inputs)" and "n \<notin> inName ` set inputs"
  shows "fmlookup (resVerdicts res) n = None"
proof -
  obtain us vs r where
    acc: "accept_loop rt (pHashes P previous) (winners_of rt inputs) (losers_verdicts rt inputs) random
       = Inr (us, vs, r)" and vs: "resVerdicts res = vs"
    using assms(1) by (auto elim: RenderUsers_Inr)
  have w: "n \<notin> inName ` set (winners_of rt inputs)" and c: "n \<notin> inName ` set (candidates_of rt inputs)"
    using assms(3) winners_of_facts(1) [of rt inputs] set_candidates_of [of rt inputs] by blast+
  have "fmlookup vs n = fmlookup (losers_verdicts rt inputs) n"
    using accept_loop_verdicts [OF acc distinct_winner_names [OF assms(2)]] w by blast
  also have "\<dots> = None"
    unfolding losers_verdicts_def resolve_loop_frame [OF c] using assms(3) by (subst refuse_loop_frame) auto
  finally show ?thesis by (simp add: vs)
qed

lemma render_accepted_count:
  assumes R: "RenderUsers rt P inputs reserved previous random = Inr (res, random')" and d: "distinct (map inName inputs)"
  shows "resAccepted res = length (filter (user_accepted res) inputs)"
proof -
  obtain us vs r where
    acc: "accept_loop rt (pHashes P previous) (winners_of rt inputs) (losers_verdicts rt inputs) random = Inr (us, vs, r)"
    and res: "resVerdicts res = vs" "resAccepted res = length us"
    using R by (auto elim: RenderUsers_Inr)
  have "set (winners_of rt inputs) = set (filter (user_accepted res) inputs)"
    using accepted_iff_winner [OF R acc [folded res(1)] d] winners_of_facts(1) [of rt inputs]
    by (auto simp: user_accepted_def)
  moreover have "distinct (winners_of rt inputs)" "distinct (filter (user_accepted res) inputs)"
    using distinct_winner_names [OF d] d by (auto simp: distinct_map)
  ultimately have "length (winners_of rt inputs) = length (filter (user_accepted res) inputs)"
    by (metis distinct_card)
  then show ?thesis using list_all2_lengthD [OF accept_loop_entries [OF acc]] res(2) by simp
qed

lemma accepted_admitted:
  assumes "RenderUsers rt P inputs reserved previous random = Inr (res, random')"
    and "distinct (map inName inputs)" and "i \<in> set inputs" and "user_accepted res i"
  shows "user_admitted i"
proof (rule ccontr)
  assume "\<not> user_admitted i"
  then obtain v where v: "check rt i = Some v" using check_None [of rt i] by auto
  then show False
    using render_verdicts [OF assms(1-3)] assms(4) check_not_accepted [OF v]
    by (simp add: user_accepted_def)
qed

lemma rendered_entries:
  assumes "principals_ok reserved" and "distinct (map inName inputs)"
    and "RenderUsers rt P inputs reserved previous random = Inr (res, random')"
  obtains es where "resData res = pRender P es" "sorted (map acUsername es)"
    "distinct (map acUsername es)" "length es = resAccepted res + length reserved"
    "\<forall>e \<in> set es. usernamePattern (acUsername e)"
    "\<forall>e \<in> set es. (\<exists>i \<in> set inputs. user_accepted res i \<and> user_entry rt (pHashes P previous) i e) \<or>
       (\<exists>p \<in> set reserved. principal_entry rt (pHashes P previous) p e)"
    "\<forall>i \<in> set inputs. user_accepted res i \<longrightarrow> (\<exists>e \<in> set es. user_entry rt (pHashes P previous) i e)"
    "\<forall>p \<in> set reserved. \<exists>e \<in> set es. principal_entry rt (pHashes P previous) p e"
proof -
  obtain us ps vs r where
    acc: "accept_loop rt (pHashes P previous) (winners_of rt inputs) (losers_verdicts rt inputs) random
       = Inr (us, vs, r)"
    and rsv: "reserve_loop rt (pHashes P previous) reserved r = Inr (ps, random')"
    and res: "res = \<lparr>resData = pRender P (sort_key acUsername (us @ ps)), resVerdicts = vs,
       resAccepted = length us\<rparr>"
    using assms(3) by (rule RenderUsers_Inr)
  note ents = accept_loop_entries [OF acc] reserve_loop_entries [OF rsv]
  note ed = entries_distinct [OF ents assms(1)]
  let ?es = "sort_key acUsername (us @ ps)"
  have won: "user_accepted res i \<longleftrightarrow> i \<in> set (winners_of rt inputs)" if "i \<in> set inputs" for i
    using accepted_iff_winner [OF assms(3) _ assms(2) that] acc by (simp add: res user_accepted_def)
  have win: "set (winners_of rt inputs) \<subseteq> set inputs" using winners_of_facts(1) [of rt inputs] by auto
  have "distinct (map acUsername ?es)" unfolding distinct_map_sort_key using ed by blast
  moreover have "length ?es = resAccepted res + length reserved"
    using ents(2) by (simp add: res list_all2_lengthD)
  moreover have "(\<exists>i \<in> set inputs. user_accepted res i \<and> user_entry rt (pHashes P previous) i e) \<or>
      (\<exists>p \<in> set reserved. principal_entry rt (pHashes P previous) p e)" if "e \<in> set ?es" for e
    using that list_all2_member2 [OF ents(1), of e] list_all2_member2 [OF ents(2), of e] won win
    by auto
  moreover have "\<exists>e \<in> set ?es. user_entry rt (pHashes P previous) i e"
    if "i \<in> set inputs" "user_accepted res i" for i
    using list_all2_member1 [OF ents(1), of i] won that by auto
  moreover have "\<exists>e \<in> set ?es. principal_entry rt (pHashes P previous) p e" if "p \<in> set reserved" for p
    using list_all2_member1 [OF ents(2) that] by auto
  ultimately show ?thesis using that [of ?es] ed by (simp add: res)
qed

text \<open>
  What the users of a payload rely on (the Go interface \<open>Payload\<close>): the hashes can be read back
  from what was rendered, for usernames and hashes the payload can carry; what it reads back it
  can carry again.
\<close>

locale payload =
  fixes P :: payload
    and user_ok :: "string \<Rightarrow> bool"
    and hash_ok :: "string \<Rightarrow> bool"
  assumes read_back: "distinct (map acUsername us) \<Longrightarrow>
      (\<And>u. u \<in> set us \<Longrightarrow> user_ok (acUsername u) \<and> hash_ok (acHash u)) \<Longrightarrow> u \<in> set us \<Longrightarrow>
      go_get (pHashes P (pRender P us)) (acUsername u) = acHash u"
    and pattern_ok: "usernamePattern name \<Longrightarrow> user_ok name"
    and known_ok: "hash_ok (go_get (pHashes P previous) name)"
    and fresh_ok: "HashPassword rt pw r = Inr (h, r') \<Longrightarrow> hash_ok h"
begin

lemma good_hash_ok: "good_hash rt (pHashes P previous) u pw h \<Longrightarrow> hash_ok h"
  using known_ok fresh_ok by (auto simp: good_hash_def)

text \<open>A pass over its own result changes nothing and draws nothing.\<close>

lemma render_stable:
  assumes "pbkdf2_ok rt" and "principals_ok reserved"
    and run: "RenderUsers rt P inputs reserved previous random = Inr (res, random')"
    and data: "\<And>u. go_get (pHashes P data) u = go_get (pHashes P (resData res)) u"
  shows "RenderUsers rt P inputs reserved data random2 = Inr (res, random2)"
proof -
  obtain us ps vs r where
    acc: "accept_loop rt (pHashes P previous) (winners_of rt inputs) (losers_verdicts rt inputs) random
       = Inr (us, vs, r)"
    and rsv: "reserve_loop rt (pHashes P previous) reserved r = Inr (ps, random')"
    and res: "res = \<lparr>resData = pRender P (sort_key acUsername (us @ ps)), resVerdicts = vs,
       resAccepted = length us\<rparr>"
    using run by (rule RenderUsers_Inr)
  note ents = accept_loop_entries [OF acc] reserve_loop_entries [OF rsv]
  note ed = entries_distinct [OF ents assms(2)]
  let ?es = "sort_key acUsername (us @ ps)"
  have ok: "user_ok (acUsername e) \<and> hash_ok (acHash e)" if "e \<in> set ?es" for e
  proof -
    have "e \<in> set (us @ ps)" using that by simp
    moreover from this have "\<exists>u pw. good_hash rt (pHashes P previous) u pw (acHash e)"
      using user_entry_good [OF ents(1)] principal_entry_good [OF ents(2)] by auto
    ultimately show ?thesis using ed pattern_ok good_hash_ok by blast
  qed
  have "distinct (map acUsername ?es)" unfolding distinct_map_sort_key using ed by blast
  then have rb: "go_get (pHashes P data) (acUsername e) = acHash e" if "e \<in> set (us @ ps)" for e
    using read_back [of ?es e] ok that by (simp add: data res)
  have "accept_loop rt (pHashes P data) (winners_of rt inputs) (losers_verdicts rt inputs) random2
      = Inr (us, vs, random2)"
    by (rule accept_loop_keeps [OF ents(1) assms(1) _ acc]) (simp add: rb)
  moreover have "reserve_loop rt (pHashes P data) reserved random2 = Inr (ps, random2)"
    by (rule reserve_loop_keeps [OF ents(2) assms(1) _ rsv]) (simp add: rb)
  ultimately show ?thesis by (simp add: RenderUsers_eq res)
qed

end

end
