(* ===== verification/Files.thy ===== *)
theory Files
  imports Render
begin

section \<open>The file payload (internal/auth/files.go)\<close>

text \<open>
  The two files the password-file and acl-file plugins read, and the interpretation of the
  payload interface of \<open>Render\<close> on them. The acl file is read back by \<open>read_acl\<close>, a
  specification of the line format of the plugin, to state that a rendered file grants each
  user exactly its own entries.
\<close>

definition PasswdKey :: string where "PasswdKey = ''passwd''"
definition ACLKey :: string where "ACLKey = ''acl''"

abbreviation (input) nl :: char where "nl \<equiv> CHR 0x0A"

subsection \<open>The payload\<close>

fun read_hashes :: "strmap \<Rightarrow> string list \<Rightarrow> strmap" where
  "read_hashes hashes [] = hashes"
| "read_hashes hashes (line # lines) =
     (case go_cut (CHR '':'') line of
        Some (username, hash) \<Rightarrow>
          read_hashes (if username \<noteq> '''' then fmupd username hash hashes else hashes) lines
      | None \<Rightarrow> read_hashes hashes lines)"

definition Hashes :: "strmap \<Rightarrow> strmap" where
  "Hashes previous = read_hashes fmempty (go_split nl (go_get previous PasswdKey))"

definition passwd_line :: "accepted \<Rightarrow> string" where
  "passwd_line u = acUsername u @ '':'' @ acHash u @ [nl]"

definition topic_line :: "mosquitto_acl \<Rightarrow> string" where
  "topic_line entry = ''topic '' @ aclAccess entry @ '' '' @ aclTopic entry @ [nl]"

definition acl_block :: "nat \<Rightarrow> accepted \<Rightarrow> string" where
  "acl_block i u = (if i > 0 then [nl] else []) @ ''user '' @ acUsername u @ [nl] @
     concat (map topic_line (acACLs u))"

fun render_loop :: "nat \<Rightarrow> accepted list \<Rightarrow> string \<Rightarrow> string \<Rightarrow> string \<times> string" where
  "render_loop i [] passwd acl = (passwd, acl)"
| "render_loop i (u # us) passwd acl =
     render_loop (i + 1) us (passwd @ passwd_line u) (acl @ acl_block i u)"

definition RenderFiles :: "accepted list \<Rightarrow> strmap" where
  "RenderFiles users = (let (passwd, acl) = render_loop 0 users '''' ''''
     in fmupd ACLKey acl (fmupd PasswdKey passwd fmempty))"

definition FilePayload :: payload where
  "FilePayload = \<lparr>pHashes = Hashes, pRender = RenderFiles\<rparr>"

lemma FilePayload_simps [simp]: "pHashes FilePayload = Hashes" "pRender FilePayload = RenderFiles"
  by (simp_all add: FilePayload_def)

lemma file_keys [simp]: "PasswdKey \<noteq> ACLKey" "ACLKey \<noteq> PasswdKey"
  by (simp_all add: PasswdKey_def ACLKey_def)

subsection \<open>The passwd file\<close>

lemma render_loop_passwd:
  "fst (render_loop i us p a) = p @ concat (map passwd_line us)"
  by (induction us arbitrary: i p a) simp_all

lemma RenderFiles_passwd:
  "go_get (RenderFiles us) PasswdKey = concat (map passwd_line us)"
  using render_loop_passwd [of 0 us "[]" "[]"]
  by (simp add: RenderFiles_def split_beta map_facts)

lemma go_split_lines:
  "(\<And>l. l \<in> set ls \<Longrightarrow> c \<notin> set l) \<Longrightarrow> go_split c (concat (map (\<lambda>l. l @ [c]) ls)) = ls @ [[]]"
  by (induction ls) simp_all

lemma read_hashes_append:
  "read_hashes m (xs @ ys) = read_hashes (read_hashes m xs) ys"
  by (induction xs arbitrary: m) (auto split: option.split)

lemma read_hashes_lines:
  assumes "\<And>u. u \<in> set us \<Longrightarrow> acUsername u \<noteq> '''' \<and> CHR '':'' \<notin> set (acUsername u)"
    and "distinct (map acUsername us)"
  shows "fmlookup (read_hashes m (map (\<lambda>u. acUsername u @ '':'' @ acHash u) us)) n =
    (case find (\<lambda>u. acUsername u = n) us of Some u \<Rightarrow> Some (acHash u) | None \<Rightarrow> fmlookup m n)"
  using assms
proof (induction us arbitrary: m)
  case (Cons u us)
  have "find (\<lambda>v. acUsername v = n) us = None" if "acUsername u = n"
    using Cons.prems(2) that unfolding find_None_iff by (metis distinct.simps(2) image_eqI list.set_map list.simps(9))
  then show ?case using Cons.prems Cons.IH by (simp split: option.split)
qed simp

definition name_ok :: "string \<Rightarrow> bool" where
  "name_ok u \<longleftrightarrow> u \<noteq> '''' \<and> nl \<notin> set u \<and> CHR '':'' \<notin> set u"

definition hash_line_ok :: "string \<Rightarrow> bool" where
  "hash_line_ok h \<longleftrightarrow> nl \<notin> set h"

lemma Hashes_RenderFiles:
  assumes "distinct (map acUsername us)"
    and "\<And>u. u \<in> set us \<Longrightarrow> name_ok (acUsername u) \<and> hash_line_ok (acHash u)"
  shows "fmlookup (Hashes (RenderFiles us)) n = map_option acHash (find (\<lambda>u. acUsername u = n) us)"
proof -
  let ?line = "\<lambda>u. acUsername u @ '':'' @ acHash u"
  have lines: "concat (map passwd_line us) = concat (map (\<lambda>l. l @ [nl]) (map ?line us))"
    by (rule arg_cong [of _ _ concat]) (simp add: passwd_line_def)
  have "nl \<notin> set l" if "l \<in> set (map ?line us)" for l
    using that assms(2) by (auto simp: name_ok_def hash_line_ok_def)
  then have "go_split nl (concat (map passwd_line us)) = map ?line us @ [[]]"
    unfolding lines by (rule go_split_lines)
  moreover have "fmlookup (read_hashes fmempty (map ?line us)) n =
      (case find (\<lambda>u. acUsername u = n) us of Some u \<Rightarrow> Some (acHash u) | None \<Rightarrow> None)"
    using assms by (subst read_hashes_lines) (auto simp: name_ok_def split: option.split)
  ultimately show ?thesis
    by (simp add: Hashes_def RenderFiles_passwd read_hashes_append map_option_case)
qed

lemma find_distinct:
  "distinct (map f us) \<Longrightarrow> u \<in> set us \<Longrightarrow> find (\<lambda>v. f v = f u) us = Some u"
  by (induction us) auto

lemma Hashes_hash_ok: "hash_line_ok (go_get (Hashes previous) name)"
proof -
  have step: "hash_line_ok (go_get (read_hashes m ls) name)"
    if "\<And>l. l \<in> set ls \<Longrightarrow> nl \<notin> set l" and "hash_line_ok (go_get m name)" for m ls
    using that
  proof (induction ls arbitrary: m)
    case (Cons l ls)
    have "hash_line_ok h" if "go_cut (CHR '':'') l = Some (b, h)" for b h
      using go_cut_Some [OF that] Cons.prems(1) [of l] by (auto simp: hash_line_ok_def)
    then show ?case
      using Cons.prems by (auto intro!: Cons.IH split: option.split simp: map_facts)
  qed simp
  show ?thesis
    unfolding Hashes_def by (rule step) (simp_all add: go_split_piece hash_line_ok_def map_facts)
qed

interpretation file_payload: payload FilePayload name_ok hash_line_ok
proof
  fix us :: "accepted list" and u
  assume d: "distinct (map acUsername us)"
    and ok: "\<And>u. u \<in> set us \<Longrightarrow> name_ok (acUsername u) \<and> hash_line_ok (acHash u)" and u: "u \<in> set us"
  show "go_get (pHashes FilePayload (pRender FilePayload us)) (acUsername u) = acHash u"
    using Hashes_RenderFiles [OF d ok, of "acUsername u"] find_distinct [OF d u] by (simp add: map_facts)
next
  show "name_ok name" if "usernamePattern name" for name
    using usernamePattern_safe [OF that] by (simp add: name_ok_def)
next
  show "hash_line_ok (go_get (pHashes FilePayload previous) name)" for previous name
    by (simp add: Hashes_hash_ok)
next
  show "hash_line_ok h" if "HashPassword rt pw r = Inr (h, r')" for rt pw r h r'
    using HashPassword_line_safe [OF that] by (simp add: hash_line_ok_def)
qed

subsection \<open>The acl file\<close>

text \<open>
  The format of the file as the acl-file plugin reads it: a \<open>user\<close> line opens the block of a
  user, a \<open>topic\<close> line in it grants an access and a topic, the topic being the rest of the
  line; anything else grants nothing. \<open>read_acl\<close> gives the grants of a file.
\<close>

fun read_acl :: "string option \<Rightarrow> string list \<Rightarrow> (string \<times> string \<times> string) list" where
  "read_acl user [] = []"
| "read_acl user (line # lines) =
     (case cut_prefix ''user '' line of
        Some u \<Rightarrow> read_acl (Some u) lines
      | None \<Rightarrow>
          (case cut_prefix ''topic '' line of
             Some entry \<Rightarrow>
               (case (user, go_cut (CHR '' '') entry) of
                  (Some u, Some (access, topic)) \<Rightarrow> (u, access, topic) # read_acl user lines
                | _ \<Rightarrow> read_acl user lines)
           | None \<Rightarrow> read_acl user lines))"

definition acl_grants :: "strmap \<Rightarrow> (string \<times> string \<times> string) list" where
  "acl_grants files = read_acl None (go_split nl (go_get files ACLKey))"

definition entry_writable :: "mosquitto_acl \<Rightarrow> bool" where
  "entry_writable e \<longleftrightarrow> nl \<notin> set (aclTopic e) \<and> valid_access (aclAccess e)"

definition user_grants :: "accepted \<Rightarrow> (string \<times> string \<times> string) list" where
  "user_grants u = map (\<lambda>e. (acUsername u, aclAccess e, aclTopic e)) (acACLs u)"

lemma in_user_grants:
  "(u, a, t) \<in> set (user_grants e) \<longleftrightarrow>
     acUsername e = u \<and> \<lparr>aclTopic = t, aclAccess = a\<rparr> \<in> set (acACLs e)"
proof -
  have "(\<exists>x \<in> S. a = aclAccess x \<and> t = aclTopic x) \<longleftrightarrow> \<lparr>aclTopic = t, aclAccess = a\<rparr> \<in> S"
    for S :: "mosquitto_acl set"
  proof
    assume "\<exists>x \<in> S. a = aclAccess x \<and> t = aclTopic x"
    then obtain x where "x \<in> S" "a = aclAccess x" "t = aclTopic x" by blast
    then show "\<lparr>aclTopic = t, aclAccess = a\<rparr> \<in> S" by (cases x) simp
  qed (auto intro!: bexI [of _ "\<lparr>aclTopic = t, aclAccess = a\<rparr>"])
  then show ?thesis by (auto simp: user_grants_def image_iff)
qed

definition block_lines :: "nat \<Rightarrow> accepted \<Rightarrow> string list" where
  "block_lines i u = (if i > 0 then [''''] else []) @ (''user '' @ acUsername u) #
     map (\<lambda>e. ''topic '' @ aclAccess e @ '' '' @ aclTopic e) (acACLs u)"

lemma acl_block_lines: "acl_block i u = concat (map (\<lambda>l. l @ [nl]) (block_lines i u))"
proof -
  have "concat (map topic_line es) =
      concat (map (\<lambda>l. l @ [nl]) (map (\<lambda>e. ''topic '' @ aclAccess e @ '' '' @ aclTopic e) es))" for es
    by (induction es) (simp_all add: topic_line_def)
  then show ?thesis by (simp add: acl_block_def block_lines_def)
qed

fun file_lines :: "nat \<Rightarrow> accepted list \<Rightarrow> string list" where
  "file_lines i [] = []"
| "file_lines i (u # us) = block_lines i u @ file_lines (i + 1) us"

lemma render_loop_acl:
  "snd (render_loop i us p a) = a @ concat (map (\<lambda>l. l @ [nl]) (file_lines i us))"
  by (induction us arbitrary: i p a) (simp_all add: acl_block_lines)

lemma read_acl_topics:
  assumes "\<And>e. e \<in> set es \<Longrightarrow> valid_access (aclAccess e)"
  shows "read_acl (Some u) (map (\<lambda>e. ''topic '' @ aclAccess e @ '' '' @ aclTopic e) es @ ls)
    = map (\<lambda>e. (u, aclAccess e, aclTopic e)) es @ read_acl (Some u) ls"
  using assms
proof (induction es)
  case (Cons e es)
  have "CHR '' '' \<notin> set (aclAccess e)"
    using Cons.prems [of e] by (auto simp: valid_access_def AccessRead_def AccessWrite_def AccessReadWrite_def)
  then have "go_cut (CHR '' '') (aclAccess e @ CHR '' '' # aclTopic e) = Some (aclAccess e, aclTopic e)"
    by simp
  then show ?case using Cons by (simp add: cut_prefix_def has_prefix_def)
qed simp

lemma read_acl_file:
  assumes "\<And>u. u \<in> set us \<Longrightarrow> list_all entry_writable (acACLs u)"
  shows "read_acl user (file_lines i us @ ['''']) = concat (map user_grants us)"
  using assms
proof (induction us arbitrary: i user)
  case Nil
  then show ?case by (simp add: cut_prefix_def has_prefix_def)
next
  case (Cons u us)
  have w: "valid_access (aclAccess e)" if "e \<in> set (acACLs u)" for e
    using Cons.prems [of u] that by (simp add: list_all_iff entry_writable_def)
  have "read_acl user (block_lines i u @ ls) = user_grants u @ read_acl (Some (acUsername u)) ls" for ls
    using read_acl_topics [OF w, where ls = ls]
    by (simp add: block_lines_def user_grants_def cut_prefix_def has_prefix_def)
  then show ?case using Cons by simp
qed

lemma acl_grants_RenderFiles:
  assumes "\<And>u. u \<in> set us \<Longrightarrow> nl \<notin> set (acUsername u) \<and> list_all entry_writable (acACLs u)"
  shows "acl_grants (RenderFiles us) = concat (map user_grants us)"
proof -
  have "nl \<notin> set l" if "l \<in> set (file_lines i us)" for l i
    using that assms
  proof (induction us arbitrary: i)
    case (Cons u us)
    have "nl \<notin> set (aclAccess e) \<and> nl \<notin> set (aclTopic e)" if "e \<in> set (acACLs u)" for e
      using Cons.prems(2) [of u] that by (auto simp: list_all_iff entry_writable_def valid_access_def
          AccessRead_def AccessWrite_def AccessReadWrite_def)
    moreover have "l \<in> set (block_lines i u) \<or> l \<in> set (file_lines (i + 1) us)"
      using Cons.prems(1) by simp
    ultimately show ?case
      using Cons.prems(2) Cons.IH [of "i + 1"] by (auto simp: block_lines_def split: if_splits)
  qed simp
  then have "go_split nl (snd (render_loop 0 us '''' '''')) = file_lines 0 us @ ['''']"
    unfolding render_loop_acl using go_split_lines [of "file_lines 0 us" nl] by simp
  then show ?thesis
    using read_acl_file [of us None 0] assms
    by (simp add: acl_grants_def RenderFiles_def split_beta map_facts)
qed

subsection \<open>The rendered files\<close>

definition principals_writable :: "principal list \<Rightarrow> bool" where
  "principals_writable ps \<longleftrightarrow> list_all (\<lambda>p. list_all entry_writable (prACLs p)) ps"

lemma entry_good:
  "user_entry rt k i e \<or> principal_entry rt k p e \<Longrightarrow> \<exists>u pw. good_hash rt k u pw (acHash e)"
  by (auto simp: user_entry_def principal_entry_def)

lemmas rendered_files = rendered_entries [where P = FilePayload, unfolded FilePayload_simps]

text \<open>What the entries of a rendering are to the inputs and principals they come from.\<close>

definition entries_of ::
  "runtime \<Rightarrow> strmap \<Rightarrow> (input \<Rightarrow> bool) \<Rightarrow> input list \<Rightarrow> principal list \<Rightarrow> accepted list \<Rightarrow> bool" where
  "entries_of rt known accepted inputs reserved es \<longleftrightarrow>
     distinct (map acUsername es) \<and> (\<forall>e \<in> set es. usernamePattern (acUsername e)) \<and>
     (\<forall>e \<in> set es. (\<exists>i \<in> set inputs. accepted i \<and> user_entry rt known i e) \<or>
        (\<exists>p \<in> set reserved. principal_entry rt known p e)) \<and>
     (\<forall>i \<in> set inputs. accepted i \<longrightarrow> (\<exists>e \<in> set es. user_entry rt known i e)) \<and>
     (\<forall>p \<in> set reserved. \<exists>e \<in> set es. principal_entry rt known p e)"

lemma rendered_files_entries:
  assumes "principals_ok reserved" and "distinct (map inName inputs)"
    and "RenderUsers rt FilePayload inputs reserved previous random = Inr (res, random')"
  obtains es where "resData res = RenderFiles es"
    and "entries_of rt (Hashes previous) (user_accepted res) inputs reserved es"
proof (rule rendered_files [OF assms])
  fix es
  assume "resData res = RenderFiles es" "sorted (map acUsername es)" "distinct (map acUsername es)"
      "length es = resAccepted res + length reserved"
      "\<forall>e \<in> set es. usernamePattern (acUsername e)"
      "\<forall>e \<in> set es. (\<exists>i \<in> set inputs. user_accepted res i \<and> user_entry rt (Hashes previous) i e) \<or>
         (\<exists>p \<in> set reserved. principal_entry rt (Hashes previous) p e)"
      "\<forall>i \<in> set inputs. user_accepted res i \<longrightarrow> (\<exists>e \<in> set es. user_entry rt (Hashes previous) i e)"
      "\<forall>p \<in> set reserved. \<exists>e \<in> set es. principal_entry rt (Hashes previous) p e"
  then show thesis by (intro that [of es]) (simp_all add: entries_of_def)
qed

lemma entries_names:
  assumes "entries_of rt known accepted inputs reserved es"
  shows "acUsername ` set es = inUsername ` {i \<in> set inputs. accepted i} \<union> prUsername ` set reserved"
proof (intro equalityI subsetI)
  fix n assume "n \<in> acUsername ` set es"
  then obtain e where e: "e \<in> set es" "n = acUsername e" by blast
  have "(\<exists>i \<in> set inputs. accepted i \<and> user_entry rt known i e) \<or> (\<exists>p \<in> set reserved. principal_entry rt known p e)"
    using assms e(1) unfolding entries_of_def by blast
  then show "n \<in> inUsername ` {i \<in> set inputs. accepted i} \<union> prUsername ` set reserved"
    using e(2) by (auto simp: user_entry_def principal_entry_def)
next
  have users: "\<exists>e \<in> set es. acUsername e = inUsername i" if "i \<in> set inputs" "accepted i" for i
    using assms that unfolding entries_of_def user_entry_def by meson
  have principals: "\<exists>e \<in> set es. acUsername e = prUsername p" if "p \<in> set reserved" for p
    using assms that unfolding entries_of_def principal_entry_def by meson
  fix n assume "n \<in> inUsername ` {i \<in> set inputs. accepted i} \<union> prUsername ` set reserved"
  then show "n \<in> acUsername ` set es"
    using users principals by (elim UnE imageE) (metis imageI mem_Collect_eq, metis imageI)
qed

lemma entries_grants:
  assumes "entries_of rt known accepted inputs reserved es"
  shows "(\<exists>e \<in> set es. acUsername e = u \<and> x \<in> set (acACLs e)) \<longleftrightarrow>
    (\<exists>i \<in> set inputs. accepted i \<and> inUsername i = u \<and> x \<in> set (inACLs i)) \<or>
    (\<exists>p \<in> set reserved. prUsername p = u \<and> x \<in> set (prACLs p))" (is "?l \<longleftrightarrow> ?r")
proof
  assume ?l
  then obtain e where e: "e \<in> set es" "acUsername e = u" "x \<in> set (acACLs e)" by blast
  have "(\<exists>i \<in> set inputs. accepted i \<and> user_entry rt known i e) \<or> (\<exists>p \<in> set reserved. principal_entry rt known p e)"
    using assms e(1) unfolding entries_of_def by blast
  then show ?r using e(2,3) by (auto simp: user_entry_def principal_entry_def)
next
  have ue: "acUsername e = inUsername i" "set (acACLs e) = set (inACLs i)"
    if "user_entry rt known i e" for i e using that by (simp_all add: user_entry_def)
  have pe: "acUsername e = prUsername p" "set (acACLs e) = set (prACLs p)"
    if "principal_entry rt known p e" for p e using that by (simp_all add: principal_entry_def)
  assume ?r
  then show ?l
  proof (elim disjE bexE conjE)
    fix i assume "i \<in> set inputs" "accepted i" "inUsername i = u" "x \<in> set (inACLs i)"
    then show ?l using assms ue [of i] unfolding entries_of_def by fastforce
  next
    fix p assume "p \<in> set reserved" "prUsername p = u" "x \<in> set (prACLs p)"
    then show ?l using assms pe [of p] unfolding entries_of_def by fastforce
  qed
qed

lemma entries_writable:
  assumes "entries_of rt known accepted inputs reserved es" and "principals_writable reserved"
    and adm: "\<And>i. i \<in> set inputs \<Longrightarrow> accepted i \<Longrightarrow> user_admitted i" and e: "e \<in> set es"
  shows "nl \<notin> set (acUsername e) \<and> list_all entry_writable (acACLs e)"
proof
  show "nl \<notin> set (acUsername e)"
    using assms(1) e usernamePattern_safe unfolding entries_of_def by blast
  have "(\<exists>i \<in> set inputs. accepted i \<and> user_entry rt known i e) \<or> (\<exists>p \<in> set reserved. principal_entry rt known p e)"
    using assms(1) e unfolding entries_of_def by blast
  then show "list_all entry_writable (acACLs e)"
  proof (elim disjE bexE conjE)
    fix i assume i: "i \<in> set inputs" "accepted i" "user_entry rt known i e"
    then have "user_admitted i" "set (acACLs e) = set (inACLs i)"
      using adm by (simp_all add: user_entry_def)
    then show ?thesis
      using topic_line_safe by (auto simp: list_all_iff user_admitted_def valid_acl_def entry_writable_def)
  next
    fix p assume "p \<in> set reserved" "principal_entry rt known p e"
    then show ?thesis
      using assms(2) by (fastforce simp: principal_entry_def principals_writable_def list_all_iff)
  qed
qed

lemma entries_hashes:
  assumes "entries_of rt (Hashes previous) accepted inputs reserved es"
  shows "fmlookup (Hashes (RenderFiles es)) n = map_option acHash (find (\<lambda>u. acUsername u = n) es)"
proof (rule Hashes_RenderFiles)
  show "distinct (map acUsername es)" using assms unfolding entries_of_def by blast
  fix e assume e: "e \<in> set es"
  have "(\<exists>i \<in> set inputs. accepted i \<and> user_entry rt (Hashes previous) i e) \<or>
      (\<exists>p \<in> set reserved. principal_entry rt (Hashes previous) p e)"
    using assms e unfolding entries_of_def by blast
  then obtain u pw where "good_hash rt (Hashes previous) u pw (acHash e)" using entry_good by blast
  then have "hash_line_ok (acHash e)"
    by (intro file_payload.good_hash_ok [unfolded FilePayload_simps])
  then show "name_ok (acUsername e) \<and> hash_line_ok (acHash e)"
    using assms e file_payload.pattern_ok unfolding entries_of_def by blast
qed

text \<open>What the two files hold for an accepted user: a hash of its password, and its own grants only.\<close>

lemma accepted_logs_in:
  assumes "pbkdf2_ok rt" and "principals_ok reserved" and "distinct (map inName inputs)"
    and "RenderUsers rt FilePayload inputs reserved previous random = Inr (res, random')"
    and i: "i \<in> set inputs" "user_accepted res i"
  shows "VerifyPassword rt (go_get (Hashes (resData res)) (inUsername i)) (inPassword i)"
proof -
  obtain es where es: "resData res = RenderFiles es"
      "entries_of rt (Hashes previous) (user_accepted res) inputs reserved es"
    by (rule rendered_files_entries [OF assms(2-4)])
  obtain e where e: "e \<in> set es" "user_entry rt (Hashes previous) i e" and d: "distinct (map acUsername es)"
    using es(2) i unfolding entries_of_def by blast
  have "go_get (Hashes (resData res)) (acUsername e) = acHash e"
    using find_distinct [OF d e(1)] by (simp add: entries_hashes [OF es(2), folded es(1)] map_facts)
  then show ?thesis
    using e(2) good_hash_verifies [OF assms(1)] unfolding user_entry_def by metis
qed

lemma accepted_grants:
  assumes "principals_ok reserved" and "principals_writable reserved" and "distinct (map inName inputs)"
    and R: "RenderUsers rt FilePayload inputs reserved previous random = Inr (res, random')"
    and i: "i \<in> set inputs" "user_accepted res i"
  shows "(inUsername i, a, t) \<in> set (acl_grants (resData res)) \<longleftrightarrow> \<lparr>aclTopic = t, aclAccess = a\<rparr> \<in> set (inACLs i)"
proof -
  obtain es where es: "resData res = RenderFiles es"
      "entries_of rt (Hashes previous) (user_accepted res) inputs reserved es"
    by (rule rendered_files_entries [OF assms(1,3,4)])
  obtain e where e: "e \<in> set es" "user_entry rt (Hashes previous) i e" and d: "distinct (map acUsername es)"
    using es(2) i unfolding entries_of_def by blast
  have name: "acUsername e = inUsername i" "set (acACLs e) = set (inACLs i)" using e(2) by (simp_all add: user_entry_def)
  have one: "e' = e" if "e' \<in> set es" "acUsername e' = inUsername i" for e'
    using d that e(1) name(1) inj_onD [of acUsername "set es" e' e] by (simp add: distinct_map)
  have "acl_grants (resData res) = concat (map user_grants es)"
    unfolding es(1)
    by (rule acl_grants_RenderFiles [OF entries_writable [OF es(2) assms(2) accepted_admitted [OF R assms(3)]]])
  then have "(inUsername i, a, t) \<in> set (acl_grants (resData res)) \<longleftrightarrow>
      (\<exists>e' \<in> set es. acUsername e' = inUsername i \<and> \<lparr>aclTopic = t, aclAccess = a\<rparr> \<in> set (acACLs e'))"
    by (simp add: in_user_grants)
  also have "\<dots> \<longleftrightarrow> \<lparr>aclTopic = t, aclAccess = a\<rparr> \<in> set (inACLs i)" using e(1) name one by blast
  finally show ?thesis .
qed

text \<open>C11: the passwd file names exactly the accepted users and the principals of the operator, and
  every accepted user can log in: the hash the file holds for its username verifies against its
  password.\<close>

theorem passwd_file_exact:
  assumes "pbkdf2_ok rt" and "principals_ok reserved" and "distinct (map inName inputs)"
    and "RenderUsers rt FilePayload inputs reserved previous random = Inr (res, random')"
  shows "fset (fmdom (Hashes (resData res))) =
      inUsername ` {i \<in> set inputs. user_accepted res i} \<union> prUsername ` set reserved \<and>
    (\<forall>i \<in> set inputs. user_accepted res i \<longrightarrow>
       VerifyPassword rt (go_get (Hashes (resData res)) (inUsername i)) (inPassword i))"
proof -
  obtain es where es: "resData res = RenderFiles es"
      "entries_of rt (Hashes previous) (user_accepted res) inputs reserved es"
    by (rule rendered_files_entries [OF assms(2-4)])
  note get = entries_hashes [OF es(2), folded es(1)]
  have "n \<in> fset (fmdom (Hashes (resData res))) \<longleftrightarrow> n \<in> acUsername ` set es" for n
  proof -
    have "n \<in> fset (fmdom (Hashes (resData res))) \<longleftrightarrow> find (\<lambda>u. acUsername u = n) es \<noteq> None"
      by (simp add: fmlookup_dom_iff get)
    also have "\<dots> \<longleftrightarrow> n \<in> acUsername ` set es" unfolding find_None_iff by blast
    finally show ?thesis .
  qed
  moreover note accepted_logs_in [OF assms]
  ultimately show ?thesis using entries_names [OF es(2)] by blast
qed

text \<open>C3: the acl file grants exactly what was asked for and accepted. Reading the rendered file back,
  a username holds a grant if and only if an accepted user of that name, or a principal of the
  operator of that name, lists the entry; no name, topic or access can add a line of its own.\<close>

theorem acl_file_exact:
  assumes "principals_ok reserved" and "principals_writable reserved"
    and "distinct (map inName inputs)"
    and "RenderUsers rt FilePayload inputs reserved previous random = Inr (res, random')"
  shows "set (acl_grants (resData res)) =
    {(u, a, t). (\<exists>i \<in> set inputs. user_accepted res i \<and> inUsername i = u \<and>
         \<lparr>aclTopic = t, aclAccess = a\<rparr> \<in> set (inACLs i)) \<or>
       (\<exists>p \<in> set reserved. prUsername p = u \<and> \<lparr>aclTopic = t, aclAccess = a\<rparr> \<in> set (prACLs p))}"
proof -
  obtain es where es: "resData res = RenderFiles es"
      "entries_of rt (Hashes previous) (user_accepted res) inputs reserved es"
    by (rule rendered_files_entries [OF assms(1,3,4)])
  have "acl_grants (resData res) = concat (map user_grants es)"
    unfolding es(1)
    by (rule acl_grants_RenderFiles [OF entries_writable [OF es(2) assms(2) accepted_admitted [OF assms(4,3)]]])
  then have "(u, a, t) \<in> set (acl_grants (resData res)) \<longleftrightarrow>
      (\<exists>e \<in> set es. acUsername e = u \<and> \<lparr>aclTopic = t, aclAccess = a\<rparr> \<in> set (acACLs e))" for u a t
    by (simp add: in_user_grants)
  then show ?thesis unfolding entries_grants [OF es(2)] by auto
qed

text \<open>Rendering is idempotent. A pass over the files the previous pass wrote, with the same users,
  keeps every hash: it renders the same files and verdicts, and draws no random byte.\<close>

lemma render_files_idempotent:
  assumes "pbkdf2_ok rt" and "principals_ok reserved"
    and "RenderUsers rt FilePayload inputs reserved previous random = Inr (res, random')"
  shows "RenderUsers rt FilePayload inputs reserved (resData res) random2 = Inr (res, random2)"
  by (rule file_payload.render_stable [OF assms refl])

text \<open>A broker with two users and a late third one, and the exporter.\<close>

abbreviation sample_users :: "input list" where
  "sample_users \<equiv> [sample_late, sample_ann, sample_bob]"

abbreviation sample_reserved :: "principal list" where
  "sample_reserved \<equiv> [ExporterPrincipal ''pw'']"

lemma sample_reserved_ok:
  "principals_ok sample_reserved" "principals_writable sample_reserved" "principals_served sample_reserved"
  by (simp_all add: principals_ok_def principals_writable_def principals_served_def
      ExporterPrincipal_def ExporterUsername_def ReservedPrefix_def usernamePattern_def alnum_def
      entry_writable_def valid_access_def has_prefix_def)

lemma sample_names: "distinct (map inName sample_users)"
  by (simp add: sample_inputs)

lemma sample_files_run:
  obtains res r where "RenderUsers sample_runtime FilePayload sample_users sample_reserved fmempty
      (replicate 256 (CHR ''s'')) = Inr (res, r)"
    "user_accepted res sample_ann" "user_accepted res sample_bob" "\<not> user_accepted res sample_late"
proof -
  let ?rnd = "replicate 256 (CHR ''s'')"
  have "isInr (RenderUsers sample_runtime FilePayload sample_users sample_reserved fmempty ?rnd)"
    by (rule render_total [OF sample_runtime_total sample_reserved_ok(3)]) simp
  then obtain res r where R: "RenderUsers sample_runtime FilePayload sample_users sample_reserved fmempty
      ?rnd = Inr (res, r)" by (auto simp: isInr_iff)
  have same: "same_username sample_users sample_ann = {sample_ann, sample_late}"
    "same_username sample_users sample_late = {sample_ann, sample_late}"
    "same_username sample_users sample_bob = {sample_bob}"
    using sample_admitted by (auto simp: same_username_def sample_inputs)
  have old: "older sample_ann sample_late" "\<not> older sample_late sample_ann" "sample_ann \<noteq> sample_late"
    by (simp_all add: older_def sample_inputs)
  have "user_accepted res sample_ann" "\<not> user_accepted res sample_late" "user_accepted res sample_bob"
    using render_verdicts [OF R sample_names, of sample_ann] render_verdicts [OF R sample_names, of sample_late]
      render_verdicts [OF R sample_names, of sample_bob] sample_admitted old
    by (auto simp: check_None [THEN iffD2] same user_accepted_def accepted_verdict_def
        conflict_verdict_def refused_def)
  with R show ?thesis using that by blast
qed

theorem passwd_file_exact_witness:
  "\<exists>res r. RenderUsers sample_runtime FilePayload sample_users sample_reserved fmempty
      (replicate 256 (CHR ''s'')) = Inr (res, r) \<and>
    fset (fmdom (Hashes (resData res))) = {''ann'', ''bob'', ''mko-exporter''} \<and>
    VerifyPassword sample_runtime (go_get (Hashes (resData res)) ''ann'') ''x''"
proof -
  obtain res r where R: "RenderUsers sample_runtime FilePayload sample_users sample_reserved fmempty
      (replicate 256 (CHR ''s'')) = Inr (res, r)"
    and acc: "user_accepted res sample_ann" "user_accepted res sample_bob" "\<not> user_accepted res sample_late"
    by (rule sample_files_run)
  have "{i \<in> set sample_users. user_accepted res i} = {sample_ann, sample_bob}" using acc by auto
  then show ?thesis
    using passwd_file_exact [OF sample_runtime_ok sample_reserved_ok(1) sample_names R] R acc
    by (intro exI [of _ res] exI [of _ r])
      (simp add: ExporterPrincipal_def ExporterUsername_def ReservedPrefix_def insert_commute sample_inputs)
qed

theorem acl_file_exact_witness:
  "\<exists>res r. RenderUsers sample_runtime FilePayload sample_users sample_reserved fmempty
      (replicate 256 (CHR ''s'')) = Inr (res, r) \<and>
    (''ann'', ''read'', ''t/#'') \<in> set (acl_grants (resData res)) \<and>
    (''mko-exporter'', ''read'', ''$SYS/#'') \<in> set (acl_grants (resData res)) \<and>
    (\<forall>a t. (''bob'', a, t) \<notin> set (acl_grants (resData res)))"
proof -
  obtain res r where R: "RenderUsers sample_runtime FilePayload sample_users sample_reserved fmempty
      (replicate 256 (CHR ''s'')) = Inr (res, r)"
    and acc: "user_accepted res sample_ann" "user_accepted res sample_bob" "\<not> user_accepted res sample_late"
    by (rule sample_files_run)
  note g = acl_file_exact [OF sample_reserved_ok(1,2) sample_names R]
  show ?thesis
    using R acc g
    by (intro exI [of _ res] exI [of _ r])
      (simp add: ExporterPrincipal_def ExporterUsername_def ReservedPrefix_def AccessRead_def sample_inputs)
qed

end
