(* ===== verification/PodSpec.thy ===== *)
theory PodSpec
  imports Config Files
begin

section \<open>The broker pod (internal/builder/statefulset.go, affinity.go)\<close>

text \<open>
  The pod the operator runs the broker in: its volumes, its two init containers, the broker, the
  reloader and the exporter, and the anti-affinity term. The Kubernetes types are records with
  the fields the builder sets; a field it leaves unset is the empty list or \<open>None\<close>. The theory
  shows which container is shown which key of which Secret, and that all of them run under the
  restricted security context.
\<close>

definition BrokerContainerName :: string where "BrokerContainerName = ''mosquitto''"
definition ConfigCheckContainerName :: string where "ConfigCheckContainerName = ''config-check''"
definition AuthInitContainerName :: string where "AuthInitContainerName = ''auth-init''"
definition ReloaderContainerName :: string where "ReloaderContainerName = ''reloader''"
definition ExporterContainerName :: string where "ExporterContainerName = ''exporter''"
definition OperatorBinary :: string where "OperatorBinary = ''/app/manager''"
definition ExporterBinary :: string where "ExporterBinary = ''/app/exporter''"
definition ExporterPort :: int where "ExporterPort = 9234"
definition ExporterPortName :: string where "ExporterPortName = ''metrics''"
definition ExporterPasswordKey :: string where "ExporterPasswordKey = ''exporter-password''"
definition ExporterSecretVolumeName :: string where "ExporterSecretVolumeName = ''exporter-secret''"
definition ExporterSecretMountPath :: string where "ExporterSecretMountPath = ''/mosquitto/exporter''"
definition ConfigVolumeName :: string where "ConfigVolumeName = ''config''"
definition TLSVolumeName :: string where "TLSVolumeName = ''tls''"
definition DataVolumeName :: string where "DataVolumeName = ''data''"
definition ConfigCheckScratchVolumeName :: string where
  "ConfigCheckScratchVolumeName = ''config-check-scratch''"
definition AuthSecretVolumeName :: string where "AuthSecretVolumeName = ''auth-secret''"
definition AuthVolumeName :: string where "AuthVolumeName = ''auth''"
definition AuthSecretMountPath :: string where "AuthSecretMountPath = ''/mosquitto/auth-secret''"
definition brokerUserID :: int where "brokerUserID = 1883"
definition volumeDefaultMode :: int where "volumeDefaultMode = 420"
definition authSecretMode :: int where "authSecretMode = 288"

lemmas pod_names [go_eval] = BrokerContainerName_def ConfigCheckContainerName_def
  AuthInitContainerName_def ReloaderContainerName_def ExporterContainerName_def
  ExporterSecretVolumeName_def ConfigVolumeName_def TLSVolumeName_def DataVolumeName_def
  ConfigCheckScratchVolumeName_def AuthSecretVolumeName_def AuthVolumeName_def

subsection \<open>The Kubernetes types\<close>

datatype volume_source =
    ConfigMapSource (srcConfigMap: string) (srcMode: int)
  | SecretSource (srcSecret: string) (srcItems: "(string \<times> string) list") (srcMode: int)
  | EmptyDirSource

record volume =
  volName :: string
  volSource :: volume_source

record volume_mount =
  vmName :: string
  vmPath :: string
  vmReadOnly :: bool

record container_port =
  cpName :: string
  cpContainerPort :: int
  cpProtocol :: string

record probe =
  prTCPPort :: int
  prInitialDelay :: int
  prPeriod :: int
  prTimeout :: int
  prSuccess :: int
  prFailure :: int

record security_context =
  scAllowPrivilegeEscalation :: bool
  scReadOnlyRootFilesystem :: bool
  scDropCapabilities :: "string list"

record container =
  cName :: string
  cImage :: string
  cCommand :: "string list"
  cArgs :: "string list"
  cPorts :: "container_port list"
  cVolumeMounts :: "volume_mount list"
  cReadiness :: "probe option"
  cLiveness :: "probe option"
  cResources :: resource_requirements
  cSecurityContext :: security_context

record pod_affinity_term =
  patMatchLabels :: strmap
  patTopologyKey :: string

record affinity =
  affRequired :: "pod_affinity_term list"
  affPreferred :: "(int \<times> pod_affinity_term) list"

record pod_security_context =
  pscRunAsNonRoot :: bool
  pscRunAsUser :: int
  pscRunAsGroup :: int
  pscFSGroup :: int
  pscSeccompProfile :: string

record pod_spec =
  psAutomountToken :: bool
  psSecurityContext :: pod_security_context
  psShareProcessNamespace :: bool
  psInitContainers :: "container list"
  psContainers :: "container list"
  psVolumes :: "volume list"
  psAffinity :: "affinity option"

record pod_options =
  ReloaderImage :: string

definition ProtocolTCP :: string where "ProtocolTCP = ''TCP''"

subsection \<open>Anti-affinity\<close>

definition BuildPodAntiAffinity :: "mosquitto \<Rightarrow> affinity option" where
  "BuildPodAntiAffinity m =
     (let mode = AntiAffinityMode m;
          trm = \<lparr>patMatchLabels = SelectorLabels m, patTopologyKey = AntiAffinityTopologyKey\<rparr>
      in if mode = AntiAffinityModeOff then None
         else if mode = AntiAffinityModeHard then Some \<lparr>affRequired = [trm], affPreferred = []\<rparr>
         else Some \<lparr>affRequired = [], affPreferred = [(AntiAffinityWeight, trm)]\<rparr>)"

subsection \<open>The containers\<close>

definition reloaderResources :: resource_requirements where
  "reloaderResources = \<lparr>
     resRequests = fmap_of_list [(''cpu'', Quantity ''10m''), (''memory'', Quantity ''32Mi'')],
     resLimits = fmap_of_list [(''memory'', Quantity ''64Mi'')]\<rparr>"

definition containerSecurityContext :: security_context where
  "containerSecurityContext = \<lparr>scAllowPrivilegeEscalation = False, scReadOnlyRootFilesystem = True,
     scDropCapabilities = [''ALL'']\<rparr>"

definition mount :: "string \<Rightarrow> string \<Rightarrow> bool \<Rightarrow> volume_mount" where
  "mount name path ro = \<lparr>vmName = name, vmPath = path, vmReadOnly = ro\<rparr>"

definition buildConfigCheckContainer :: "mosquitto \<Rightarrow> container" where
  "buildConfigCheckContainer m = \<lparr>
     cName = ConfigCheckContainerName,
     cImage = ResolveImage m,
     cCommand = [''/usr/sbin/mosquitto'', ''-c'', ConfigMountPath @ ''/'' @ ConfigKey, ''--test-config''],
     cArgs = [],
     cPorts = [],
     cVolumeMounts = [mount ConfigVolumeName ConfigMountPath True,
       mount ConfigCheckScratchVolumeName DataMountPath False],
     cReadiness = None,
     cLiveness = None,
     cResources = specResources (mSpec m),
     cSecurityContext = containerSecurityContext\<rparr>"

definition buildReloadContainer :: "string \<Rightarrow> pod_options \<Rightarrow> string list \<Rightarrow> container" where
  "buildReloadContainer name opts extraArgs = \<lparr>
     cName = name,
     cImage = ReloaderImage opts,
     cCommand = [OperatorBinary],
     cArgs = [''reload'', ''--source'', AuthSecretMountPath, ''--target'', AuthMountPath] @ extraArgs,
     cPorts = [],
     cVolumeMounts = [mount AuthSecretVolumeName AuthSecretMountPath True,
       mount AuthVolumeName AuthMountPath False],
     cReadiness = None,
     cLiveness = None,
     cResources = reloaderResources,
     cSecurityContext = containerSecurityContext\<rparr>"

definition buildReloaderSidecar :: "mosquitto \<Rightarrow> pod_options \<Rightarrow> container" where
  "buildReloaderSidecar m opts =
     (if \<not> IsTLSEnabled m then buildReloadContainer ReloaderContainerName opts []
      else (let c = buildReloadContainer ReloaderContainerName opts [''--tls-dir'', TLSMountPath]
            in c\<lparr>cVolumeMounts := cVolumeMounts c @ [mount TLSVolumeName TLSMountPath True]\<rparr>))"

definition buildExporterContainer :: "mosquitto \<Rightarrow> pod_options \<Rightarrow> container" where
  "buildExporterContainer m opts =
     (let args = [''--broker'', ''tcp://127.0.0.1:'' @ go_itoa_int MQTTPort,
            ''--password-file'', ExporterSecretMountPath @ ''/password'',
            ''--listen'', '':'' @ go_itoa_int ExporterPort];
          mounts = [mount ExporterSecretVolumeName ExporterSecretMountPath True];
          (args, mounts) =
            (if IsTLSEnabled m
             then (args[1 := ''ssl://127.0.0.1:'' @ go_itoa_int MQTTSPort] @
                     [''--tls-cert'', TLSMountPath @ ''/'' @ TLSCertKey],
                   mounts @ [mount TLSVolumeName TLSMountPath True])
             else (args, mounts))
      in \<lparr>cName = ExporterContainerName,
          cImage = ReloaderImage opts,
          cCommand = [ExporterBinary],
          cArgs = args,
          cPorts = [\<lparr>cpName = ExporterPortName, cpContainerPort = ExporterPort,
            cpProtocol = ProtocolTCP\<rparr>],
          cVolumeMounts = mounts,
          cReadiness = None,
          cLiveness = None,
          cResources = reloaderResources,
          cSecurityContext = containerSecurityContext\<rparr>)"

definition buildBrokerContainer :: "mosquitto \<Rightarrow> container" where
  "buildBrokerContainer m =
     (let volumeMounts = [mount ConfigVolumeName ConfigMountPath True,
            mount DataVolumeName DataMountPath False, mount AuthVolumeName AuthMountPath True];
          volumeMounts = (if IsTLSEnabled m
            then volumeMounts @ [mount TLSVolumeName TLSMountPath True] else volumeMounts);
          port = BrokerPort m
      in \<lparr>cName = BrokerContainerName,
          cImage = ResolveImage m,
          cCommand = [''/usr/sbin/mosquitto'', ''-c'', ConfigMountPath @ ''/'' @ ConfigKey],
          cArgs = [],
          cPorts = [\<lparr>cpName = BrokerPortName m, cpContainerPort = port, cpProtocol = ProtocolTCP\<rparr>],
          cVolumeMounts = volumeMounts,
          cReadiness = Some \<lparr>prTCPPort = port, prInitialDelay = 5, prPeriod = 5, prTimeout = 3,
            prSuccess = 1, prFailure = 3\<rparr>,
          cLiveness = Some \<lparr>prTCPPort = port, prInitialDelay = 15, prPeriod = 10, prTimeout = 5,
            prSuccess = 1, prFailure = 5\<rparr>,
          cResources = specResources (mSpec m),
          cSecurityContext = containerSecurityContext\<rparr>)"

subsection \<open>The pod\<close>

definition tls_secret :: "mosquitto \<Rightarrow> string" where
  "tls_secret m = (case specTLS (mSpec m) of None \<Rightarrow> '''' | Some t \<Rightarrow> tlsSecretName t)"

definition buildPodSpec :: "mosquitto \<Rightarrow> pod_options \<Rightarrow> pod_spec" where
  "buildPodSpec m opts =
     (let volumes =
           [\<lparr>volName = ConfigVolumeName, volSource = ConfigMapSource (ConfigMapName m) volumeDefaultMode\<rparr>,
            \<lparr>volName = AuthSecretVolumeName, volSource = SecretSource (AuthSecretName m)
               [(ACLKey, ACLKey), (PasswdKey, PasswdKey)] authSecretMode\<rparr>,
            \<lparr>volName = AuthVolumeName, volSource = EmptyDirSource\<rparr>];
          volumes = (if IsTLSEnabled m
            then volumes @ [\<lparr>volName = TLSVolumeName,
              volSource = SecretSource (tls_secret m) [] volumeDefaultMode\<rparr>]
            else volumes);
          volumes = (if \<not> IsStorageEnabled m
            then volumes @ [\<lparr>volName = DataVolumeName, volSource = EmptyDirSource\<rparr>] else volumes);
          volumes = volumes @ [\<lparr>volName = ConfigCheckScratchVolumeName, volSource = EmptyDirSource\<rparr>];
          containers = [buildBrokerContainer m, buildReloaderSidecar m opts];
          (volumes, containers) = (if IsMetricsEnabled m
            then (volumes @ [\<lparr>volName = ExporterSecretVolumeName, volSource = SecretSource (AuthSecretName m)
                    [(ExporterPasswordKey, ''password'')] authSecretMode\<rparr>],
                  containers @ [buildExporterContainer m opts])
            else (volumes, containers))
      in \<lparr>psAutomountToken = False,
          psSecurityContext = \<lparr>pscRunAsNonRoot = True, pscRunAsUser = brokerUserID,
            pscRunAsGroup = brokerUserID, pscFSGroup = brokerUserID, pscSeccompProfile = ''RuntimeDefault''\<rparr>,
          psShareProcessNamespace = True,
          psInitContainers = [buildReloadContainer AuthInitContainerName opts [''--once''],
            buildConfigCheckContainer m],
          psContainers = containers,
          psVolumes = volumes,
          psAffinity = BuildPodAntiAffinity m\<rparr>)"

subsection \<open>Who sees what\<close>

definition pod_containers :: "pod_spec \<Rightarrow> container list" where
  "pod_containers ps = psInitContainers ps @ psContainers ps"

text \<open>
  The Secrets a container mounts: directory, Secret, and the projected items. A projection without
  items shows every key of the Secret under its own name, one with items shows only these.
\<close>

definition secret_mounts :: "pod_spec \<Rightarrow> container \<Rightarrow> (string \<times> string \<times> (string \<times> string) list) list" where
  "secret_mounts ps c = concat (map (\<lambda>mt. concat (map (\<lambda>v. case volSource v of
       SecretSource name items _ \<Rightarrow> if volName v = vmName mt then [(vmPath mt, name, items)] else []
     | _ \<Rightarrow> []) (psVolumes ps))) (cVolumeMounts c))"

definition reads_key :: "pod_spec \<Rightarrow> string \<Rightarrow> string \<Rightarrow> container \<Rightarrow> bool" where
  "reads_key ps sec key c \<longleftrightarrow>
     list_ex (\<lambda>(dir, name, items). name = sec \<and> (items = [] \<or> key \<in> fst ` set items)) (secret_mounts ps c)"

definition readers :: "pod_spec \<Rightarrow> string \<Rightarrow> string \<Rightarrow> string set" where
  "readers ps sec key = cName ` set (filter (reads_key ps sec key) (pod_containers ps))"

text \<open>The directories and files of a Secret in a container.\<close>

definition shows_file :: "pod_spec \<Rightarrow> container \<Rightarrow> string \<Rightarrow> string \<Rightarrow> string \<Rightarrow> bool" where
  "shows_file ps c path sec key \<longleftrightarrow>
     list_ex (\<lambda>(dir, name, items). name = sec \<and>
       (if items = [] then path = dir @ ''/'' @ key
        else list_ex (\<lambda>(k, file). k = key \<and> path = dir @ ''/'' @ file) items)) (secret_mounts ps c)"

text \<open>A directory of a container that is backed by a volume of the pod: the source and whether it is writable.\<close>

definition mounted_at :: "pod_spec \<Rightarrow> container \<Rightarrow> string \<Rightarrow> (string \<times> volume_source \<times> bool) list" where
  "mounted_at ps c dir = concat (map (\<lambda>mt. concat (map (\<lambda>v.
     if volName v = vmName mt \<and> vmPath mt = dir then [(volName v, volSource v, \<not> vmReadOnly mt)] else [])
     (psVolumes ps))) (cVolumeMounts c))"

definition mounts_volume :: "container \<Rightarrow> string \<Rightarrow> bool" where
  "mounts_volume c v \<longleftrightarrow> v \<in> vmName ` set (cVolumeMounts c)"

definition mounted_by :: "pod_spec \<Rightarrow> string \<Rightarrow> string set" where
  "mounted_by ps v = cName ` set (filter (\<lambda>c. mounts_volume c v) (pod_containers ps))"

text \<open>The containers that may write to a volume.\<close>

definition writers :: "pod_spec \<Rightarrow> string \<Rightarrow> string set" where
  "writers ps v = cName ` set (filter (\<lambda>c. list_ex (\<lambda>mt. vmName mt = v \<and> \<not> vmReadOnly mt) (cVolumeMounts c)) (pod_containers ps))"

lemmas container_defs = buildConfigCheckContainer_def buildReloadContainer_def buildReloaderSidecar_def
  buildExporterContainer_def buildBrokerContainer_def mount_def

lemma pod_volume_names:
  "volName ` set (psVolumes (buildPodSpec m opts)) =
     {ConfigVolumeName, AuthSecretVolumeName, AuthVolumeName, ConfigCheckScratchVolumeName} \<union>
     (if IsTLSEnabled m then {TLSVolumeName} else {}) \<union>
     (if IsStorageEnabled m then {} else {DataVolumeName}) \<union>
     (if IsMetricsEnabled m then {ExporterSecretVolumeName} else {})"
  by (simp add: buildPodSpec_def Let_def insert_commute)

lemma pod_containers_of:
  "pod_containers (buildPodSpec m opts) =
     [buildReloadContainer AuthInitContainerName opts [''--once''], buildConfigCheckContainer m,
      buildBrokerContainer m, buildReloaderSidecar m opts] @
     (if IsMetricsEnabled m then [buildExporterContainer m opts] else [])"
  by (simp add: pod_containers_def buildPodSpec_def Let_def)

lemma container_mounts:
  "vmName ` set (cVolumeMounts (buildReloadContainer n opts xs)) = {AuthSecretVolumeName, AuthVolumeName}"
  "vmName ` set (cVolumeMounts (buildConfigCheckContainer m)) = {ConfigVolumeName, ConfigCheckScratchVolumeName}"
  "vmName ` set (cVolumeMounts (buildBrokerContainer m)) =
     {ConfigVolumeName, DataVolumeName, AuthVolumeName} \<union> (if IsTLSEnabled m then {TLSVolumeName} else {})"
  "vmName ` set (cVolumeMounts (buildReloaderSidecar m opts)) =
     {AuthSecretVolumeName, AuthVolumeName} \<union> (if IsTLSEnabled m then {TLSVolumeName} else {})"
  "vmName ` set (cVolumeMounts (buildExporterContainer m opts)) =
     {ExporterSecretVolumeName} \<union> (if IsTLSEnabled m then {TLSVolumeName} else {})"
  by (auto simp: container_defs Let_def)

lemma container_names [simp]:
  "cName (buildReloadContainer n opts xs) = n"
  "cName (buildConfigCheckContainer m) = ConfigCheckContainerName"
  "cName (buildBrokerContainer m) = BrokerContainerName"
  "cName (buildReloaderSidecar m opts) = ReloaderContainerName"
  "cName (buildExporterContainer m opts) = ExporterContainerName"
  by (simp_all add: container_defs Let_def split_beta)

lemma container_contexts [simp]:
  "cSecurityContext (buildReloadContainer n opts xs) = containerSecurityContext"
  "cSecurityContext (buildConfigCheckContainer m) = containerSecurityContext"
  "cSecurityContext (buildBrokerContainer m) = containerSecurityContext"
  "cSecurityContext (buildReloaderSidecar m opts) = containerSecurityContext"
  "cSecurityContext (buildExporterContainer m opts) = containerSecurityContext"
  by (simp_all add: container_defs Let_def split_beta)

lemma volumes_of:
  "psVolumes (buildPodSpec m opts) =
     [\<lparr>volName = ConfigVolumeName, volSource = ConfigMapSource (ConfigMapName m) volumeDefaultMode\<rparr>,
      \<lparr>volName = AuthSecretVolumeName, volSource = SecretSource (AuthSecretName m)
         [(ACLKey, ACLKey), (PasswdKey, PasswdKey)] authSecretMode\<rparr>,
      \<lparr>volName = AuthVolumeName, volSource = EmptyDirSource\<rparr>] @
     (if IsTLSEnabled m then [\<lparr>volName = TLSVolumeName,
        volSource = SecretSource (tls_secret m) [] volumeDefaultMode\<rparr>] else []) @
     (if IsStorageEnabled m then [] else [\<lparr>volName = DataVolumeName, volSource = EmptyDirSource\<rparr>]) @
     [\<lparr>volName = ConfigCheckScratchVolumeName, volSource = EmptyDirSource\<rparr>] @
     (if IsMetricsEnabled m then [\<lparr>volName = ExporterSecretVolumeName, volSource = SecretSource (AuthSecretName m)
        [(ExporterPasswordKey, ''password'')] authSecretMode\<rparr>] else [])"
  by (simp add: buildPodSpec_def Let_def)

lemma mounts_of:
  "cVolumeMounts (buildReloadContainer n opts xs) =
     [mount AuthSecretVolumeName AuthSecretMountPath True, mount AuthVolumeName AuthMountPath False]"
  "cVolumeMounts (buildConfigCheckContainer m) =
     [mount ConfigVolumeName ConfigMountPath True, mount ConfigCheckScratchVolumeName DataMountPath False]"
  "cVolumeMounts (buildBrokerContainer m) = [mount ConfigVolumeName ConfigMountPath True,
     mount DataVolumeName DataMountPath False, mount AuthVolumeName AuthMountPath True] @
     (if IsTLSEnabled m then [mount TLSVolumeName TLSMountPath True] else [])"
  "cVolumeMounts (buildReloaderSidecar m opts) =
     [mount AuthSecretVolumeName AuthSecretMountPath True, mount AuthVolumeName AuthMountPath False] @
     (if IsTLSEnabled m then [mount TLSVolumeName TLSMountPath True] else [])"
  "cVolumeMounts (buildExporterContainer m opts) = mount ExporterSecretVolumeName ExporterSecretMountPath True #
     (if IsTLSEnabled m then [mount TLSVolumeName TLSMountPath True] else [])"
  by (simp_all add: buildConfigCheckContainer_def buildReloadContainer_def buildReloaderSidecar_def
      buildExporterContainer_def buildBrokerContainer_def Let_def)

text \<open>The Secrets each container of the pod mounts, with what is projected of them.\<close>

lemma secret_mounts_of:
  defines "tls \<equiv> \<lambda>m. if IsTLSEnabled m then [(TLSMountPath, tls_secret m, [])] else []"
  shows "secret_mounts (buildPodSpec m opts) (buildReloadContainer n opts' xs) =
      [(AuthSecretMountPath, AuthSecretName m, [(ACLKey, ACLKey), (PasswdKey, PasswdKey)])]"
    and "secret_mounts (buildPodSpec m opts) (buildConfigCheckContainer m) = []"
    and "secret_mounts (buildPodSpec m opts) (buildBrokerContainer m) = tls m"
    and "secret_mounts (buildPodSpec m opts) (buildReloaderSidecar m opts) =
      (AuthSecretMountPath, AuthSecretName m, [(ACLKey, ACLKey), (PasswdKey, PasswdKey)]) # tls m"
    and "IsMetricsEnabled m \<Longrightarrow> secret_mounts (buildPodSpec m opts) (buildExporterContainer m opts) =
      (ExporterSecretMountPath, AuthSecretName m, [(ExporterPasswordKey, ''password'')]) # tls m"
  by (simp_all add: secret_mounts_def volumes_of mounts_of mount_def pod_names tls_def)

text \<open>C31: which container of a broker pod sees which key of which Secret. Of the rendered Secret, the hashes and
  the acl are shown to the reloader and its init form only, the exporter's password to the exporter only, and
  no other key to anybody; the TLS Secret is shown to the broker, the reloader and the exporter, to check and pin the
  certificate, and no further Secret is mounted. The copies are written by the two reloaders, and the
  broker reads them; the persistent data is the broker's alone.\<close>

theorem pod_volume_access:
  "readers (buildPodSpec m opts) sec key =
     (if sec = AuthSecretName m \<and> key \<in> {PasswdKey, ACLKey} then {AuthInitContainerName, ReloaderContainerName} else {}) \<union>
     (if sec = AuthSecretName m \<and> key = ExporterPasswordKey \<and> IsMetricsEnabled m then {ExporterContainerName} else {}) \<union>
     (if IsTLSEnabled m \<and> sec = tls_secret m
      then {BrokerContainerName, ReloaderContainerName} \<union> (if IsMetricsEnabled m then {ExporterContainerName} else {})
      else {}) \<and>
   mounted_by (buildPodSpec m opts) AuthVolumeName = {AuthInitContainerName, BrokerContainerName, ReloaderContainerName} \<and>
   writers (buildPodSpec m opts) AuthVolumeName = {AuthInitContainerName, ReloaderContainerName} \<and>
   mounted_by (buildPodSpec m opts) DataVolumeName = {BrokerContainerName}"
proof (intro conjI)
  show "readers (buildPodSpec m opts) sec key =
     (if sec = AuthSecretName m \<and> key \<in> {PasswdKey, ACLKey} then {AuthInitContainerName, ReloaderContainerName} else {}) \<union>
     (if sec = AuthSecretName m \<and> key = ExporterPasswordKey \<and> IsMetricsEnabled m then {ExporterContainerName} else {}) \<union>
     (if IsTLSEnabled m \<and> sec = tls_secret m
      then {BrokerContainerName, ReloaderContainerName} \<union> (if IsMetricsEnabled m then {ExporterContainerName} else {})
      else {})"
    by (cases "IsTLSEnabled m"; cases "IsMetricsEnabled m"; cases "sec = AuthSecretName m"; cases "sec = tls_secret m")
      (auto simp: readers_def pod_containers_of reads_key_def secret_mounts_of)
  show "mounted_by (buildPodSpec m opts) AuthVolumeName = {AuthInitContainerName, BrokerContainerName, ReloaderContainerName}"
    "mounted_by (buildPodSpec m opts) DataVolumeName = {BrokerContainerName}"
    by (simp_all add: mounted_by_def pod_containers_of mounts_volume_def container_mounts pod_names insert_commute)
  show "writers (buildPodSpec m opts) AuthVolumeName = {AuthInitContainerName, ReloaderContainerName}"
    by (auto simp: writers_def pod_containers_of mounts_of mount_def pod_names)
qed

end
