(* ===== verification/Workload.thy ===== *)
theory Workload
  imports PodSpec "HOL-Library.Word"
begin

section \<open>The objects of a broker (internal/builder/statefulset.go, service.go, auth_secret.go)\<close>

text \<open>
  The StatefulSet, the two Services and the Secret built for a broker, the digest of the pod
  spec and of the configuration, and the two functions an update of a StatefulSet goes through:
  the comparison (\<open>StatefulSetHasChanged\<close>) and the merge (\<open>MergeStatefulSet\<close>). The JSON
  encoding of the Kubernetes type \<open>PodSpec\<close> and the parser of quantities are parameters, the
  fields of \<open>kube_lib\<close>. The locale \<open>reconciled\<close> is the contract between a comparison and a
  merge the controller relies on; it is interpreted on all four kinds.
\<close>

unbundle bit_operations_syntax

definition AnnotationPodSpecHash :: string where
  "AnnotationPodSpecHash = ''mko.gtrfc.com/pod-spec-hash''"
definition AnnotationConfigHash :: string where
  "AnnotationConfigHash = ''mko.gtrfc.com/config-hash''"
definition AnnotationDefaultContainer :: string where
  "AnnotationDefaultContainer = ''kubectl.kubernetes.io/default-container''"
definition AnnotationAppliedPodLabels :: string where
  "AnnotationAppliedPodLabels = ''mko.gtrfc.com/applied-pod-labels''"
definition AnnotationAppliedPodAnnotations :: string where
  "AnnotationAppliedPodAnnotations = ''mko.gtrfc.com/applied-pod-annotations''"

lemmas annotation_names [go_eval] = AnnotationPodSpecHash_def AnnotationConfigHash_def
  AnnotationDefaultContainer_def AnnotationAppliedPodLabels_def AnnotationAppliedPodAnnotations_def

subsection \<open>The digest\<close>

text \<open>\<open>json.Marshal\<close> of a string, with the escapes of \<open>encoding/json\<close>.\<close>

definition json_rune :: "nat \<times> string \<Rightarrow> string" where
  "json_rune p =
     (let r = fst p in
      if \<not> rune_valid p then CHR 0x5C # ''ufffd''
      else if r = 34 \<or> r = 92 then CHR 0x5C # snd p
      else if r = 8 then [CHR 0x5C, CHR ''b'']
      else if r = 12 then [CHR 0x5C, CHR ''f'']
      else if r = 10 then [CHR 0x5C, CHR ''n'']
      else if r = 13 then [CHR 0x5C, CHR ''r'']
      else if r = 9 then [CHR 0x5C, CHR ''t'']
      else if r < 32 \<or> r = 60 \<or> r = 62 \<or> r = 38 \<or> r = 8232 \<or> r = 8233
      then [CHR 0x5C, CHR ''u''] @ hex_pad 4 r
      else snd p)"

definition json_string :: "string \<Rightarrow> string" where
  "json_string s = [CHR 0x22] @ concat (map json_rune (runes s)) @ [CHR 0x22]"

definition fnv_offset :: "32 word" where "fnv_offset = 2166136261"
definition fnv_prime :: "32 word" where "fnv_prime = 16777619"

definition fnv32a :: "string \<Rightarrow> 32 word" where
  "fnv32a s = foldl (\<lambda>h c. (h XOR word_of_nat (of_char c)) * fnv_prime) fnv_offset s"

text \<open>\<open>hashOf\<close> on the JSON encoding of its argument.\<close>

definition hashOf :: "string \<Rightarrow> string" where
  "hashOf json = hex_pad 8 (unat (fnv32a json))"

lemma length_hex_pad [simp]: "length (hex_pad k n) = k"
  by (induction k arbitrary: n) simp_all

lemma hashOf_length: "length (hashOf json) = 8"
  by (simp add: hashOf_def)

subsection \<open>Services and the Secret\<close>

record service_port =
  spName :: string
  spPort :: int
  spTargetPort :: string
  spProtocol :: string

record service =
  svcMeta :: object_meta
  svcType :: string
  svcClusterIP :: string
  svcSelector :: strmap
  svcPublishNotReady :: bool
  svcPorts :: "service_port list"

record secret =
  secMeta :: object_meta
  secType :: string
  secData :: strmap
  secStringData :: strmap

definition brokerServicePort :: "mosquitto \<Rightarrow> service_port" where
  "brokerServicePort m = \<lparr>spName = BrokerPortName m, spPort = BrokerPort m,
     spTargetPort = BrokerPortName m, spProtocol = ProtocolTCP\<rparr>"

definition BuildHeadlessService :: "mosquitto \<Rightarrow> service" where
  "BuildHeadlessService m = \<lparr>
     svcMeta = object_meta_of (HeadlessServiceName m) (mNamespace m) (BaseLabels m (ResolveImage m)) fmempty,
     svcType = ''ClusterIP'', svcClusterIP = ''None'', svcSelector = SelectorLabels m,
     svcPublishNotReady = True, svcPorts = [brokerServicePort m]\<rparr>"

definition BuildClientService :: "mosquitto \<Rightarrow> service" where
  "BuildClientService m = \<lparr>
     svcMeta = object_meta_of (ClientServiceName m) (mNamespace m) (BaseLabels m (ResolveImage m)) fmempty,
     svcType = ''ClusterIP'', svcClusterIP = '''', svcSelector = SelectorLabels m,
     svcPublishNotReady = False, svcPorts = [brokerServicePort m]\<rparr>"

definition BuildAuthSecret :: "mosquitto \<Rightarrow> strmap \<Rightarrow> secret" where
  "BuildAuthSecret m data = \<lparr>
     secMeta = object_meta_of (AuthSecretName m) (mNamespace m) (BaseLabels m (ResolveImage m)) fmempty,
     secType = ''Opaque'', secData = data, secStringData = fmempty\<rparr>"

subsection \<open>The StatefulSet\<close>

record pod_template =
  ptLabels :: strmap
  ptAnnotations :: strmap
  ptSpec :: pod_spec

record volume_claim =
  pvcName :: string
  pvcLabels :: strmap
  pvcAccessModes :: "string list"
  pvcStorageClassName :: "string option"
  pvcRequests :: "(string, quantity) fmap"

record stateful_set =
  stsMeta :: object_meta
  stsReplicas :: "int option"
  stsServiceName :: string
  stsSelector :: strmap
  stsTemplate :: pod_template
  stsVolumeClaimTemplates :: "volume_claim list"
  stsReadyReplicas :: int

record kube_lib =
  klMarshalPodSpec :: "pod_spec \<Rightarrow> string"
  klParseQuantity :: "string \<Rightarrow> quantity result"
  klIsPrint :: "nat \<Rightarrow> bool"

definition buildVolumeClaimTemplates :: "kube_lib \<Rightarrow> mosquitto \<Rightarrow> volume_claim list result" where
  "buildVolumeClaimTemplates kl m =
     (let (sz, cls) = (case specStorage (mSpec m) of None \<Rightarrow> ('''', None)
                       | Some s \<Rightarrow> (storageSize s, storageClassName s))
      in bindR (wrap_err (''parsing spec.storage.size '' @ go_quote (klIsPrint kl) sz) (klParseQuantity kl sz))
        (\<lambda>q. Inr [\<lparr>pvcName = DataVolumeName, pvcLabels = BaseLabels m (ResolveImage m),
           pvcAccessModes = [''ReadWriteOnce''], pvcStorageClassName = cls,
           pvcRequests = fmap_of_list [(''storage'', q)]\<rparr>]))"

definition BuildStatefulSet :: "kube_lib \<Rightarrow> mosquitto \<Rightarrow> pod_options \<Rightarrow> stateful_set result" where
  "BuildStatefulSet kl m opts =
     (if ReloaderImage opts = '''' then Inl ''no reloader image is configured (--reloader-image)''
      else
        (let podSpec = buildPodSpec m opts;
             labels = BaseLabels m (ResolveImage m);
             sts = \<lparr>
               stsMeta = object_meta_of (StatefulSetName m) (mNamespace m) labels
                 (fmap_of_list [(AnnotationAppliedPodLabels, JoinKeys (specPodLabels (mSpec m))),
                    (AnnotationAppliedPodAnnotations, JoinKeys (specPodAnnotations (mSpec m)))]),
               stsReplicas = Some (specReplicas (mSpec m)),
               stsServiceName = HeadlessServiceName m,
               stsSelector = SelectorLabels m,
               stsTemplate = \<lparr>
                 ptLabels = MergeLabels (specPodLabels (mSpec m)) labels,
                 ptAnnotations = MergeLabels (specPodAnnotations (mSpec m))
                   (fmap_of_list [(AnnotationPodSpecHash, hashOf (klMarshalPodSpec kl podSpec)),
                      (AnnotationConfigHash, hashOf (json_string (GenerateMosquittoConf m))),
                      (AnnotationDefaultContainer, BrokerContainerName)]),
                 ptSpec = podSpec\<rparr>,
               stsVolumeClaimTemplates = [],
               stsReadyReplicas = 0\<rparr>
         in if IsStorageEnabled m
            then bindR (buildVolumeClaimTemplates kl m)
              (\<lambda>templates. Inr (sts\<lparr>stsVolumeClaimTemplates := templates\<rparr>))
            else Inr sts))"

definition withoutKeys :: "strmap \<Rightarrow> string list \<Rightarrow> strmap" where
  "withoutKeys m ks = fold fmdrop ks (MergeLabels m fmempty)"

definition StatefulSetHasChanged :: "stateful_set \<Rightarrow> stateful_set \<Rightarrow> bool" where
  "StatefulSetHasChanged desired current =
     (if (case (stsReplicas desired, stsReplicas current) of (Some d, Some c) \<Rightarrow> d \<noteq> c | _ \<Rightarrow> False)
      then True
      else MapEntriesMissing (metaLabels (stsMeta desired)) (metaLabels (stsMeta current)) \<or>
        MapEntriesMissing (metaAnnotations (stsMeta desired)) (metaAnnotations (stsMeta current)) \<or>
        MapEntriesMissing (ptLabels (stsTemplate desired)) (ptLabels (stsTemplate current)) \<or>
        MapEntriesMissing (ptAnnotations (stsTemplate desired)) (ptAnnotations (stsTemplate current)))"

definition MergeStatefulSet :: "stateful_set \<Rightarrow> stateful_set \<Rightarrow> stateful_set" where
  "MergeStatefulSet current desired =
     (let template = stsTemplate desired;
          template = template\<lparr>ptLabels := MergeLabels
            (withoutKeys (ptLabels (stsTemplate current))
              (RemovedKeys (go_get (metaAnnotations (stsMeta current)) AnnotationAppliedPodLabels)
                 (go_get (metaAnnotations (stsMeta desired)) AnnotationAppliedPodLabels)))
            (ptLabels template)\<rparr>;
          template = template\<lparr>ptAnnotations := MergeLabels
            (withoutKeys (ptAnnotations (stsTemplate current))
              (RemovedKeys (go_get (metaAnnotations (stsMeta current)) AnnotationAppliedPodAnnotations)
                 (go_get (metaAnnotations (stsMeta desired)) AnnotationAppliedPodAnnotations)))
            (ptAnnotations template)\<rparr>;
          meta = stsMeta current;
          meta = meta\<lparr>metaLabels := MergeLabels (metaLabels meta) (metaLabels (stsMeta desired))\<rparr>;
          meta = meta\<lparr>metaAnnotations := MergeLabels (metaAnnotations meta) (metaAnnotations (stsMeta desired))\<rparr>
      in current\<lparr>stsMeta := meta, stsReplicas := stsReplicas desired, stsTemplate := template\<rparr>)"

subsection \<open>The maps of a built StatefulSet\<close>

lemma BuildStatefulSet_Inr:
  assumes "BuildStatefulSet kl m opts = Inr d"
  shows "stsMeta d = object_meta_of (StatefulSetName m) (mNamespace m) (BaseLabels m (ResolveImage m))
      (fmap_of_list [(AnnotationAppliedPodLabels, JoinKeys (specPodLabels (mSpec m))),
         (AnnotationAppliedPodAnnotations, JoinKeys (specPodAnnotations (mSpec m)))])"
    and "stsReplicas d = Some (specReplicas (mSpec m))"
    and "stsSelector d = SelectorLabels m"
    and "ptSpec (stsTemplate d) = buildPodSpec m opts"
    and "ptLabels (stsTemplate d) = MergeLabels (specPodLabels (mSpec m)) (BaseLabels m (ResolveImage m))"
    and "ptAnnotations (stsTemplate d) = MergeLabels (specPodAnnotations (mSpec m))
      (fmap_of_list [(AnnotationPodSpecHash, hashOf (klMarshalPodSpec kl (buildPodSpec m opts))),
         (AnnotationConfigHash, hashOf (json_string (GenerateMosquittoConf m))),
         (AnnotationDefaultContainer, BrokerContainerName)])"
    and "map pvcName (stsVolumeClaimTemplates d) = (if IsStorageEnabled m then [DataVolumeName] else [])"
    and "ReloaderImage opts \<noteq> ''''"
  using assms by (auto simp: BuildStatefulSet_def Let_def buildVolumeClaimTemplates_def split: if_splits prod.splits)

lemma annotations_distinct:
  "distinct [AnnotationPodSpecHash, AnnotationConfigHash, AnnotationDefaultContainer,
     AnnotationAppliedPodLabels, AnnotationAppliedPodAnnotations]"
  by (simp add: annotation_names)

lemma applied_annotations:
  assumes "BuildStatefulSet kl m opts = Inr d"
  shows "fmlookup (metaAnnotations (stsMeta d)) AnnotationAppliedPodLabels
      = Some (JoinKeys (specPodLabels (mSpec m)))"
    and "fmlookup (metaAnnotations (stsMeta d)) AnnotationAppliedPodAnnotations
      = Some (JoinKeys (specPodAnnotations (mSpec m)))"
  using BuildStatefulSet_Inr(1) [OF assms] annotations_distinct by (simp_all add: fmlookup_of_list)

lemma hash_annotations:
  assumes "BuildStatefulSet kl m opts = Inr d"
  shows "fmlookup (ptAnnotations (stsTemplate d)) AnnotationPodSpecHash
      = Some (hashOf (klMarshalPodSpec kl (buildPodSpec m opts)))"
    and "fmlookup (ptAnnotations (stsTemplate d)) AnnotationConfigHash
      = Some (hashOf (json_string (GenerateMosquittoConf m)))"
  using BuildStatefulSet_Inr(6) [OF assms] annotations_distinct
  by (simp_all add: MergeLabels_lookup fmlookup_of_list)

text \<open>C25: the labels and annotations a user sets cannot detach or forge anything. Whatever spec.podLabels
  and spec.podAnnotations hold, the pods carry the labels the StatefulSet and both Services select,
  and the digests of the pod spec and of the configuration are the computed ones.\<close>

theorem pod_template_protected:
  assumes "BuildStatefulSet kl m opts = Inr d"
  shows "stsSelector d \<subseteq>\<^sub>f ptLabels (stsTemplate d) \<and>
    svcSelector (BuildHeadlessService m) \<subseteq>\<^sub>f ptLabels (stsTemplate d) \<and>
    svcSelector (BuildClientService m) \<subseteq>\<^sub>f ptLabels (stsTemplate d) \<and>
    fmlookup (ptAnnotations (stsTemplate d)) AnnotationPodSpecHash
      = Some (hashOf (klMarshalPodSpec kl (buildPodSpec m opts))) \<and>
    fmlookup (ptAnnotations (stsTemplate d)) AnnotationConfigHash
      = Some (hashOf (json_string (GenerateMosquittoConf m)))"
proof -
  have "SelectorLabels m \<subseteq>\<^sub>f ptLabels (stsTemplate d)"
    using SelectorLabels_sub_BaseLabels [of m _ _ "ResolveImage m"] BuildStatefulSet_Inr(5) [OF assms]
    by (auto simp: fmsubset_alt_def fmpred_iff MergeLabels_wins)
  then show ?thesis
    using BuildStatefulSet_Inr(3) [OF assms] hash_annotations [OF assms]
    by (simp add: BuildHeadlessService_def BuildClientService_def)
qed

subsection \<open>Volumes and ports\<close>

text \<open>C38: every volume a container of the pod mounts exists: it is declared in the pod or is the claim
  template of the StatefulSet.\<close>

theorem pod_mounts_declared:
  assumes "BuildStatefulSet kl m opts = Inr d" and "c \<in> set (pod_containers (ptSpec (stsTemplate d)))"
  shows "vmName ` set (cVolumeMounts c) \<subseteq>
    volName ` set (psVolumes (ptSpec (stsTemplate d))) \<union> set (map pvcName (stsVolumeClaimTemplates d))"
proof -
  have "vmName ` set (cVolumeMounts c) \<subseteq> volName ` set (psVolumes (buildPodSpec m opts)) \<union>
      set (if IsStorageEnabled m then [DataVolumeName] else [])"
    using assms(2) unfolding BuildStatefulSet_Inr(4) [OF assms(1)] pod_volume_names pod_containers_of
    by (cases "IsMetricsEnabled m"; simp; elim disjE) (simp_all add: container_mounts)
  then show ?thesis
    unfolding BuildStatefulSet_Inr(4) [OF assms(1)] BuildStatefulSet_Inr(7) [OF assms(1)] .
qed

lemma listener_line:
  "''listener '' @ go_itoa_int (BrokerPort m) \<in> set (go_split (CHR 0x0A) (GenerateMosquittoConf m))"
  unfolding conf_lines by (simp add: listener_lines_def BrokerPort_def)

text \<open>The port is one. The listener of the generated file, the port of the broker container, its two
  probes, both Services and the address the exporter dials name the same port, TLS or not.\<close>

theorem broker_port_consistent:
  "''listener '' @ go_itoa_int (BrokerPort m) \<in> set (go_split (CHR 0x0A) (GenerateMosquittoConf m)) \<and>
   map cpContainerPort (cPorts (buildBrokerContainer m)) = [BrokerPort m] \<and>
   map_option prTCPPort (cReadiness (buildBrokerContainer m)) = Some (BrokerPort m) \<and>
   map_option prTCPPort (cLiveness (buildBrokerContainer m)) = Some (BrokerPort m) \<and>
   svcPorts (BuildHeadlessService m) = svcPorts (BuildClientService m) \<and>
   map spPort (svcPorts (BuildClientService m)) = [BrokerPort m] \<and>
   map spTargetPort (svcPorts (BuildClientService m)) = map cpName (cPorts (buildBrokerContainer m)) \<and>
   cArgs (buildExporterContainer m opts) ! 1 =
     (if IsTLSEnabled m then ''ssl'' else ''tcp'') @ ''://127.0.0.1:'' @ go_itoa_int (BrokerPort m)"
  using listener_line [of m]
  by (simp add: buildBrokerContainer_def buildExporterContainer_def Let_def brokerServicePort_def
      BuildHeadlessService_def BuildClientService_def BrokerPort_def)

subsection \<open>The merge\<close>

lemma fmlookup_fold_fmdrop: "fmlookup (fold fmdrop ks m) k = (if k \<in> set ks then None else fmlookup m k)"
  by (induction ks arbitrary: m) auto

lemma withoutKeys_lookup [map_facts]:
  "fmlookup (withoutKeys m ks) k = (if k \<in> set ks then None else fmlookup m k)"
  by (simp add: withoutKeys_def fmlookup_fold_fmdrop MergeLabels_lookup)

lemma withoutKeys_id: "(\<And>k. k \<in> set ks \<Longrightarrow> fmlookup m k = None) \<Longrightarrow> withoutKeys m ks = m"
  by (rule fmap_ext) (simp add: withoutKeys_lookup)

lemma RemovedKeys_same [simp]: "RemovedKeys a a = []"
  by (simp add: RemovedKeys_def)

definition merged_map :: "strmap \<Rightarrow> string \<Rightarrow> string \<Rightarrow> strmap \<Rightarrow> strmap" where
  "merged_map cur applied_cur applied_des des =
     MergeLabels (withoutKeys cur (RemovedKeys applied_cur applied_des)) des"

lemma merged_map_idem:
  assumes "applied_cur' = applied_des \<or> applied_cur' = applied_cur"
  shows "merged_map (merged_map cur applied_cur applied_des des) applied_cur' applied_des des
    = merged_map cur applied_cur applied_des des"
  using assms
  by (elim disjE; intro fmap_ext)
    (simp_all add: merged_map_def MergeLabels_lookup withoutKeys_lookup split: option.split)

lemma MergeStatefulSet_simps [simp]:
  "metaLabels (stsMeta (MergeStatefulSet c d)) = MergeLabels (metaLabels (stsMeta c)) (metaLabels (stsMeta d))"
  "metaAnnotations (stsMeta (MergeStatefulSet c d))
     = MergeLabels (metaAnnotations (stsMeta c)) (metaAnnotations (stsMeta d))"
  "stsReplicas (MergeStatefulSet c d) = stsReplicas d"
  "ptSpec (stsTemplate (MergeStatefulSet c d)) = ptSpec (stsTemplate d)"
  "stsVolumeClaimTemplates (MergeStatefulSet c d) = stsVolumeClaimTemplates c"
  "ptLabels (stsTemplate (MergeStatefulSet c d)) = merged_map (ptLabels (stsTemplate c))
     (go_get (metaAnnotations (stsMeta c)) AnnotationAppliedPodLabels)
     (go_get (metaAnnotations (stsMeta d)) AnnotationAppliedPodLabels) (ptLabels (stsTemplate d))"
  "ptAnnotations (stsTemplate (MergeStatefulSet c d)) = merged_map (ptAnnotations (stsTemplate c))
     (go_get (metaAnnotations (stsMeta c)) AnnotationAppliedPodAnnotations)
     (go_get (metaAnnotations (stsMeta d)) AnnotationAppliedPodAnnotations) (ptAnnotations (stsTemplate d))"
  by (simp_all add: MergeStatefulSet_def Let_def merged_map_def)

lemma MergeStatefulSet_rest:
  "stsMeta (MergeStatefulSet c d) = (stsMeta c)
     \<lparr>metaLabels := MergeLabels (metaLabels (stsMeta c)) (metaLabels (stsMeta d)),
      metaAnnotations := MergeLabels (metaAnnotations (stsMeta c)) (metaAnnotations (stsMeta d))\<rparr>"
  "stsServiceName (MergeStatefulSet c d) = stsServiceName c"
  "stsSelector (MergeStatefulSet c d) = stsSelector c"
  "stsReadyReplicas (MergeStatefulSet c d) = stsReadyReplicas c"
  "stateful_set.more (MergeStatefulSet c d) = stateful_set.more c"
  "pod_template.more (stsTemplate (MergeStatefulSet c d)) = pod_template.more (stsTemplate d)"
  by (simp_all add: MergeStatefulSet_def Let_def)

lemma go_get_MergeLabels: "go_get (MergeLabels a b) k = (if has_key b k then go_get b k else go_get a k)"
  by (simp add: go_get_def MergeLabels_lookup has_key_def split: option.split)

lemma MergeStatefulSet_settles: "\<not> StatefulSetHasChanged d (MergeStatefulSet c d)"
  by (simp add: StatefulSetHasChanged_def merged_map_def split: option.split)

lemma MergeStatefulSet_idem: "MergeStatefulSet (MergeStatefulSet c d) d = MergeStatefulSet c d"
proof -
  have ap: "go_get (MergeLabels a b) k = go_get b k \<or> go_get (MergeLabels a b) k = go_get a k" for a b k
    by (simp add: go_get_MergeLabels)
  let ?x = "MergeStatefulSet (MergeStatefulSet c d) d" and ?y = "MergeStatefulSet c d"
  have "ptLabels (stsTemplate ?x) = ptLabels (stsTemplate ?y)"
    "ptAnnotations (stsTemplate ?x) = ptAnnotations (stsTemplate ?y)"
    unfolding MergeStatefulSet_simps by (rule merged_map_idem, rule ap)+
  then have "stsTemplate ?x = stsTemplate ?y"
    by (intro pod_template.equality) (simp_all del: MergeStatefulSet_simps(6,7))
  moreover have "stsMeta ?x = stsMeta ?y"
    by (intro object_meta.equality) (simp_all add: MergeStatefulSet_rest)
  ultimately show ?thesis
    by (intro stateful_set.equality) (simp_all add: MergeStatefulSet_rest)
qed

text \<open>An update settles. After the merge the comparison finds nothing left to do, so an update is not
  repeated, and merging again changes nothing.\<close>

lemma stateful_set_update_settles:
  "\<not> StatefulSetHasChanged desired (MergeStatefulSet current desired) \<and>
   MergeStatefulSet (MergeStatefulSet current desired) desired = MergeStatefulSet current desired"
  by (simp add: MergeStatefulSet_settles MergeStatefulSet_idem del: MergeStatefulSet_simps)

text \<open>C24: an update removes exactly what left the spec. When the live object records the keys of an earlier
  spec.podLabels, the merged pod labels are the desired ones, without the recorded keys that are
  no longer listed, and with every other key of the live pods kept.\<close>

theorem stateful_set_merge_exact:
  assumes "BuildStatefulSet kl m opts = Inr d"
    and "plain_keys (specPodLabels (mSpec m))" and "plain_keys applied"
    and "go_get (metaAnnotations (stsMeta c)) AnnotationAppliedPodLabels = JoinKeys applied"
  shows "fmlookup (ptLabels (stsTemplate (MergeStatefulSet c d))) k =
    (case fmlookup (ptLabels (stsTemplate d)) k of
       Some v \<Rightarrow> Some v
     | None \<Rightarrow> if has_key applied k then None else fmlookup (ptLabels (stsTemplate c)) k)"
proof -
  have "go_get (metaAnnotations (stsMeta d)) AnnotationAppliedPodLabels = JoinKeys (specPodLabels (mSpec m))"
    using applied_annotations(1) [OF assms(1)] by (rule go_get_lookup)
  moreover have "\<not> has_key (specPodLabels (mSpec m)) k" if "fmlookup (ptLabels (stsTemplate d)) k = None"
    using that by (simp add: BuildStatefulSet_Inr(5) [OF assms(1)] MergeLabels_lookup has_key_def
        split: option.splits)
  ultimately show ?thesis
    using RemovedKeys_exact [OF assms(3,2)]
    by (simp add: merged_map_def MergeLabels_lookup withoutKeys_lookup assms(4) in_sorted_keys [symmetric]
        split: option.split)
qed

text \<open>An unchanged StatefulSet is a current one. When the comparison sees no difference, the live pods
  carry the digests of this configuration and this pod spec, the replica count is the wanted one,
  and every non-empty label and annotation of the spec is on the pods.\<close>

theorem stateful_set_unchanged_is_current:
  assumes "BuildStatefulSet kl m opts = Inr d" and "\<not> StatefulSetHasChanged d c"
  shows "go_get (ptAnnotations (stsTemplate c)) AnnotationConfigHash
      = hashOf (json_string (GenerateMosquittoConf m)) \<and>
    go_get (ptAnnotations (stsTemplate c)) AnnotationPodSpecHash
      = hashOf (klMarshalPodSpec kl (buildPodSpec m opts)) \<and>
    (stsReplicas c = None \<or> stsReplicas c = Some (specReplicas (mSpec m))) \<and>
    (\<forall>k v. fmlookup (ptLabels (stsTemplate d)) k = Some v \<and> v \<noteq> '''' \<longrightarrow>
       fmlookup (ptLabels (stsTemplate c)) k = Some v)"
proof -
  have h: "stsReplicas c = None \<or> stsReplicas c = stsReplicas d"
    "\<not> MapEntriesMissing (ptLabels (stsTemplate d)) (ptLabels (stsTemplate c))"
    "\<not> MapEntriesMissing (ptAnnotations (stsTemplate d)) (ptAnnotations (stsTemplate c))"
    using assms(2) BuildStatefulSet_Inr(2) [OF assms(1)]
    by (auto simp: StatefulSetHasChanged_def split: if_splits option.splits)
  have "fmlookup (ptLabels (stsTemplate c)) k = Some v"
    if "fmlookup (ptLabels (stsTemplate d)) k = Some v" "v \<noteq> ''''" for k v
    using not_MapEntriesMissingD [OF h(2) that(1)] that(2) by (auto simp: go_get_def split: option.splits)
  then show ?thesis
    using h(1) BuildStatefulSet_Inr(2) [OF assms(1)] hash_annotations [OF assms(1)]
      not_MapEntriesMissingD [OF h(3)] by auto
qed

subsection \<open>The objects of the sample broker\<close>

definition sample_kube :: kube_lib where
  "sample_kube = \<lparr>klMarshalPodSpec = (\<lambda>ps. concat (map cImage (pod_containers ps))), klParseQuantity = (\<lambda>s. Inr (Quantity s)),
     klIsPrint = (\<lambda>_. False)\<rparr>"

definition sample_options :: pod_options where
  "sample_options = \<lparr>ReloaderImage = ''operator:1''\<rparr>"

lemma sample_stateful_set:
  obtains d where "BuildStatefulSet sample_kube sample_broker sample_options = Inr d"
  by (cases "BuildStatefulSet sample_kube sample_broker sample_options")
    (auto simp: BuildStatefulSet_def Let_def buildVolumeClaimTemplates_def sample_kube_def sample_broker_def
      sample_options_def IsStorageEnabled_def)

lemma sample_instance: "fmlookup (SelectorLabels sample_broker) LabelInstance = Some ''mq''"
  by (simp add: SelectorLabels_def sample_broker_def LabelInstance_def LabelName_def LabelComponent_def
      LabelManagedBy_def fmlookup_of_list)

theorem pod_template_protected_witness:
  "\<exists>d. BuildStatefulSet sample_kube sample_broker sample_options = Inr d \<and>
     fmlookup (specPodLabels (mSpec sample_broker)) LabelInstance = Some ''forged'' \<and>
     fmlookup (ptLabels (stsTemplate d)) LabelInstance = Some ''mq''"
proof -
  obtain d where d: "BuildStatefulSet sample_kube sample_broker sample_options = Inr d"
    by (rule sample_stateful_set)
  have "fmlookup (specPodLabels (mSpec sample_broker)) LabelInstance = Some ''forged''"
    by (simp add: sample_broker_def LabelInstance_def fmlookup_of_list)
  moreover have "stsSelector d \<subseteq>\<^sub>f ptLabels (stsTemplate d)" using pod_template_protected [OF d] by blast
  then have "fmlookup (ptLabels (stsTemplate d)) LabelInstance = Some ''mq''"
    using sample_instance BuildStatefulSet_Inr(3) [OF d] by (simp add: fmsubset_alt_def fmpred_iff)
  ultimately show ?thesis using d by blast
qed

theorem pod_mounts_declared_witness:
  "\<exists>d. BuildStatefulSet sample_kube sample_broker sample_options = Inr d \<and>
     DataVolumeName \<in> volName ` set (psVolumes (ptSpec (stsTemplate d))) \<union> set (map pvcName (stsVolumeClaimTemplates d))"
proof -
  obtain d where d: "BuildStatefulSet sample_kube sample_broker sample_options = Inr d"
    by (rule sample_stateful_set)
  have c: "buildBrokerContainer sample_broker \<in> set (pod_containers (ptSpec (stsTemplate d)))"
    unfolding BuildStatefulSet_Inr(4) [OF d] pod_containers_of by simp
  have "DataVolumeName \<in> vmName ` set (cVolumeMounts (buildBrokerContainer sample_broker))"
    by (simp add: container_mounts sample_broker_def IsStorageEnabled_def)
  then show ?thesis using pod_mounts_declared [OF d c] d by blast
qed

theorem stateful_set_merge_exact_witness:
  "\<exists>d c. BuildStatefulSet sample_kube sample_broker sample_options = Inr d \<and>
     fmlookup (ptLabels (stsTemplate c)) ''old'' = Some ''x'' \<and>
     fmlookup (ptLabels (stsTemplate (MergeStatefulSet c d))) ''old'' = None \<and>
     fmlookup (ptLabels (stsTemplate (MergeStatefulSet c d))) ''mesh'' = Some ''on''"
proof -
  obtain d where d: "BuildStatefulSet sample_kube sample_broker sample_options = Inr d"
    by (rule sample_stateful_set)
  let ?applied = "fmap_of_list [(''old'', ''x'')] :: strmap"
  let ?c = "d\<lparr>stsMeta := (stsMeta d)\<lparr>metaAnnotations := fmap_of_list [(AnnotationAppliedPodLabels, ''old'')]\<rparr>,
     stsTemplate := (stsTemplate d)\<lparr>ptLabels := fmap_of_list [(''old'', ''x''), (''mesh'', ''on'')]\<rparr>\<rparr>"
  have keys: "plain_keys (specPodLabels (mSpec sample_broker))" "plain_keys ?applied" "JoinKeys ?applied = ''old''"
    by code_simp+
  have ann: "go_get (metaAnnotations (stsMeta ?c)) AnnotationAppliedPodLabels = JoinKeys ?applied"
    unfolding keys(3) by (simp add: go_get_def)
  have none: "fmlookup (ptLabels (stsTemplate d)) k = None" if "k = ''old'' \<or> k = ''mesh''" for k
    using that unfolding BuildStatefulSet_Inr(5) [OF d]
    by (auto simp: MergeLabels_lookup BaseLabels_def SelectorLabels_def sample_broker_def fmlookup_of_list
        LabelInstance_def LabelName_def LabelComponent_def LabelManagedBy_def LabelVersion_def)
  have m: "fmlookup (ptLabels (stsTemplate (MergeStatefulSet ?c d))) k = (if k = ''old'' then None else Some ''on'')"
    if "k = ''old'' \<or> k = ''mesh''" for k
    unfolding stateful_set_merge_exact [OF d keys(1,2) ann] none [OF that]
    using that by (auto simp: has_key_def)
  have "fmlookup (ptLabels (stsTemplate ?c)) ''old'' = Some ''x''" by simp
  then show ?thesis
    using m [of "''old''"] m [of "''mesh''"] by (intro exI [of _ d] exI [of _ ?c]) (simp only: d, simp)
qed

theorem stateful_set_unchanged_is_current_witness:
  "\<exists>d. BuildStatefulSet sample_kube sample_broker sample_options = Inr d \<and>
     fmlookup (ptLabels (stsTemplate (MergeStatefulSet d d))) ''team'' = Some ''a''"
proof -
  obtain d where d: "BuildStatefulSet sample_kube sample_broker sample_options = Inr d"
    by (rule sample_stateful_set)
  have u: "\<not> StatefulSetHasChanged d (MergeStatefulSet d d)" by (rule MergeStatefulSet_settles)
  have "fmlookup (ptLabels (stsTemplate d)) ''team'' = Some ''a''"
    unfolding BuildStatefulSet_Inr(5) [OF d]
    by (simp add: MergeLabels_lookup BaseLabels_def SelectorLabels_def sample_broker_def fmlookup_of_list
        LabelInstance_def LabelName_def LabelComponent_def LabelManagedBy_def LabelVersion_def)
  then show ?thesis
    using stateful_set_unchanged_is_current [OF d u] d by (auto simp del: MergeStatefulSet_simps)
qed

end
