(* ===== verification/Api.thy ===== *)
theory Api
  imports Workload
begin

section \<open>The API client and the effects of a pass (internal/controller)\<close>

text \<open>
  A reconcile pass reads and writes Kubernetes objects through a client it is given. The client,
  the ownership helpers and the condition helper are not code of this repository: they are the
  fields of the record \<open>client\<close>, over an abstract world \<open>'w\<close> that every call may change. What
  the operator relies on about them is stated by \<open>ownership_ok\<close> and \<open>conditions_ok\<close>.

  A computation of a pass is a function from a run to a result and a run: the run holds the
  world, the random bytes left and the trace of the calls made, which the code does not have and
  which the properties speak about. An error ends the computation, as \<open>return err\<close> does.
\<close>

subsection \<open>Calls\<close>

type_synonym nsname = "string \<times> string"

datatype 'o lookup =
    Found 'o
  | Missing go_error
  | Unreadable go_error

datatype resource_kind = KMosquitto | KConfigMap | KService | KStatefulSet | KSecretMeta | KSecretData

datatype api_write =
    CreateSecret secret
  | UpdateSecret secret
  | UpdateUserStatus mosquitto_user
  | CreateConfigMap config_map
  | UpdateConfigMap config_map
  | CreateService service
  | UpdateService service
  | CreateStatefulSet stateful_set
  | UpdateStatefulSet stateful_set
  | UpdateMosquittoStatus mosquitto

datatype call =
    GetObject resource_kind nsname
  | ListUsers nsname
  | WriteObject api_write

record 'w client =
  clGetMosquitto :: "nsname \<Rightarrow> 'w \<Rightarrow> mosquitto lookup \<times> 'w"
  clGetConfigMap :: "nsname \<Rightarrow> 'w \<Rightarrow> config_map lookup \<times> 'w"
  clGetService :: "nsname \<Rightarrow> 'w \<Rightarrow> service lookup \<times> 'w"
  clGetStatefulSet :: "nsname \<Rightarrow> 'w \<Rightarrow> stateful_set lookup \<times> 'w"
  clGetSecret :: "nsname \<Rightarrow> 'w \<Rightarrow> secret lookup \<times> 'w"
  clGetSecretMeta :: "nsname \<Rightarrow> 'w \<Rightarrow> object_meta lookup \<times> 'w"
  clReadSecret :: "nsname \<Rightarrow> 'w \<Rightarrow> secret lookup \<times> 'w"
  clReadSecretMeta :: "nsname \<Rightarrow> 'w \<Rightarrow> object_meta lookup \<times> 'w"
  clListUsers :: "nsname \<Rightarrow> 'w \<Rightarrow> mosquitto_user list result \<times> 'w"
  clWrite :: "api_write \<Rightarrow> 'w \<Rightarrow> go_error option \<times> 'w"
  clIsControlledBy :: "object_meta \<Rightarrow> object_meta \<Rightarrow> bool"
  clSetControllerReference :: "object_meta \<Rightarrow> object_meta \<Rightarrow> object_meta result"
  clSetStatusCondition :: "'w \<Rightarrow> condition list \<Rightarrow> condition \<Rightarrow> condition list"

text \<open>
  The documented behaviour of the helpers: \<open>IsControlledBy\<close> looks at the owner references of
  the object and the UID of the owner only, and \<open>SetControllerReference\<close> adds the reference
  and changes nothing else; \<open>SetStatusCondition\<close> stores the condition under its type and keeps
  the conditions of other types.
\<close>

definition ownership_ok :: "'w client \<Rightarrow> bool" where
  "ownership_ok cl \<longleftrightarrow>
     (\<forall>a b owner. metaOwnerReferences a = metaOwnerReferences b \<longrightarrow>
        clIsControlledBy cl a owner = clIsControlledBy cl b owner) \<and>
     (\<forall>owner a a'. clSetControllerReference cl owner a = Inr a' \<longrightarrow> clIsControlledBy cl a' owner \<and>
        a'\<lparr>metaOwnerReferences := metaOwnerReferences a\<rparr> = a)"

definition find_condition :: "string \<Rightarrow> condition list \<Rightarrow> condition option" where
  "find_condition t cs = find (\<lambda>c. condType c = t) cs"

definition conditions_ok :: "'w client \<Rightarrow> bool" where
  "conditions_ok cl \<longleftrightarrow> (\<forall>w cs c.
     (case find_condition (condType c) (clSetStatusCondition cl w cs c) of
        None \<Rightarrow> False
      | Some c' \<Rightarrow> condStatus c' = condStatus c \<and> condReason c' = condReason c \<and>
          condMessage c' = condMessage c \<and> condObservedGeneration c' = condObservedGeneration c) \<and>
     (\<forall>t. t \<noteq> condType c \<longrightarrow>
        find_condition t (clSetStatusCondition cl w cs c) = find_condition t cs))"

subsection \<open>Computations\<close>

record 'w run =
  rnWorld :: 'w
  rnRandom :: string
  rnTrace :: "call list"

type_synonym ('w, 'a) io = "'w run \<Rightarrow> 'a result \<times> 'w run"

definition retIO :: "'a \<Rightarrow> ('w, 'a) io" where
  "retIO a s = (Inr a, s)"

definition failIO :: "go_error \<Rightarrow> ('w, 'a) io" where
  "failIO e s = (Inl e, s)"

definition bindIO :: "('w, 'a) io \<Rightarrow> ('a \<Rightarrow> ('w, 'b) io) \<Rightarrow> ('w, 'b) io" where
  "bindIO m f s = (case m s of (Inl e, s') \<Rightarrow> (Inl e, s') | (Inr a, s') \<Rightarrow> f a s')"

definition liftIO :: "'a result \<Rightarrow> ('w, 'a) io" where
  "liftIO r s = (r, s)"

definition wrapIO :: "string \<Rightarrow> ('w, 'a) io \<Rightarrow> ('w, 'a) io" where
  "wrapIO what m s = (case m s of (r, s') \<Rightarrow> (wrap_err what r, s'))"

text \<open>A call: it reaches the world and is recorded.\<close>

definition callIO :: "call \<Rightarrow> ('w \<Rightarrow> 'a \<times> 'w) \<Rightarrow> ('w, 'a) io" where
  "callIO c f s = (case f (rnWorld s) of (a, w') \<Rightarrow>
     (Inr a, s\<lparr>rnWorld := w', rnTrace := rnTrace s @ [c]\<rparr>))"

definition get_mosquitto :: "'w client \<Rightarrow> nsname \<Rightarrow> ('w, mosquitto lookup) io" where
  "get_mosquitto cl key = callIO (GetObject KMosquitto key) (clGetMosquitto cl key)"

definition get_config_map :: "'w client \<Rightarrow> nsname \<Rightarrow> ('w, config_map lookup) io" where
  "get_config_map cl key = callIO (GetObject KConfigMap key) (clGetConfigMap cl key)"

definition get_service :: "'w client \<Rightarrow> nsname \<Rightarrow> ('w, service lookup) io" where
  "get_service cl key = callIO (GetObject KService key) (clGetService cl key)"

definition get_stateful_set :: "'w client \<Rightarrow> nsname \<Rightarrow> ('w, stateful_set lookup) io" where
  "get_stateful_set cl key = callIO (GetObject KStatefulSet key) (clGetStatefulSet cl key)"

text \<open>The cached read of a Secret: the cache holds its metadata only.\<close>

definition get_secret :: "'w client \<Rightarrow> nsname \<Rightarrow> ('w, secret lookup) io" where
  "get_secret cl key = callIO (GetObject KSecretMeta key) (clGetSecret cl key)"

definition list_users :: "'w client \<Rightarrow> nsname \<Rightarrow> ('w, mosquitto_user list) io" where
  "list_users cl key = bindIO (callIO (ListUsers key) (clListUsers cl key)) liftIO"

definition write_object :: "'w client \<Rightarrow> api_write \<Rightarrow> ('w, unit) io" where
  "write_object cl x = bindIO (callIO (WriteObject x) (clWrite cl x))
     (\<lambda>e. case e of None \<Rightarrow> retIO () | Some err \<Rightarrow> failIO err)"

lemma bindIO_simps [simp]:
  "bindIO (retIO a) f = f a"
  "bindIO (failIO e) f = failIO e"
  by (simp_all add: bindIO_def retIO_def failIO_def fun_eq_iff)

lemma bindIO_assoc: "bindIO (bindIO m f) g = bindIO m (\<lambda>a. bindIO (f a) g)"
  by (auto simp: bindIO_def fun_eq_iff split: prod.split sum.split)

subsection \<open>The trace a computation leaves\<close>

definition new_calls :: "('w, 'a) io \<Rightarrow> 'w run \<Rightarrow> call list" where
  "new_calls m s = drop (length (rnTrace s)) (rnTrace (snd (m s)))"

text \<open>\<open>emits P m\<close>: whatever the run, \<open>m\<close> only appends calls that satisfy \<open>P\<close>.\<close>

definition emits :: "(call \<Rightarrow> bool) \<Rightarrow> ('w, 'a) io \<Rightarrow> bool" where
  "emits P m \<longleftrightarrow> (\<forall>s. \<exists>cs. rnTrace (snd (m s)) = rnTrace s @ cs \<and> list_all P cs)"

lemma emitsD: "emits P m \<Longrightarrow> list_all P (new_calls m s)"
  unfolding emits_def new_calls_def by (metis append_eq_conv_conj)

lemma emits_mono: "emits P m \<Longrightarrow> (\<And>c. P c \<Longrightarrow> Q c) \<Longrightarrow> emits Q m"
  unfolding emits_def list_all_iff by blast

lemma emits_ret [intro]: "emits P (retIO a)"
  by (simp add: emits_def retIO_def)

lemma emits_fail [intro]: "emits P (failIO e)"
  by (simp add: emits_def failIO_def)

lemma emits_lift [intro]: "emits P (liftIO r)"
  by (simp add: emits_def liftIO_def)

lemma emits_bind [intro]:
  assumes "emits P m" and "\<And>a. emits P (f a)"
  shows "emits P (bindIO m f)"
  unfolding emits_def
proof
  fix s
  obtain r s' where ms: "m s = (r, s')" by (cases "m s")
  obtain cs where cs: "rnTrace s' = rnTrace s @ cs" "list_all P cs"
    using assms(1) ms unfolding emits_def by (metis snd_conv)
  show "\<exists>cs. rnTrace (snd (bindIO m f s)) = rnTrace s @ cs \<and> list_all P cs"
  proof (cases r)
    case (Inl e)
    then show ?thesis using ms cs by (simp add: bindIO_def)
  next
    case (Inr a)
    obtain ds where "rnTrace (snd (f a s')) = rnTrace s' @ ds" "list_all P ds"
      using assms(2) [of a] unfolding emits_def by blast
    then show ?thesis using ms cs Inr by (simp add: bindIO_def)
  qed
qed

lemma emits_wrap [intro]: "emits P m \<Longrightarrow> emits P (wrapIO w m)"
  unfolding emits_def wrapIO_def by (simp add: split_beta)

lemma emits_call [intro]: "P c \<Longrightarrow> emits P (callIO c f)"
  unfolding emits_def callIO_def by (simp add: split_beta)

lemma emits_write [intro]: "P (WriteObject x) \<Longrightarrow> emits P (write_object cl x)"
  unfolding write_object_def
  by (intro emits_bind emits_call) (auto split: option.split)

end
