(* ===== verification/Managed.thy ===== *)
theory Managed
  imports Api
begin

section \<open>The objects a broker owns (internal/controller/mosquitto_controller.go)\<close>

text \<open>
  The four write paths \<open>reconcileConfigMap\<close>, \<open>reconcileService\<close>, \<open>reconcileStatefulSet\<close> and
  \<open>reconcileAuthSecret\<close>: build the desired object, read the live one, create it when missing,
  refuse it when somebody else owns it, and update it when it differs. What the comparison and
  the update of a kind promise each other is the locale \<open>reconciled\<close>.
\<close>

record reconciler =
  rcMaxConcurrentReconciles :: int
  rcSecretSecurity :: bool
  rcHasAPIReader :: bool
  rcReloaderImage :: string
  rcSecretNamespaces :: "string list"

text \<open>\<open>reader\<close>: the uncached reader, or the client when none is set.\<close>

definition read_secret :: "reconciler \<Rightarrow> 'w client \<Rightarrow> nsname \<Rightarrow> ('w, secret lookup) io" where
  "read_secret r cl key =
     callIO (GetObject KSecretData key) (if rcHasAPIReader r then clReadSecret cl key else clGetSecret cl key)"

definition object_key :: "object_meta \<Rightarrow> nsname" where
  "object_key mt = (metaNamespace mt, metaName mt)"

definition ensureOwned :: "'w client \<Rightarrow> object_meta \<Rightarrow> mosquitto \<Rightarrow> string \<Rightarrow> ('w, unit) io" where
  "ensureOwned cl obj m knd =
     (if clIsControlledBy cl obj (mMeta m) then retIO ()
      else failIO (knd @ '' '' @ metaNamespace obj @ ''/'' @ metaName obj @
             '' exists and is not owned by this Mosquitto''))"

definition setOwner :: "'w client \<Rightarrow> mosquitto \<Rightarrow> object_meta \<Rightarrow> string \<Rightarrow> ('w, object_meta) io" where
  "setOwner cl m obj knd =
     wrapIO (''setting owner reference on '' @ knd @ '' '' @ metaName obj)
       (liftIO (clSetControllerReference cl (mMeta m) obj))"

subsection \<open>Comparing and updating\<close>

definition ConfigMapChanged :: "config_map \<Rightarrow> config_map \<Rightarrow> bool" where
  "ConfigMapChanged desired current =
     (\<not> (cmData current = cmData desired \<and>
         \<not> MapEntriesMissing (metaLabels (cmMeta desired)) (metaLabels (cmMeta current))))"

definition MergeConfigMap :: "config_map \<Rightarrow> config_map \<Rightarrow> config_map" where
  "MergeConfigMap current desired = current\<lparr>cmData := cmData desired,
     cmMeta := (cmMeta current)\<lparr>metaLabels :=
       MergeLabels (metaLabels (cmMeta current)) (metaLabels (cmMeta desired))\<rparr>\<rparr>"

definition ServiceChanged :: "service \<Rightarrow> service \<Rightarrow> bool" where
  "ServiceChanged desired current =
     (\<not> (svcPorts current = svcPorts desired \<and> svcSelector current = svcSelector desired \<and>
         \<not> MapEntriesMissing (metaLabels (svcMeta desired)) (metaLabels (svcMeta current))))"

definition MergeService :: "service \<Rightarrow> service \<Rightarrow> service" where
  "MergeService current desired = current\<lparr>svcPorts := svcPorts desired, svcSelector := svcSelector desired,
     svcMeta := (svcMeta current)\<lparr>metaLabels :=
       MergeLabels (metaLabels (svcMeta current)) (metaLabels (svcMeta desired))\<rparr>\<rparr>"

definition SecretChanged :: "secret \<Rightarrow> secret \<Rightarrow> bool" where
  "SecretChanged desired current =
     (\<not> (secData current = secData desired \<and>
         \<not> MapEntriesMissing (metaLabels (secMeta desired)) (metaLabels (secMeta current))))"

definition MergeSecret :: "secret \<Rightarrow> secret \<Rightarrow> secret" where
  "MergeSecret current desired = current\<lparr>secData := secData desired,
     secMeta := (secMeta current)\<lparr>metaLabels :=
       MergeLabels (metaLabels (secMeta current)) (metaLabels (secMeta desired))\<rparr>\<rparr>"

text \<open>
  What an update owes the comparison and the other writers of an object: it settles, it keeps
  the object's identity and owner, it brings every desired label and loses none.
\<close>

locale reconciled =
  fixes changed :: "'o \<Rightarrow> 'o \<Rightarrow> bool"
    and merge :: "'o \<Rightarrow> 'o \<Rightarrow> 'o"
    and meta :: "'o \<Rightarrow> object_meta"
  assumes settles: "\<not> changed d (merge c d)"
    and owner_kept: "metaOwnerReferences (meta (merge c d)) = metaOwnerReferences (meta c)"
    and key_kept: "object_key (meta (merge c d)) = object_key (meta c)"
    and labels_merged: "metaLabels (meta (merge c d)) = MergeLabels (metaLabels (meta c)) (metaLabels (meta d))"
begin

lemma controlled_kept:
  "ownership_ok cl \<Longrightarrow> clIsControlledBy cl (meta (merge c d)) own = clIsControlledBy cl (meta c) own"
  using owner_kept unfolding ownership_ok_def by blast

lemma desired_label: "fmlookup (metaLabels (meta d)) k = Some v \<Longrightarrow>
    fmlookup (metaLabels (meta (merge c d))) k = Some v"
  by (simp add: labels_merged MergeLabels_wins)

lemma foreign_label: "fmlookup (metaLabels (meta d)) k = None \<Longrightarrow>
    fmlookup (metaLabels (meta (merge c d))) k = fmlookup (metaLabels (meta c)) k"
  by (simp add: labels_merged MergeLabels_keeps)

end

interpretation cm: reconciled ConfigMapChanged MergeConfigMap cmMeta
  by unfold_locales (simp_all add: ConfigMapChanged_def MergeConfigMap_def object_key_def)

interpretation svc: reconciled ServiceChanged MergeService svcMeta
  by unfold_locales (simp_all add: ServiceChanged_def MergeService_def object_key_def)

interpretation sec: reconciled SecretChanged MergeSecret secMeta
  by unfold_locales (simp_all add: SecretChanged_def MergeSecret_def object_key_def)

interpretation sts: reconciled StatefulSetHasChanged MergeStatefulSet stsMeta
  by unfold_locales (simp_all add: MergeStatefulSet_settles MergeStatefulSet_rest object_key_def
      del: MergeStatefulSet_simps)

subsection \<open>The write paths\<close>

definition reconcileConfigMap :: "'w client \<Rightarrow> mosquitto \<Rightarrow> ('w, unit) io" where
  "reconcileConfigMap cl m =
     (let desired = BuildConfigMap m in
      bindIO (setOwner cl m (cmMeta desired) ''ConfigMap'') (\<lambda>mt.
      let desired = desired\<lparr>cmMeta := mt\<rparr> in
      bindIO (get_config_map cl (object_key (cmMeta desired))) (\<lambda>res.
      case res of
        Missing _ \<Rightarrow> write_object cl (CreateConfigMap desired)
      | Unreadable err \<Rightarrow> failIO err
      | Found current \<Rightarrow>
          bindIO (ensureOwned cl (cmMeta current) m ''ConfigMap'') (\<lambda>_.
          if \<not> ConfigMapChanged desired current then retIO ()
          else write_object cl (UpdateConfigMap (MergeConfigMap current desired))))))"

definition reconcileService :: "'w client \<Rightarrow> mosquitto \<Rightarrow> service \<Rightarrow> ('w, unit) io" where
  "reconcileService cl m desired =
      bindIO (setOwner cl m (svcMeta desired) ''Service'') (\<lambda>mt.
      let desired = desired\<lparr>svcMeta := mt\<rparr> in
      bindIO (get_service cl (object_key (svcMeta desired))) (\<lambda>res.
      case res of
        Missing _ \<Rightarrow> write_object cl (CreateService desired)
      | Unreadable err \<Rightarrow> failIO err
      | Found current \<Rightarrow>
          bindIO (ensureOwned cl (svcMeta current) m ''Service'') (\<lambda>_.
          if \<not> ServiceChanged desired current then retIO ()
          else write_object cl (UpdateService (MergeService current desired)))))"

definition reconcileStatefulSet :: "reconciler \<Rightarrow> kube_lib \<Rightarrow> 'w client \<Rightarrow> mosquitto \<Rightarrow> ('w, unit) io" where
  "reconcileStatefulSet r kl cl m =
      bindIO (liftIO (BuildStatefulSet kl m \<lparr>ReloaderImage = rcReloaderImage r\<rparr>)) (\<lambda>desired.
      bindIO (setOwner cl m (stsMeta desired) ''StatefulSet'') (\<lambda>mt.
      let desired = desired\<lparr>stsMeta := mt\<rparr> in
      bindIO (get_stateful_set cl (object_key (stsMeta desired))) (\<lambda>res.
      case res of
        Missing _ \<Rightarrow> write_object cl (CreateStatefulSet desired)
      | Unreadable err \<Rightarrow> failIO err
      | Found current \<Rightarrow>
          bindIO (ensureOwned cl (stsMeta current) m ''StatefulSet'') (\<lambda>_.
          if \<not> StatefulSetHasChanged desired current then retIO ()
          else write_object cl (UpdateStatefulSet (MergeStatefulSet current desired))))))"

definition reconcileAuthSecret :: "reconciler \<Rightarrow> 'w client \<Rightarrow> mosquitto \<Rightarrow> strmap \<Rightarrow> ('w, unit) io" where
  "reconcileAuthSecret r cl m data =
     (let desired = BuildAuthSecret m data in
      bindIO (setOwner cl m (secMeta desired) ''Secret'') (\<lambda>mt.
      let desired = desired\<lparr>secMeta := mt\<rparr> in
      bindIO (read_secret r cl (object_key (secMeta desired))) (\<lambda>res.
      case res of
        Missing _ \<Rightarrow> write_object cl (CreateSecret desired)
      | Unreadable err \<Rightarrow> failIO err
      | Found current \<Rightarrow>
          bindIO (ensureOwned cl (secMeta current) m ''Secret'') (\<lambda>_.
          if \<not> SecretChanged desired current then retIO ()
          else write_object cl (UpdateSecret (MergeSecret current desired))))))"

end
