(* ===== verification/Users.thy ===== *)
theory Users
  imports Managed
begin

section \<open>The users of a broker in a pass (internal/controller/users.go)\<close>

text \<open>
  Reading the credentials of every \<open>MosquittoUser\<close> bound to a broker, rendering them and
  writing the verdicts back: \<open>readCredentials\<close>, \<open>renderUsers\<close>, \<open>persistUserStatus\<close> and their
  helpers.
\<close>

record user_pass =
  upUsers :: "mosquitto_user list"
  upUsernames :: strmap
  upVerdicts :: "(string, verdict) fmap"
  upAccepted :: nat
  upData :: strmap

definition uNamespace :: "mosquitto_user \<Rightarrow> string" where
  "uNamespace u = metaNamespace (uMeta u)"

text \<open>A step that draws from the random source of the reconciler.\<close>

definition randomIO :: "(string \<Rightarrow> ('a \<times> string) result) \<Rightarrow> ('w, 'a) io" where
  "randomIO f s = (case f (rnRandom s) of
       Inl e \<Rightarrow> (Inl e, s) | Inr (a, random') \<Rightarrow> (Inr a, s\<lparr>rnRandom := random'\<rparr>))"

definition exporterPassword :: "strmap \<Rightarrow> ('w, string) io" where
  "exporterPassword previous =
     (let kept = go_get previous ExporterPasswordKey in
      if kept \<noteq> '''' then retIO kept
      else bindIO (wrapIO ''generating the exporter password'' (randomIO (read_full 32)))
        (\<lambda>raw. retIO (raw_url_encode raw)))"

definition listUsers :: "'w client \<Rightarrow> string \<Rightarrow> string \<Rightarrow> ('w, mosquitto_user list) io" where
  "listUsers cl namespace broker =
     wrapIO (''listing the MosquittoUsers of '' @ namespace @ ''/'' @ broker)
       (list_users cl (namespace, broker))"

subsection \<open>Reading credentials\<close>

definition refusal :: "string \<Rightarrow> string \<Rightarrow> verdict" where
  "refusal reason message = \<lparr>vAccepted = False, vReason = reason, vMessage = message\<rparr>"

definition secret_not_found :: "mosquitto_user \<Rightarrow> verdict" where
  "secret_not_found u = refusal ReasonSecretNotFound
     (''Secret '' @ credName (userCredentialsSecret (uSpec u)) @ '' does not exist in namespace '' @
      uNamespace u)"

text \<open>What the data of a credentials Secret gives: an input, or the verdict on a missing key.\<close>

definition credentials_of :: "runtime \<Rightarrow> mosquitto_user \<Rightarrow> strmap \<Rightarrow> verdict + input" where
  "credentials_of rt u data =
     (case find (\<lambda>key. \<not> has_key data key) [UsernameKey u, PasswordKey u] of
        Some key \<Rightarrow> Inl (refusal ReasonKeyNotFound
          (''Secret '' @ credName (userCredentialsSecret (uSpec u)) @ '' has no key '' @
           go_quote (rtIsPrint rt) key))
      | None \<Rightarrow> Inr \<lparr>inName = uName u, inCreated = metaCreationTimestamp (uMeta u),
          inUsername = go_get data (UsernameKey u), inPassword = go_get data (PasswordKey u),
          inACLs = userACLs (uSpec u)\<rparr>)"

definition readCredentials ::
  "runtime \<Rightarrow> reconciler \<Rightarrow> 'w client \<Rightarrow> mosquitto_user \<Rightarrow> ('w, verdict + input) io" where
  "readCredentials rt r cl u =
     (let name = credName (userCredentialsSecret (uSpec u));
          key = (uNamespace u, name);
          what = ''reading Secret '' @ name @ '' of MosquittoUser '' @ uName u
      in bindIO (get_secret cl key) (\<lambda>res.
         case res of
           Missing _ \<Rightarrow> retIO (Inl (secret_not_found u))
         | Unreadable err \<Rightarrow> wrapIO what (failIO err)
         | Found metadata \<Rightarrow>
             if rcSecretSecurity r \<and> go_get (metaLabels (secMeta metadata)) ConsumableLabel \<noteq> ConsumableLabelValue
             then retIO (Inl (refusal ReasonSecretNotConsumable
               (''Secret '' @ name @ '' does not carry '' @ ConsumableLabel @ ''='' @ ConsumableLabelValue @
                '', which --secret-security=true requires'')))
             else bindIO (read_secret r cl key) (\<lambda>res.
               case res of
                 Missing _ \<Rightarrow> retIO (Inl (secret_not_found u))
               | Unreadable err \<Rightarrow> wrapIO what (failIO err)
               | Found sec \<Rightarrow> retIO (credentials_of rt u (secData sec)))))"

definition currentAuthData :: "reconciler \<Rightarrow> 'w client \<Rightarrow> mosquitto \<Rightarrow> ('w, strmap) io" where
  "currentAuthData r cl m =
     bindIO (read_secret r cl (mNamespace m, AuthSecretName m)) (\<lambda>res.
       case res of
         Missing _ \<Rightarrow> retIO fmempty
       | Unreadable err \<Rightarrow> wrapIO (''reading Secret '' @ AuthSecretName m) (failIO err)
       | Found current \<Rightarrow>
           if \<not> clIsControlledBy cl (secMeta current) (mMeta m) then retIO fmempty
           else retIO (secData current))"

subsection \<open>Rendering\<close>

text \<open>The loop over the users: usernames, verdicts and inputs, in order.\<close>

fun credentials_loop ::
  "runtime \<Rightarrow> reconciler \<Rightarrow> 'w client \<Rightarrow> mosquitto_user list \<Rightarrow> strmap \<Rightarrow> (string, verdict) fmap
     \<Rightarrow> ('w, strmap \<times> (string, verdict) fmap \<times> input list) io" where
  "credentials_loop rt r cl [] usernames verdicts = retIO (usernames, verdicts, [])"
| "credentials_loop rt r cl (u # us) usernames verdicts =
     bindIO (readCredentials rt r cl u) (\<lambda>res.
       case res of
         Inl v \<Rightarrow> credentials_loop rt r cl us usernames (fmupd (uName u) v verdicts)
       | Inr inp \<Rightarrow>
           bindIO (credentials_loop rt r cl us (fmupd (uName u) (inUsername inp) usernames) verdicts)
             (\<lambda>(usernames, verdicts, inps). retIO (usernames, verdicts, inp # inps)))"

definition renderUsers :: "runtime \<Rightarrow> reconciler \<Rightarrow> 'w client \<Rightarrow> mosquitto \<Rightarrow> ('w, user_pass) io" where
  "renderUsers rt r cl m =
     bindIO (listUsers cl (mNamespace m) (mName m)) (\<lambda>users.
     bindIO (credentials_loop rt r cl users fmempty fmempty) (\<lambda>(usernames, verdicts, inputs).
     bindIO (currentAuthData r cl m) (\<lambda>previous.
     bindIO (if IsMetricsEnabled m then exporterPassword previous else retIO '''') (\<lambda>password.
     let reserved = (if IsMetricsEnabled m then [ExporterPrincipal password] else []) in
     bindIO (randomIO (RenderUsers rt FilePayload inputs reserved previous)) (\<lambda>res.
     retIO \<lparr>upUsers = users, upUsernames = usernames,
       upVerdicts = verdicts ++\<^sub>f resVerdicts res, upAccepted = resAccepted res,
       upData = (if password \<noteq> '''' then fmupd ExporterPasswordKey password (resData res)
                 else resData res)\<rparr>)))))"

subsection \<open>Writing the verdicts\<close>

definition conditionIO :: "'w client \<Rightarrow> condition list \<Rightarrow> condition \<Rightarrow> ('w, condition list) io" where
  "conditionIO cl cs c s = (Inr (clSetStatusCondition cl (rnWorld s) cs c), s)"

definition user_condition :: "mosquitto_user \<Rightarrow> verdict \<Rightarrow> condition" where
  "user_condition u v = \<lparr>condType = ConditionTypeReady,
     condStatus = (if vAccepted v then ConditionTrue else ConditionFalse),
     condObservedGeneration = metaGeneration (uMeta u), condLastTransitionTime = 0,
     condReason = vReason v, condMessage = vMessage v\<rparr>"

definition persistUserStatus :: "'w client \<Rightarrow> mosquitto_user \<Rightarrow> string \<Rightarrow> verdict \<Rightarrow> ('w, unit) io" where
  "persistUserStatus cl u username v =
     (let status = (uStatus u)\<lparr>ustatObservedGeneration := metaGeneration (uMeta u), ustatUsername := username\<rparr>
      in bindIO (conditionIO cl (ustatConditions status) (user_condition u v)) (\<lambda>cs.
         let status = status\<lparr>ustatConditions := cs\<rparr> in
         if status = uStatus u then retIO ()
         else wrapIO (''writing the status of MosquittoUser '' @ uName u)
           (write_object cl (UpdateUserStatus (u\<lparr>uStatus := status\<rparr>)))))"

definition no_verdict :: verdict where
  "no_verdict = \<lparr>vAccepted = False, vReason = '''', vMessage = ''''\<rparr>"

definition verdict_of :: "(string, verdict) fmap \<Rightarrow> string \<Rightarrow> verdict" where
  "verdict_of verdicts name = (case fmlookup verdicts name of None \<Rightarrow> no_verdict | Some v \<Rightarrow> v)"

fun write_statuses :: "'w client \<Rightarrow> (mosquitto_user \<Rightarrow> string) \<Rightarrow> (mosquitto_user \<Rightarrow> verdict)
    \<Rightarrow> mosquitto_user list \<Rightarrow> ('w, unit) io" where
  "write_statuses cl username vf [] = retIO ()"
| "write_statuses cl username vf (u # us) =
     bindIO (persistUserStatus cl u (username u) (vf u)) (\<lambda>_. write_statuses cl username vf us)"

definition writeUserStatuses :: "'w client \<Rightarrow> user_pass \<Rightarrow> ('w, unit) io" where
  "writeUserStatuses cl pass = write_statuses cl (\<lambda>u. go_get (upUsernames pass) (uName u))
     (\<lambda>u. verdict_of (upVerdicts pass) (uName u)) (upUsers pass)"

definition reportUsers :: "'w client \<Rightarrow> string \<Rightarrow> string \<Rightarrow> verdict \<Rightarrow> ('w, unit) io" where
  "reportUsers cl namespace broker v =
     bindIO (listUsers cl namespace broker) (\<lambda>users.
       write_statuses cl (\<lambda>u. ustatUsername (uStatus u)) (\<lambda>_. v) users)"

definition reportUsersOfMissingBroker :: "'w client \<Rightarrow> nsname \<Rightarrow> ('w, unit) io" where
  "reportUsersOfMissingBroker cl key = (case key of (namespace, name) \<Rightarrow>
     reportUsers cl namespace name (refusal ReasonBrokerNotFound
       (''Mosquitto '' @ name @ '' does not exist in namespace '' @ namespace)))"

end
