(* ===== verification/Reconcile.thy ===== *)
theory Reconcile
  imports Users
begin

section \<open>The reconcile pass (internal/controller/mosquitto_controller.go, refusals.go)\<close>

text \<open>
  One pass over one \<open>Mosquitto\<close>: the checks that refuse the whole pass (\<open>refusePass\<close>), the
  writes in dependency order (\<open>reconcileResources\<close>), and the status (\<open>updateStatus\<close>,
  \<open>persistStatus\<close>). A function that changes the \<open>Mosquitto\<close> it is given, in Go through its
  pointer, returns the changed one.
\<close>

definition tryIO :: "('w, 'a) io \<Rightarrow> ('w, 'a result) io" where
  "tryIO m s = (case m s of (r, s') \<Rightarrow> (Inr r, s'))"

subsection \<open>Status\<close>

definition setPhase ::
  "'w client \<Rightarrow> 'w \<Rightarrow> mosquitto \<Rightarrow> string \<Rightarrow> string \<Rightarrow> string \<Rightarrow> string \<Rightarrow> mosquitto" where
  "setPhase cl w m phase ready reason message =
     m\<lparr>mStatus := (mStatus m)\<lparr>
       statusPhase := phase,
       statusObservedGeneration := metaGeneration (mMeta m),
       statusConditions := clSetStatusCondition cl w (statusConditions (mStatus m))
         \<lparr>condType = ConditionTypeReady, condStatus = ready,
          condObservedGeneration = metaGeneration (mMeta m), condLastTransitionTime = 0,
          condReason = reason, condMessage = message\<rparr>\<rparr>\<rparr>"

definition phaseIO ::
  "'w client \<Rightarrow> mosquitto \<Rightarrow> string \<Rightarrow> string \<Rightarrow> string \<Rightarrow> string \<Rightarrow> ('w, mosquitto) io" where
  "phaseIO cl m phase ready reason message s =
     (Inr (setPhase cl (rnWorld s) m phase ready reason message), s)"

definition statusUnchanged :: "mosquitto_status \<Rightarrow> mosquitto_status \<Rightarrow> bool" where
  "statusUnchanged old new =
     (statusPhase old = statusPhase new \<and>
      statusReadyReplicas old = statusReadyReplicas new \<and>
      statusObservedGeneration old = statusObservedGeneration new \<and>
      statusUsers old = statusUsers new \<and>
      statusConditions old = statusConditions new)"

definition persistStatus :: "'w client \<Rightarrow> mosquitto \<Rightarrow> ('w, unit) io" where
  "persistStatus cl m =
     bindIO (get_mosquitto cl (object_key (mMeta m))) (\<lambda>res.
       case res of
         Missing err \<Rightarrow> failIO err
       | Unreadable err \<Rightarrow> failIO err
       | Found stored \<Rightarrow>
           if statusUnchanged (mStatus stored) (mStatus m) then retIO ()
           else write_object cl (UpdateMosquittoStatus (stored\<lparr>mStatus := mStatus m\<rparr>)))"

text \<open>The conversion \<open>int32(accepted)\<close> keeps the low 32 bits.\<close>

definition int32_of :: "nat \<Rightarrow> int" where
  "int32_of n = sint (word_of_nat n :: 32 word)"

definition setUsersCondition :: "'w client \<Rightarrow> 'w \<Rightarrow> mosquitto \<Rightarrow> nat \<Rightarrow> mosquitto" where
  "setUsersCondition cl w m accepted =
     (let c = \<lparr>condType = ConditionTypeUsers, condStatus = ConditionTrue,
            condObservedGeneration = metaGeneration (mMeta m), condLastTransitionTime = 0,
            condReason = ReasonUsersAccepted, condMessage = go_itoa accepted @ '' users accepted''\<rparr>;
          c = (if accepted = 0
            then c\<lparr>condStatus := ConditionFalse, condReason := ReasonNoUsers,
              condMessage := ''the broker requires a login and accepts nobody: no MosquittoUser bound to it is accepted''\<rparr>
            else c)
      in m\<lparr>mStatus := (mStatus m)\<lparr>statusUsers := int32_of accepted,
           statusConditions := clSetStatusCondition cl w (statusConditions (mStatus m)) c\<rparr>\<rparr>)"

definition usersIO :: "'w client \<Rightarrow> mosquitto \<Rightarrow> nat \<Rightarrow> ('w, mosquitto) io" where
  "usersIO cl m accepted s = (Inr (setUsersCondition cl (rnWorld s) m accepted), s)"

text \<open>What \<open>updateStatus\<close> makes of the live StatefulSet, or of its absence.\<close>

definition observe :: "'w client \<Rightarrow> 'w \<Rightarrow> mosquitto \<Rightarrow> stateful_set option \<Rightarrow> mosquitto" where
  "observe cl w m live =
     (case live of
        None \<Rightarrow>
          setPhase cl w (m\<lparr>mStatus := (mStatus m)\<lparr>statusReadyReplicas := 0\<rparr>\<rparr>) PhasePending ConditionFalse
            ''StatefulSetNotFound'' ''Waiting for the StatefulSet to be created''
      | Some sts \<Rightarrow>
          (let ready = stsReadyReplicas sts;
               replicas = specReplicas (mSpec m);
               m = m\<lparr>mStatus := (mStatus m)\<lparr>statusReadyReplicas := ready\<rparr>\<rparr>;
               message = go_itoa_int ready @ ''/'' @ go_itoa_int replicas @ '' broker pods are ready''
           in if replicas > 0 \<and> ready \<ge> replicas
              then setPhase cl w m PhaseReady ConditionTrue ''AllReplicasReady'' message
              else if ready > 0
              then setPhase cl w m PhaseProgressing ConditionFalse ''ReplicasNotReady'' message
              else setPhase cl w m PhasePending ConditionFalse ''NoReplicasReady''
                (''0/'' @ go_itoa_int replicas @ '' broker pods are ready'')))"

definition observeIO :: "'w client \<Rightarrow> mosquitto \<Rightarrow> stateful_set option \<Rightarrow> ('w, mosquitto) io" where
  "observeIO cl m live s = (Inr (observe cl (rnWorld s) m live), s)"

definition updateStatus :: "'w client \<Rightarrow> mosquitto \<Rightarrow> ('w, unit) io" where
  "updateStatus cl m =
     bindIO (get_stateful_set cl (mNamespace m, StatefulSetName m)) (\<lambda>res.
       case res of
         Unreadable err \<Rightarrow> failIO err
       | Missing _ \<Rightarrow> bindIO (observeIO cl m None) (persistStatus cl)
       | Found sts \<Rightarrow> bindIO (observeIO cl m (Some sts)) (persistStatus cl))"

subsection \<open>Refusals\<close>

definition namespaceGranted :: "reconciler \<Rightarrow> string \<Rightarrow> bool" where
  "namespaceGranted r namespace =
     (length (rcSecretNamespaces r) = 0 \<or> namespace \<in> set (rcSecretNamespaces r))"

definition read_secret_meta :: "reconciler \<Rightarrow> 'w client \<Rightarrow> nsname \<Rightarrow> ('w, object_meta lookup) io" where
  "read_secret_meta r cl key = callIO (GetObject KSecretMeta key)
     (if rcHasAPIReader r then clReadSecretMeta cl key else clGetSecretMeta cl key)"

text \<open>The result of a check: the \<open>Mosquitto\<close>, with its phase set by a refusal, and whether it refused.\<close>

definition refuseTLSSecret ::
  "reconciler \<Rightarrow> 'w client \<Rightarrow> mosquitto \<Rightarrow> ('w, mosquitto \<times> bool result) io" where
  "refuseTLSSecret r cl m =
     (if \<not> rcSecretSecurity r \<or> \<not> IsTLSEnabled m then retIO (m, Inr False)
      else
        (let name = tls_secret m;
             label = ConsumableLabel @ ''='' @ ConsumableLabelValue
         in bindIO (read_secret_meta r cl (mNamespace m, name)) (\<lambda>res.
           case res of
             Missing _ \<Rightarrow>
               bindIO (phaseIO cl m PhaseFailed ConditionFalse ReasonSecretNotFound
                 (''TLS Secret '' @ name @
                  '' does not exist; with --secret-security=true it must exist and carry '' @ label))
                 (\<lambda>m. retIO (m, Inr True))
           | Unreadable err \<Rightarrow>
               retIO (m, Inl (''reading the metadata of TLS Secret '' @ name @ '': '' @ err))
           | Found mt \<Rightarrow>
               if go_get (metaLabels mt) ConsumableLabel \<noteq> ConsumableLabelValue
               then bindIO (phaseIO cl m PhaseFailed ConditionFalse ReasonSecretNotConsumable
                 (''TLS Secret '' @ name @ '' does not carry '' @ label @
                  '', which --secret-security=true requires''))
                 (\<lambda>m. retIO (m, Inr True))
               else retIO (m, Inr False))))"

definition refusePass ::
  "runtime \<Rightarrow> reconciler \<Rightarrow> 'w client \<Rightarrow> mosquitto \<Rightarrow> ('w, mosquitto \<times> bool result) io" where
  "refusePass rt r cl m =
     (if \<not> namespaceGranted r (mNamespace m)
      then
        (let message = ''the operator runs with --secret-namespaces='' @
               go_show_list (rcSecretNamespaces r) @
               '', which does not grant it the Secrets of namespace '' @ mNamespace m
         in bindIO (phaseIO cl m PhaseFailed ConditionFalse ReasonNamespaceNotGranted message) (\<lambda>m'.
            bindIO (tryIO (reportUsers cl (mNamespace m) (mName m)
                (refusal ReasonNamespaceNotGranted message))) (\<lambda>res.
            retIO (m', case res of Inl err \<Rightarrow> Inl err | Inr _ \<Rightarrow> Inr True))))
      else
        (case ValidateSpecConfig (rtIsPrint rt) m of
           Some err \<Rightarrow>
             bindIO (phaseIO cl m PhaseFailed ConditionFalse ReasonConfigDirectiveRefused
               (err @ ''; nothing was written, the broker keeps its running configuration''))
               (\<lambda>m'. retIO (m', Inr True))
         | None \<Rightarrow> refuseTLSSecret r cl m))"

subsection \<open>The pass\<close>

record library =
  libRuntime :: runtime
  libKube :: kube_lib

definition reconcileResources ::
  "library \<Rightarrow> reconciler \<Rightarrow> 'w client \<Rightarrow> mosquitto \<Rightarrow> ('w, nat) io" where
  "reconcileResources lib r cl m =
     bindIO (renderUsers (libRuntime lib) r cl m) (\<lambda>pass.
     bindIO (reconcileAuthSecret r cl m (upData pass)) (\<lambda>_.
     bindIO (writeUserStatuses cl pass) (\<lambda>_.
     bindIO (reconcileConfigMap cl m) (\<lambda>_.
     bindIO (reconcileService cl m (BuildHeadlessService m)) (\<lambda>_.
     bindIO (reconcileService cl m (BuildClientService m)) (\<lambda>_.
     bindIO (reconcileStatefulSet r (libKube lib) cl m) (\<lambda>_.
     retIO (upAccepted pass))))))))"

text \<open>After the checks: an error, a refusal (\<open>None\<close>), or the number of accepted users.\<close>

definition run_pass ::
  "library \<Rightarrow> reconciler \<Rightarrow> 'w client \<Rightarrow> mosquitto \<Rightarrow> bool result \<Rightarrow> ('w, nat option result) io" where
  "run_pass lib r cl m checked =
     (case checked of
        Inl err \<Rightarrow> retIO (Inl err)
      | Inr True \<Rightarrow> retIO (Inr None)
      | Inr False \<Rightarrow> bindIO (tryIO (reconcileResources lib r cl m)) (\<lambda>res.
          retIO (case res of Inl err \<Rightarrow> Inl err | Inr accepted \<Rightarrow> Inr (Some accepted))))"

definition finish_pass :: "'w client \<Rightarrow> mosquitto \<Rightarrow> nat option result \<Rightarrow> ('w, unit) io" where
  "finish_pass cl m outcome =
     (case outcome of
        Inl err \<Rightarrow>
          bindIO (phaseIO cl m PhaseFailed ConditionFalse ''ReconcileFailed'' err) (\<lambda>m.
          bindIO (tryIO (persistStatus cl m)) (\<lambda>_. failIO err))
      | Inr None \<Rightarrow> persistStatus cl m
      | Inr (Some accepted) \<Rightarrow> bindIO (usersIO cl m accepted) (\<lambda>m. updateStatus cl m))"

definition Reconcile :: "library \<Rightarrow> reconciler \<Rightarrow> 'w client \<Rightarrow> nsname \<Rightarrow> ('w, unit) io" where
  "Reconcile lib r cl key =
     bindIO (get_mosquitto cl key) (\<lambda>res.
       case res of
         Missing _ \<Rightarrow> reportUsersOfMissingBroker cl key
       | Unreadable err \<Rightarrow> failIO err
       | Found m \<Rightarrow>
           if metaDeletionTimestamp (mMeta m) \<noteq> None then retIO ()
           else bindIO (refusePass (libRuntime lib) r cl m) (\<lambda>(m, checked).
                bindIO (run_pass lib r cl m checked) (finish_pass cl m)))"

end
