(* ===== verification/Pass.thy ===== *)
theory Pass
  imports Reconcile
begin

section \<open>What a pass does\<close>

text \<open>
  The properties of a whole reconcile pass, on the calls it makes: a refused pass writes statuses
  only, a namespace without the Secret grant has none of its Secrets touched, nothing is written
  that the \<open>Mosquitto\<close> does not control, and the writes come in dependency order.
\<close>

subsection \<open>Rules for the calls of a computation\<close>

lemma emits_try: "emits P m \<Longrightarrow> emits P (tryIO m)"
  unfolding emits_def tryIO_def by (simp add: split_beta)

lemma emits_pure:
  "emits P (phaseIO cl m ph rd rs msg)" "emits P (conditionIO cl cs c)" "emits P (usersIO cl m n)"
  "emits P (observeIO cl m x)" "emits P (randomIO f)"
  by (simp_all add: emits_def phaseIO_def conditionIO_def usersIO_def observeIO_def randomIO_def
      split: sum.split prod.split)

lemma emits_let: "emits P (f x) \<Longrightarrow> emits P (Let x f)"
  by simp

lemma emits_if: "(b \<Longrightarrow> emits P m) \<Longrightarrow> (\<not> b \<Longrightarrow> emits P n) \<Longrightarrow> emits P (if b then m else n)"
  by simp

lemma emits_lookup:
  "(\<And>x. emits P (f x)) \<Longrightarrow> (\<And>e. emits P (g e)) \<Longrightarrow> (\<And>e. emits P (h e)) \<Longrightarrow>
     emits P (case r of Found x \<Rightarrow> f x | Missing e \<Rightarrow> g e | Unreadable e \<Rightarrow> h e)"
  by (cases r) simp_all

lemma emits_sum:
  "(\<And>x. emits P (f x)) \<Longrightarrow> (\<And>y. emits P (g y)) \<Longrightarrow> emits P (case r of Inl x \<Rightarrow> f x | Inr y \<Rightarrow> g y)"
  by (cases r) simp_all

lemma emits_prod: "(\<And>a b. emits P (f a b)) \<Longrightarrow> emits P (case p of (a, b) \<Rightarrow> f a b)"
  by (cases p) simp

lemma emits_option:
  "emits P m \<Longrightarrow> (\<And>x. emits P (f x)) \<Longrightarrow> emits P (case r of None \<Rightarrow> m | Some x \<Rightarrow> f x)"
  by (cases r) simp_all

lemma emits_bool: "emits P m \<Longrightarrow> emits P n \<Longrightarrow> emits P (case b of True \<Rightarrow> m | False \<Rightarrow> n)"
  by (cases b) simp_all

lemma emits_gets:
  "P (GetObject KMosquitto key) \<Longrightarrow> emits P (get_mosquitto cl key)"
  "P (GetObject KConfigMap key) \<Longrightarrow> emits P (get_config_map cl key)"
  "P (GetObject KService key) \<Longrightarrow> emits P (get_service cl key)"
  "P (GetObject KStatefulSet key) \<Longrightarrow> emits P (get_stateful_set cl key)"
  "P (GetObject KSecretMeta key) \<Longrightarrow> emits P (get_secret cl key)"
  "P (GetObject KSecretMeta key) \<Longrightarrow> emits P (read_secret_meta r cl key)"
  "P (GetObject KSecretData key) \<Longrightarrow> emits P (read_secret r cl key)"
  "P (ListUsers key) \<Longrightarrow> emits P (list_users cl key)"
  unfolding get_mosquitto_def get_config_map_def get_service_def get_stateful_set_def get_secret_def
    read_secret_meta_def read_secret_def list_users_def
  by (intro emits_bind emits_call emits_lift; assumption)+

lemmas emits_rules = emits_bind emits_ret emits_fail emits_lift emits_wrap emits_try emits_pure
  emits_let emits_if emits_lookup emits_sum emits_prod emits_option emits_bool emits_gets emits_write

text \<open>Guards: what follows an ownership check or the setting of an owner.\<close>

lemma emits_bindD:
  assumes "emits P m" and "\<And>a s s'. m s = (Inr a, s') \<Longrightarrow> emits P (f a)"
  shows "emits P (bindIO m f)"
  unfolding emits_def
proof
  fix s
  obtain r s' where ms: "m s = (r, s')" by (cases "m s")
  obtain cs where cs: "rnTrace s' = rnTrace s @ cs" "list_all P cs"
    using assms(1) ms unfolding emits_def by (metis snd_conv)
  show "\<exists>cs. rnTrace (snd (bindIO m f s)) = rnTrace s @ cs \<and> list_all P cs"
  proof (cases r)
    case (Inl e)
    then show ?thesis using ms cs by (simp add: bindIO_def)
  next
    case (Inr a)
    have "emits P (f a)" using assms(2) ms Inr by blast
    then obtain ds where "rnTrace (snd (f a s')) = rnTrace s' @ ds" "list_all P ds"
      unfolding emits_def by blast
    then show ?thesis using ms cs Inr by (simp add: bindIO_def)
  qed
qed

lemma emits_owned:
  "(clIsControlledBy cl mt (mMeta m) \<Longrightarrow> emits P (f ())) \<Longrightarrow> emits P (bindIO (ensureOwned cl mt m k) f)"
  by (auto simp: ensureOwned_def emits_fail)

lemma emits_owner:
  assumes "\<And>mt. clSetControllerReference cl (mMeta m) x = Inr mt \<Longrightarrow> emits P (f mt)"
  shows "emits P (bindIO (setOwner cl m x k) f)"
proof (rule emits_bindD)
  show "emits P (setOwner cl m x k)" unfolding setOwner_def by (intro emits_rules)
next
  fix a s s' assume "setOwner cl m x k s = (Inr a, s')"
  then show "emits P (f a)"
    using assms by (auto simp: setOwner_def wrapIO_def liftIO_def split: prod.splits)
qed

subsection \<open>Status writes only\<close>

fun status_write :: "api_write \<Rightarrow> bool" where
  "status_write (UpdateUserStatus _) = True"
| "status_write (UpdateMosquittoStatus _) = True"
| "status_write _ = False"

definition status_only :: "call \<Rightarrow> bool" where
  "status_only c \<longleftrightarrow> (case c of WriteObject x \<Rightarrow> status_write x | _ \<Rightarrow> True)"

definition touches_secret :: "call \<Rightarrow> bool" where
  "touches_secret c \<longleftrightarrow> (case c of
       GetObject k _ \<Rightarrow> k = KSecretMeta \<or> k = KSecretData
     | ListUsers _ \<Rightarrow> False
     | WriteObject x \<Rightarrow> (case x of CreateSecret _ \<Rightarrow> True | UpdateSecret _ \<Rightarrow> True | _ \<Rightarrow> False))"

lemma emits_persistStatus:
  assumes "\<And>k. P (GetObject KMosquitto k)" and "\<And>x. P (WriteObject (UpdateMosquittoStatus x))"
  shows "emits P (persistStatus cl m)"
  unfolding persistStatus_def by (intro emits_rules assms)

lemma emits_updateStatus:
  assumes "\<And>k. P (GetObject KMosquitto k)" and "\<And>k. P (GetObject KStatefulSet k)"
    and "\<And>x. P (WriteObject (UpdateMosquittoStatus x))"
  shows "emits P (updateStatus cl m)"
  unfolding updateStatus_def by (intro emits_rules emits_persistStatus assms)

lemma emits_write_statuses:
  assumes "\<And>u. P (WriteObject (UpdateUserStatus u))"
  shows "emits P (write_statuses cl nf vf us)"
proof (induction us)
  case (Cons u us)
  have "emits P (persistUserStatus cl u (nf u) (vf u))"
    unfolding persistUserStatus_def by (intro emits_rules assms)
  then show ?case using Cons by (auto intro: emits_bind)
qed (simp add: emits_ret)

lemma emits_reportUsers:
  assumes "\<And>k. P (ListUsers k)" and "\<And>u. P (WriteObject (UpdateUserStatus u))"
  shows "emits P (reportUsers cl ns b v)"
  unfolding reportUsers_def listUsers_def by (intro emits_rules emits_write_statuses assms)

definition quiet_call :: "call \<Rightarrow> bool" where
  "quiet_call c \<longleftrightarrow> status_only c \<and> \<not> touches_secret c"

lemma quiet_calls [simp]:
  "quiet_call (GetObject KMosquitto k)" "quiet_call (GetObject KStatefulSet k)" "quiet_call (ListUsers k)"
  "quiet_call (WriteObject (UpdateMosquittoStatus x))" "quiet_call (WriteObject (UpdateUserStatus u))"
  by (simp_all add: quiet_call_def status_only_def touches_secret_def)

lemma quiet_status_only: "quiet_call c \<Longrightarrow> status_only c"
  by (simp add: quiet_call_def)

lemma emits_finish_pass:
  assumes "\<And>k. P (GetObject KMosquitto k)" and "\<And>k. P (GetObject KStatefulSet k)"
    and "\<And>x. P (WriteObject (UpdateMosquittoStatus x))"
  shows "emits P (finish_pass cl m outcome)"
  unfolding finish_pass_def
  by (intro emits_rules emits_persistStatus emits_updateStatus assms)

lemma quiet_finish_pass: "emits quiet_call (finish_pass cl m outcome)"
  by (rule emits_finish_pass) simp_all

subsection \<open>A refused pass\<close>

definition returns :: "('a \<Rightarrow> bool) \<Rightarrow> ('w, 'a) io \<Rightarrow> bool" where
  "returns Q m \<longleftrightarrow> (\<forall>s a s'. m s = (Inr a, s') \<longrightarrow> Q a)"

lemma returns_bind: "returns Q m \<Longrightarrow> (\<And>a. Q a \<Longrightarrow> returns R (f a)) \<Longrightarrow> returns R (bindIO m f)"
  unfolding returns_def bindIO_def by (auto split: sum.splits prod.splits) blast

lemma returns_bind_any: "(\<And>a. returns R (f a)) \<Longrightarrow> returns R (bindIO m f)"
  by (rule returns_bind [of "\<lambda>_. True"]) (simp_all add: returns_def)

lemma returns_ret [simp]: "returns Q (retIO a) \<longleftrightarrow> Q a"
  by (simp add: returns_def retIO_def)

lemma emits_bind_returns:
  "emits P m \<Longrightarrow> returns Q m \<Longrightarrow> (\<And>a. Q a \<Longrightarrow> emits P (f a)) \<Longrightarrow> emits P (bindIO m f)"
  by (rule emits_bindD) (auto simp: returns_def)

text \<open>No check of a pass says the TLS Secret may be mounted.\<close>

definition tls_unreadable :: "reconciler \<Rightarrow> 'w client \<Rightarrow> mosquitto \<Rightarrow> bool" where
  "tls_unreadable r cl m \<longleftrightarrow> rcSecretSecurity r \<and> IsTLSEnabled m \<and>
     (\<forall>w mt. fst ((if rcHasAPIReader r then clReadSecretMeta cl else clGetSecretMeta cl)
        (mNamespace m, tls_secret m) w) = Found mt \<longrightarrow>
        go_get (metaLabels mt) ConsumableLabel \<noteq> ConsumableLabelValue)"

definition pass_refused :: "runtime \<Rightarrow> reconciler \<Rightarrow> 'w client \<Rightarrow> mosquitto \<Rightarrow> bool" where
  "pass_refused rt r cl m \<longleftrightarrow> \<not> namespaceGranted r (mNamespace m) \<or>
     ValidateSpecConfig (rtIsPrint rt) m \<noteq> None \<or> tls_unreadable r cl m"

lemma refuseTLSSecret_refuses:
  assumes "tls_unreadable r cl m"
  shows "returns (\<lambda>(m', res). res \<noteq> Inr False) (refuseTLSSecret r cl m)"
proof -
  have "returns (\<lambda>res. \<forall>mt. res = Found mt \<longrightarrow> go_get (metaLabels mt) ConsumableLabel \<noteq> ConsumableLabelValue)
      (read_secret_meta r cl (mNamespace m, tls_secret m))"
    using assms unfolding returns_def read_secret_meta_def callIO_def tls_unreadable_def
    by (auto split: prod.splits if_splits) (metis fst_conv)+
  note read = this
  have on: "rcSecretSecurity r" "IsTLSEnabled m" using assms by (simp_all add: tls_unreadable_def)
  show ?thesis
    unfolding refuseTLSSecret_def Let_def using on
    by (simp, intro returns_bind [OF read]) (auto intro!: returns_bind_any split: lookup.split)
qed

lemma refusePass_refuses:
  "pass_refused rt r cl m \<Longrightarrow> returns (\<lambda>(m', res). res \<noteq> Inr False) (refusePass rt r cl m)"
  unfolding pass_refused_def refusePass_def Let_def
  by (auto intro!: returns_bind_any refuseTLSSecret_refuses split: option.split sum.split)

lemma emits_refusePass:
  assumes "\<And>k. P (ListUsers k)"
    and "\<And>u. \<not> namespaceGranted r (mNamespace m) \<Longrightarrow> P (WriteObject (UpdateUserStatus u))"
    and "\<And>k. namespaceGranted r (mNamespace m) \<Longrightarrow> P (GetObject KSecretMeta k)"
  shows "emits P (refusePass rt r cl m)"
  unfolding refusePass_def refuseTLSSecret_def
  by (intro emits_rules emits_reportUsers assms) simp_all

text \<open>The continuation of a pass once the object it is about has been read.\<close>

definition pass_of :: "library \<Rightarrow> reconciler \<Rightarrow> 'w client \<Rightarrow> nsname \<Rightarrow> mosquitto lookup \<Rightarrow> ('w, unit) io" where
  "pass_of lib r cl key res =
     (case res of
        Missing _ \<Rightarrow> reportUsersOfMissingBroker cl key
      | Unreadable err \<Rightarrow> failIO err
      | Found m \<Rightarrow>
          if metaDeletionTimestamp (mMeta m) \<noteq> None then retIO ()
          else bindIO (refusePass (libRuntime lib) r cl m) (\<lambda>(m, checked).
               bindIO (run_pass lib r cl m checked) (finish_pass cl m)))"

lemma Reconcile_eq: "Reconcile lib r cl key = bindIO (get_mosquitto cl key) (pass_of lib r cl key)"
  unfolding Reconcile_def pass_of_def ..

lemma new_calls_Reconcile:
  assumes "\<And>res w. clGetMosquitto cl key (rnWorld s) = (res, w) \<Longrightarrow> emits P (pass_of lib r cl key res)"
    and "P (GetObject KMosquitto key)"
  shows "list_all P (new_calls (Reconcile lib r cl key) s)"
proof -
  obtain res w where g: "clGetMosquitto cl key (rnWorld s) = (res, w)"
    by (cases "clGetMosquitto cl key (rnWorld s)")
  let ?s' = "s\<lparr>rnWorld := w, rnTrace := rnTrace s @ [GetObject KMosquitto key]\<rparr>"
  have "Reconcile lib r cl key s = pass_of lib r cl key res ?s'"
    by (simp add: Reconcile_eq bindIO_def get_mosquitto_def callIO_def g)
  moreover obtain cs where "rnTrace (snd (pass_of lib r cl key res ?s')) = rnTrace ?s' @ cs" "list_all P cs"
    using assms(1) [OF g] unfolding emits_def by blast
  ultimately show ?thesis using assms(2) by (simp add: new_calls_def)
qed

lemma emits_missing:
  assumes "\<And>k. P (ListUsers k)" and "\<And>u. P (WriteObject (UpdateUserStatus u))"
  shows "emits P (reportUsersOfMissingBroker cl key)"
  unfolding reportUsersOfMissingBroker_def by (intro emits_rules emits_reportUsers assms)

text \<open>A pass whose checks refuse it makes the calls of the checks and of the status.\<close>

lemma emits_refused:
  assumes "pass_refused (libRuntime lib) r cl m"
    and "\<And>k. P (ListUsers k)" "\<And>u. P (WriteObject (UpdateUserStatus u))"
    and "\<And>k. namespaceGranted r (mNamespace m) \<Longrightarrow> P (GetObject KSecretMeta k)"
    and "\<And>k. P (GetObject KMosquitto k)" "\<And>k. P (GetObject KStatefulSet k)"
      "\<And>x. P (WriteObject (UpdateMosquittoStatus x))"
  shows "emits P (pass_of lib r cl key (Found m))"
proof -
  have fin: "emits P (finish_pass cl m' outcome)" for m' outcome
    by (intro emits_finish_pass assms(5-7))
  have "emits P (bindIO (refusePass (libRuntime lib) r cl m) (\<lambda>(m, checked).
      bindIO (run_pass lib r cl m checked) (finish_pass cl m)))"
  proof (rule emits_bind_returns [OF _ refusePass_refuses [OF assms(1)]])
    show "emits P (refusePass (libRuntime lib) r cl m)"
      by (rule emits_refusePass [OF assms(2-4)])
  next
    fix a :: "mosquitto \<times> bool result"
    obtain m' checked where a: "a = (m', checked)" by (cases a)
    assume "case a of (m', res) \<Rightarrow> res \<noteq> Inr False"
    then have "emits P (run_pass lib r cl m' checked)"
      unfolding run_pass_def by (cases checked) (auto simp: a intro: emits_ret split: bool.split)
    then show "emits P (case a of (m, checked) \<Rightarrow> bindIO (run_pass lib r cl m checked) (finish_pass cl m))"
      unfolding a prod.case by (intro emits_bind fin)
  qed
  then show ?thesis by (auto simp: pass_of_def intro: emits_ret)
qed

text \<open>C19: a refused pass writes nothing but statuses. When the namespace is not granted, or a line of
  spec.config is not on the allowlist, or --secret-security is on and the TLS Secret is missing,
  unreadable or not labelled, every write of the pass is to a status, and the running broker is
  left as it is.\<close>

theorem refused_pass_writes_status_only:
  assumes "clGetMosquitto cl key (rnWorld s) = (Found m, w)"
    and "pass_refused (libRuntime lib) r cl m"
  shows "list_all status_only (new_calls (Reconcile lib r cl key) s)"
proof (rule new_calls_Reconcile)
  fix res w' assume "clGetMosquitto cl key (rnWorld s) = (res, w')"
  then have "res = Found m" using assms(1) by simp
  then show "emits status_only (pass_of lib r cl key res)"
    by (simp add: emits_refused [OF assms(2)] status_only_def)
qed (simp add: status_only_def)

text \<open>C27: with --secret-namespaces, a pass over a broker of another namespace, present or gone, neither
  reads nor writes any Secret.\<close>

theorem ungranted_pass_touches_no_secret:
  assumes "\<And>m w. clGetMosquitto cl key (rnWorld s) = (Found m, w) \<Longrightarrow> \<not> namespaceGranted r (mNamespace m)"
  shows "list_all (\<lambda>c. \<not> touches_secret c) (new_calls (Reconcile lib r cl key) s)"
proof (rule new_calls_Reconcile)
  fix res w assume g: "clGetMosquitto cl key (rnWorld s) = (res, w)"
  show "emits (\<lambda>c. \<not> touches_secret c) (pass_of lib r cl key res)"
  proof (cases res)
    case (Found m)
    then have ng: "\<not> namespaceGranted r (mNamespace m)" using assms g by blast
    then have "pass_refused (libRuntime lib) r cl m" by (simp add: pass_refused_def)
    then show ?thesis
      unfolding Found by (rule emits_refused) (use ng in \<open>simp_all add: touches_secret_def\<close>)
  next
    case (Missing e)
    then show ?thesis
      by (simp add: pass_of_def emits_missing touches_secret_def)
  qed (simp add: pass_of_def emits_fail)
qed (simp add: touches_secret_def)

subsection \<open>Ownership\<close>

text \<open>The metadata of the managed object a write is about.\<close>

fun managed_meta :: "api_write \<Rightarrow> object_meta option" where
  "managed_meta (CreateSecret x) = Some (secMeta x)"
| "managed_meta (UpdateSecret x) = Some (secMeta x)"
| "managed_meta (CreateConfigMap x) = Some (cmMeta x)"
| "managed_meta (UpdateConfigMap x) = Some (cmMeta x)"
| "managed_meta (CreateService x) = Some (svcMeta x)"
| "managed_meta (UpdateService x) = Some (svcMeta x)"
| "managed_meta (CreateStatefulSet x) = Some (stsMeta x)"
| "managed_meta (UpdateStatefulSet x) = Some (stsMeta x)"
| "managed_meta (UpdateUserStatus _) = None"
| "managed_meta (UpdateMosquittoStatus _) = None"

definition owned_write :: "'w client \<Rightarrow> object_meta \<Rightarrow> call \<Rightarrow> bool" where
  "owned_write cl own c \<longleftrightarrow> (case c of
       WriteObject x \<Rightarrow> (case managed_meta x of None \<Rightarrow> True | Some mt \<Rightarrow> clIsControlledBy cl mt own)
     | _ \<Rightarrow> True)"

lemma owned_reads [simp]:
  "owned_write cl own (GetObject k n)" "owned_write cl own (ListUsers n)"
  "owned_write cl own (WriteObject (UpdateUserStatus u))"
  "owned_write cl own (WriteObject (UpdateMosquittoStatus x))"
  by (simp_all add: owned_write_def)

lemma set_owner_controlled:
  "ownership_ok cl \<Longrightarrow> clSetControllerReference cl own x = Inr mt \<Longrightarrow> clIsControlledBy cl mt own"
  unfolding ownership_ok_def by blast

lemma owned_paths:
  assumes "ownership_ok cl"
  shows "emits (owned_write cl (mMeta m)) (reconcileConfigMap cl m)"
    and "emits (owned_write cl (mMeta m)) (reconcileService cl m d)"
    and "emits (owned_write cl (mMeta m)) (reconcileStatefulSet r kl cl m)"
    and "emits (owned_write cl (mMeta m)) (reconcileAuthSecret r cl m data)"
  unfolding reconcileConfigMap_def reconcileService_def reconcileStatefulSet_def reconcileAuthSecret_def Let_def
  by (intro emits_owner emits_owned emits_rules owned_reads;
      simp add: owned_write_def set_owner_controlled [OF assms] cm.controlled_kept [OF assms]
        svc.controlled_kept [OF assms] sec.controlled_kept [OF assms] sts.controlled_kept [OF assms]
        del: MergeStatefulSet_simps)+

lemma emits_credentials_loop:
  assumes "\<And>k. P (GetObject KSecretMeta k)" and "\<And>k. P (GetObject KSecretData k)"
  shows "emits P (credentials_loop rt r cl us names verdicts)"
proof (induction us arbitrary: names verdicts)
  case (Cons u us)
  have "emits P (readCredentials rt r cl u)"
    unfolding readCredentials_def Let_def by (intro emits_rules assms)
  then show ?case by (auto intro!: emits_rules Cons.IH)
qed (simp add: emits_ret)

lemma emits_renderUsers:
  assumes "\<And>k. P (GetObject KSecretMeta k)" and "\<And>k. P (GetObject KSecretData k)"
    and "\<And>k. P (ListUsers k)"
  shows "emits P (renderUsers rt r cl m)"
  unfolding renderUsers_def listUsers_def currentAuthData_def exporterPassword_def Let_def
  by (intro emits_rules emits_credentials_loop assms)

lemma refuseTLSSecret_keeps: "returns (\<lambda>(m', _). mMeta m' = mMeta m) (refuseTLSSecret r cl m)"
proof -
  have "returns (\<lambda>m'. mMeta m' = mMeta m) (phaseIO cl m ph rd rs msg)" for ph rd rs msg
    by (simp add: returns_def phaseIO_def setPhase_def)
  note ph = returns_bind [OF this]
  show ?thesis
    unfolding refuseTLSSecret_def Let_def
    by (auto intro!: returns_bind_any [where m = "read_secret_meta r cl (mNamespace m, tls_secret m)"] ph
        split: lookup.split)
qed

lemma refusePass_keeps: "returns (\<lambda>(m', _). mMeta m' = mMeta m) (refusePass rt r cl m)"
proof -
  have "returns (\<lambda>m'. mMeta m' = mMeta m) (phaseIO cl m ph rd rs msg)" for ph rd rs msg
    by (simp add: returns_def phaseIO_def setPhase_def)
  note ph = returns_bind [OF this]
  show ?thesis
    unfolding refusePass_def Let_def
    by (auto intro!: ph refuseTLSSecret_keeps split: option.split)
      (auto intro!: returns_bind_any)
qed

lemma emits_resources:
  assumes "\<And>k. P (GetObject KSecretMeta k)" "\<And>k. P (GetObject KSecretData k)" "\<And>k. P (ListUsers k)"
    and "\<And>u. P (WriteObject (UpdateUserStatus u))"
    and "\<And>data. emits P (reconcileAuthSecret r cl m data)" "emits P (reconcileConfigMap cl m)"
      "\<And>d. emits P (reconcileService cl m d)" "emits P (reconcileStatefulSet r (libKube lib) cl m)"
  shows "emits P (reconcileResources lib r cl m)"
  unfolding reconcileResources_def writeUserStatuses_def
  by (intro emits_bind emits_ret emits_renderUsers emits_write_statuses assms)

text \<open>C5: the operator never writes an object it does not own. Every Secret, ConfigMap, Service and
  StatefulSet a pass creates or updates is controlled by the very Mosquitto the pass is for; an
  object of the same name that somebody else owns is left alone.\<close>

theorem pass_writes_owned_only:
  assumes "ownership_ok cl" and "clGetMosquitto cl key (rnWorld s) = (Found m, w)"
  shows "list_all (owned_write cl (mMeta m)) (new_calls (Reconcile lib r cl key) s)"
proof (rule new_calls_Reconcile)
  fix res w' assume "clGetMosquitto cl key (rnWorld s) = (res, w')"
  then have res: "res = Found m" using assms(2) by simp
  let ?P = "owned_write cl (mMeta m)"
  have "emits ?P (bindIO (refusePass (libRuntime lib) r cl m) (\<lambda>(m, checked).
      bindIO (run_pass lib r cl m checked) (finish_pass cl m)))"
  proof (rule emits_bind_returns [OF _ refusePass_keeps])
    show "emits ?P (refusePass (libRuntime lib) r cl m)" by (intro emits_refusePass) simp_all
  next
    fix a :: "mosquitto \<times> bool result"
    obtain m' checked where a: "a = (m', checked)" by (cases a)
    assume "case a of (m', _) \<Rightarrow> mMeta m' = mMeta m"
    then have mm: "mMeta m' = mMeta m" by (simp add: a)
    have "emits ?P (reconcileResources lib r cl m')"
      using owned_paths [OF assms(1), of m'] unfolding mm by (intro emits_resources) simp_all
    then have "emits ?P (run_pass lib r cl m' checked)"
      unfolding run_pass_def by (intro emits_rules)
    moreover have "emits ?P (finish_pass cl m' outcome)" for outcome
      by (intro emits_finish_pass) simp_all
    ultimately show "emits ?P (case a of (m, checked) \<Rightarrow> bindIO (run_pass lib r cl m checked) (finish_pass cl m))"
      unfolding a prod.case by (intro emits_bind)
  qed
  then show "emits ?P (pass_of lib r cl key res)" by (auto simp: res pass_of_def intro: emits_ret)
qed simp

subsection \<open>The order of the writes\<close>

fun write_rank :: "api_write \<Rightarrow> nat" where
  "write_rank (CreateSecret _) = 0"
| "write_rank (UpdateSecret _) = 0"
| "write_rank (UpdateUserStatus _) = 1"
| "write_rank (CreateConfigMap _) = 2"
| "write_rank (UpdateConfigMap _) = 2"
| "write_rank (CreateService _) = 3"
| "write_rank (UpdateService _) = 3"
| "write_rank (CreateStatefulSet _) = 4"
| "write_rank (UpdateStatefulSet _) = 4"
| "write_rank (UpdateMosquittoStatus _) = 5"

fun write_ranks :: "call list \<Rightarrow> nat list" where
  "write_ranks [] = []"
| "write_ranks (WriteObject x # cs) = write_rank x # write_ranks cs"
| "write_ranks (_ # cs) = write_ranks cs"

lemma write_ranks_append [simp]: "write_ranks (xs @ ys) = write_ranks xs @ write_ranks ys"
  by (induction xs rule: write_ranks.induct) simp_all

definition ranked :: "nat \<Rightarrow> nat \<Rightarrow> ('w, 'a) io \<Rightarrow> bool" where
  "ranked lo hi m \<longleftrightarrow> (\<forall>s. \<exists>cs. rnTrace (snd (m s)) = rnTrace s @ cs \<and>
     sorted (write_ranks cs) \<and> set (write_ranks cs) \<subseteq> {lo..hi})"

definition at_rank :: "nat \<Rightarrow> call \<Rightarrow> bool" where
  "at_rank n c \<longleftrightarrow> (case c of WriteObject x \<Rightarrow> write_rank x = n | _ \<Rightarrow> True)"

lemma at_rank_ranks: "list_all (at_rank n) cs \<Longrightarrow> sorted (write_ranks cs) \<and> set (write_ranks cs) \<subseteq> {n}"
  by (induction cs rule: write_ranks.induct) (auto simp: at_rank_def)

lemma ranked_at: "emits (at_rank n) m \<Longrightarrow> lo \<le> n \<Longrightarrow> n \<le> hi \<Longrightarrow> ranked lo hi m"
  unfolding ranked_def emits_def
proof
  fix s
  assume "\<forall>s. \<exists>cs. rnTrace (snd (m s)) = rnTrace s @ cs \<and> list_all (at_rank n) cs" and n: "lo \<le> n" "n \<le> hi"
  then obtain cs where cs: "rnTrace (snd (m s)) = rnTrace s @ cs" "list_all (at_rank n) cs" by blast
  have "{n} \<subseteq> {lo..hi}" using n by simp
  then have "set (write_ranks cs) \<subseteq> {lo..hi}" using at_rank_ranks [OF cs(2)] by (metis subset_trans)
  then show "\<exists>cs. rnTrace (snd (m s)) = rnTrace s @ cs \<and> sorted (write_ranks cs) \<and>
      set (write_ranks cs) \<subseteq> {lo..hi}" using cs at_rank_ranks [OF cs(2)] by blast
qed

lemma ranked_bind:
  assumes "ranked lo mid m" and "\<And>a s s'. m s = (Inr a, s') \<Longrightarrow> ranked mid hi (f a)" and "lo \<le> mid" "mid \<le> hi"
  shows "ranked lo hi (bindIO m f)"
  unfolding ranked_def
proof
  fix s
  obtain r s' where ms: "m s = (r, s')" by (cases "m s")
  obtain cs where cs: "rnTrace s' = rnTrace s @ cs" "sorted (write_ranks cs)" "set (write_ranks cs) \<subseteq> {lo..mid}"
    using assms(1) ms unfolding ranked_def by (metis snd_conv)
  show "\<exists>cs. rnTrace (snd (bindIO m f s)) = rnTrace s @ cs \<and> sorted (write_ranks cs) \<and>
      set (write_ranks cs) \<subseteq> {lo..hi}"
  proof (cases r)
    case (Inl e)
    have "set (write_ranks cs) \<subseteq> {lo..hi}" using cs(3) assms(4) by auto
    then show ?thesis using ms cs Inl by (simp add: bindIO_def)
  next
    case (Inr a)
    obtain ds where ds: "rnTrace (snd (f a s')) = rnTrace s' @ ds" "sorted (write_ranks ds)"
        "set (write_ranks ds) \<subseteq> {mid..hi}"
      using assms(2) [of s a s'] ms Inr unfolding ranked_def by blast
    have "sorted (write_ranks cs @ write_ranks ds)"
      using cs(2,3) ds(2,3) by (force simp: sorted_append)
    moreover have "set (write_ranks cs @ write_ranks ds) \<subseteq> {lo..hi}"
      using cs(3) ds(3) assms(3,4) by auto
    ultimately show ?thesis using ms cs(1) ds(1) Inr by (simp add: bindIO_def)
  qed
qed

lemma ranked_mono: "ranked lo hi m \<Longrightarrow> lo' \<le> lo \<Longrightarrow> hi \<le> hi' \<Longrightarrow> ranked lo' hi' m"
proof -
  assume m: "ranked lo hi m" and "lo' \<le> lo" "hi \<le> hi'"
  then have "{lo..hi} \<subseteq> {lo'..hi'}" by simp
  then show ?thesis using m unfolding ranked_def by (meson subset_trans)
qed

lemma ranked_try: "ranked lo hi m \<Longrightarrow> ranked lo hi (tryIO m)"
  unfolding ranked_def tryIO_def by (simp add: split_beta)

lemma ranked_ret: "ranked lo hi (retIO a)"
  by (simp add: ranked_def retIO_def)

lemma at_rank_read [simp]: "at_rank n (GetObject k x)" "at_rank n (ListUsers x)"
  "at_rank n (WriteObject w) \<longleftrightarrow> write_rank w = n"
  by (simp_all add: at_rank_def)

lemma rank_paths:
  "emits (at_rank 0) (reconcileAuthSecret r cl m data)"
  "emits (at_rank 2) (reconcileConfigMap cl m)"
  "emits (at_rank 3) (reconcileService cl m d)"
  "emits (at_rank 4) (reconcileStatefulSet r kl cl m)"
  unfolding reconcileConfigMap_def reconcileService_def reconcileStatefulSet_def reconcileAuthSecret_def Let_def
  by (intro emits_owner emits_owned emits_rules; simp)+

lemma ranked_resources: "ranked 0 4 (reconcileResources lib r cl m)"
  unfolding reconcileResources_def writeUserStatuses_def
  by (rule ranked_bind [where mid = 0, OF ranked_at [OF emits_renderUsers, where n = 0]], simp_all,
      rule ranked_bind [where mid = 1, OF ranked_at [OF rank_paths(1)]], simp_all,
      rule ranked_bind [where mid = 2, OF ranked_at [OF emits_write_statuses, where n = 1]], simp_all,
      rule ranked_bind [where mid = 3, OF ranked_at [OF rank_paths(2)]], simp_all,
      rule ranked_bind [where mid = 3, OF ranked_at [OF rank_paths(3)]], simp_all,
      rule ranked_bind [where mid = 4, OF ranked_at [OF rank_paths(3)]], simp_all,
      rule ranked_bind [where mid = 4, OF ranked_at [OF rank_paths(4)]], simp_all add: ranked_ret)

lemma ranked_finish: "ranked 5 5 (finish_pass cl m outcome)"
  by (rule ranked_at [where n = 5]) (auto intro!: emits_finish_pass)

lemma ranked_run: "ranked 0 5 (bindIO (run_pass lib r cl m (Inr False)) (finish_pass cl m))"
proof (rule ranked_bind [OF _ ranked_finish])
  show "ranked 0 5 (run_pass lib r cl m (Inr False))"
    unfolding run_pass_def sum.case bool.case
    by (rule ranked_bind [OF ranked_try [OF ranked_resources] ranked_at [OF emits_ret, where n = 5]]) simp_all
qed simp_all

text \<open>A pass that is not run writes the status alone.\<close>

lemma ranked_not_run:
  "checked \<noteq> Inr False \<Longrightarrow> n \<le> 5 \<Longrightarrow> ranked n 5 (bindIO (run_pass lib r cl m checked) (finish_pass cl m))"
  by (cases checked) (auto simp: run_pass_def intro: ranked_mono [OF ranked_finish] split: bool.split)

lemma ranked_granted:
  assumes "namespaceGranted r (mNamespace m)"
  shows "ranked 0 5 (bindIO (refusePass (libRuntime lib) r cl m)
           (\<lambda>(m, checked). bindIO (run_pass lib r cl m checked) (finish_pass cl m)))"
proof (rule ranked_bind [where mid = 0])
  show "ranked 0 0 (refusePass (libRuntime lib) r cl m)"
    by (rule ranked_at [where n = 0]) (use assms in \<open>auto intro!: emits_refusePass\<close>)
  show "ranked 0 5 ((\<lambda>(m, checked). bindIO (run_pass lib r cl m checked) (finish_pass cl m)) a)" for a
    by (cases a; cases "snd a = Inr False") (simp_all add: ranked_run ranked_not_run)
qed simp_all

lemma ranked_not_granted:
  assumes "\<not> namespaceGranted r (mNamespace m)"
  shows "ranked 0 5 (bindIO (refusePass (libRuntime lib) r cl m)
           (\<lambda>(m, checked). bindIO (run_pass lib r cl m checked) (finish_pass cl m)))"
proof (rule ranked_bind [where mid = 1])
  have "pass_refused (libRuntime lib) r cl m" using assms by (simp add: pass_refused_def)
  note refuses = refusePass_refuses [OF this]
  show "ranked 0 1 (refusePass (libRuntime lib) r cl m)"
    by (rule ranked_at [where n = 1]) (use assms in \<open>auto intro!: emits_refusePass\<close>)
  fix a s s' assume "refusePass (libRuntime lib) r cl m s = (Inr a, s')"
  then have "snd a \<noteq> Inr False" using refuses by (cases a) (auto simp: returns_def)
  then show "ranked 1 5 ((\<lambda>(m, checked). bindIO (run_pass lib r cl m checked) (finish_pass cl m)) a)"
    by (cases a) (simp add: ranked_not_run)
qed simp_all

lemma ranked_pass_of: "ranked 0 5 (pass_of lib r cl key res)"
proof (cases res)
  case (Found m)
  then show ?thesis
    by (cases "namespaceGranted r (mNamespace m)")
      (auto simp: pass_of_def intro: ranked_ret ranked_granted ranked_not_granted)
next
  case (Missing e)
  then show ?thesis by (auto simp: pass_of_def intro!: ranked_at [where n = 1] emits_missing)
qed (simp add: pass_of_def ranked_at [OF emits_fail, where n = 0])

text \<open>C15: the writes of a pass come in dependency order: the credentials, the users' statuses, the
  configuration, the Services, the StatefulSet, and last the status of the broker. So a user is
  reported accepted, and a pod is rolled, only after what they rest on is written.\<close>

theorem pass_writes_in_order:
  "sorted (write_ranks (new_calls (Reconcile lib r cl key) s))"
proof -
  have "ranked 0 5 (Reconcile lib r cl key)"
    unfolding Reconcile_eq
    by (intro ranked_bind [where mid = 0, OF ranked_at [OF emits_gets(1), where n = 0]])
      (simp_all add: ranked_pass_of)
  then obtain cs where "rnTrace (snd (Reconcile lib r cl key s)) = rnTrace s @ cs" "sorted (write_ranks cs)"
    unfolding ranked_def by blast
  then show ?thesis by (simp add: new_calls_def)
qed

subsection \<open>Consent and the exporter's password\<close>

text \<open>C13: with --secret-security, the data of a credentials Secret is read only after its owner consented:
  a call for the data is made only when the cached metadata carries the label. A Secret without it
  gives the user a refusal.\<close>

theorem credentials_read_needs_consent:
  assumes "rcSecretSecurity r"
    and "GetObject KSecretData key \<in> set (new_calls (readCredentials rt r cl u) s)"
  shows "key = (uNamespace u, credName (userCredentialsSecret (uSpec u))) \<and>
    (\<exists>metadata. fst (clGetSecret cl key (rnWorld s)) = Found metadata \<and>
       go_get (metaLabels (secMeta metadata)) ConsumableLabel = ConsumableLabelValue)"
proof -
  let ?key = "(uNamespace u, credName (userCredentialsSecret (uSpec u)))"
  obtain res w where g: "clGetSecret cl ?key (rnWorld s) = (res, w)" by (cases "clGetSecret cl ?key (rnWorld s)")
  show ?thesis
    using assms g
    by (cases res)
      (auto simp: readCredentials_def Let_def bindIO_def get_secret_def callIO_def new_calls_def retIO_def
        failIO_def wrapIO_def read_secret_def split: prod.splits lookup.splits if_splits)
qed

definition url_char :: "char \<Rightarrow> bool" where
  "url_char c \<longleftrightarrow> alnum c \<or> c = CHR ''-'' \<or> c = CHR ''_''"

lemma b64_encode_nopad: "length (filter (\<lambda>c. c \<noteq> CHR ''='') (b64_encode s)) = (4 * length s + 2) div 3"
proof (induction s rule: b64_encode.induct)
  case (4 a b c r)
  have "(4 * (length r + 3) + 2) div 3 = (4 * length r + 2) div 3 + 4" by simp
  then show ?case using 4 by (simp add: Let_def byte_split_char)
qed (simp_all add: Let_def byte_split_char)

text \<open>The exporter's password is kept while there is one, without drawing randomness; a fresh one is
  the base64url form of 32 random bytes: 43 characters, letters, digits, dash and underscore.\<close>

lemma exporterPassword_kept_or_fresh:
  "(go_get previous ExporterPasswordKey \<noteq> '''' \<longrightarrow>
      exporterPassword previous s = (Inr (go_get previous ExporterPasswordKey), s)) \<and>
   (go_get previous ExporterPasswordKey = '''' \<and> 32 \<le> length (rnRandom s) \<longrightarrow>
      (\<exists>p. exporterPassword previous s = (Inr p, s\<lparr>rnRandom := drop 32 (rnRandom s)\<rparr>) \<and>
         p = raw_url_encode (take 32 (rnRandom s)) \<and> length p = 43)) \<and>
   (go_get previous ExporterPasswordKey = '''' \<and> length (rnRandom s) < 32 \<longrightarrow>
      \<not> isInr (fst (exporterPassword previous s)))"
  by (auto simp: exporterPassword_def Let_def bindIO_def retIO_def wrapIO_def randomIO_def read_full_def
      raw_url_encode_def b64_encode_nopad split: prod.splits)

subsection \<open>The status of the broker\<close>

lemma setPhase_simps [simp]:
  "statusPhase (mStatus (setPhase cl w m ph rd rs msg)) = ph"
  "statusObservedGeneration (mStatus (setPhase cl w m ph rd rs msg)) = metaGeneration (mMeta m)"
  "statusReadyReplicas (mStatus (setPhase cl w m ph rd rs msg)) = statusReadyReplicas (mStatus m)"
  "statusUsers (mStatus (setPhase cl w m ph rd rs msg)) = statusUsers (mStatus m)"
  "mSpec (setPhase cl w m ph rd rs msg) = mSpec m" "mMeta (setPhase cl w m ph rd rs msg) = mMeta m"
  by (simp_all add: setPhase_def)

lemma condition_set:
  assumes "conditions_ok cl"
  shows "\<exists>c'. find_condition (condType c) (clSetStatusCondition cl w cs c) = Some c' \<and>
      condStatus c' = condStatus c \<and> condReason c' = condReason c \<and> condMessage c' = condMessage c"
    and "t \<noteq> condType c \<Longrightarrow> find_condition t (clSetStatusCondition cl w cs c) = find_condition t cs"
proof -
  have "case find_condition (condType c) (clSetStatusCondition cl w cs c) of
        None \<Rightarrow> False
      | Some c' \<Rightarrow> condStatus c' = condStatus c \<and> condReason c' = condReason c \<and>
          condMessage c' = condMessage c \<and> condObservedGeneration c' = condObservedGeneration c"
    using assms unfolding conditions_ok_def by blast
  then show "\<exists>c'. find_condition (condType c) (clSetStatusCondition cl w cs c) = Some c' \<and>
      condStatus c' = condStatus c \<and> condReason c' = condReason c \<and> condMessage c' = condMessage c"
    by (cases "find_condition (condType c) (clSetStatusCondition cl w cs c)") simp_all
  show "t \<noteq> condType c \<Longrightarrow> find_condition t (clSetStatusCondition cl w cs c) = find_condition t cs"
    using assms unfolding conditions_ok_def by blast
qed

lemma condition_names [simp]: "ConditionTypeUsers \<noteq> ConditionTypeReady" "ConditionTypeReady \<noteq> ConditionTypeUsers"
  "ConditionTrue \<noteq> ConditionFalse" "ConditionFalse \<noteq> ConditionTrue"
  by (simp_all add: ConditionTypeUsers_def ConditionTypeReady_def ConditionTrue_def ConditionFalse_def)

lemma setPhase_conditions:
  assumes "conditions_ok cl"
  shows "\<exists>c. find_condition ConditionTypeReady (statusConditions (mStatus (setPhase cl w m ph rd rs msg))) = Some c \<and>
      condStatus c = rd \<and> condReason c = rs \<and> condMessage c = msg"
    and "find_condition ConditionTypeUsers (statusConditions (mStatus (setPhase cl w m ph rd rs msg)))
      = find_condition ConditionTypeUsers (statusConditions (mStatus m))"
  using condition_set [OF assms, where c = "\<lparr>condType = ConditionTypeReady, condStatus = rd,
    condObservedGeneration = metaGeneration (mMeta m), condLastTransitionTime = 0, condReason = rs,
    condMessage = msg\<rparr>" and w = w and cs = "statusConditions (mStatus m)"]
  by (simp_all add: setPhase_def)

text \<open>Phase and condition never disagree. The broker is in phase Ready exactly when it wants pods and has
  that many ready; then and only then is the Ready condition True; phase, replica count and
  generation are those observed; and the Users condition is untouched.\<close>

theorem observed_status_consistent:
  assumes "conditions_ok cl"
  shows "(let m' = observe cl w m live;
      ready = (case live of None \<Rightarrow> 0 | Some sts \<Rightarrow> stsReadyReplicas sts) in
    (statusPhase (mStatus m') = PhaseReady \<longleftrightarrow> 0 < specReplicas (mSpec m) \<and> specReplicas (mSpec m) \<le> ready) \<and>
    (\<exists>c. find_condition ConditionTypeReady (statusConditions (mStatus m')) = Some c \<and>
       (condStatus c = ConditionTrue \<longleftrightarrow> statusPhase (mStatus m') = PhaseReady)) \<and>
    statusReadyReplicas (mStatus m') = ready \<and>
    statusObservedGeneration (mStatus m') = metaGeneration (mMeta m) \<and>
    find_condition ConditionTypeUsers (statusConditions (mStatus m')) =
      find_condition ConditionTypeUsers (statusConditions (mStatus m)))"
proof -
  have ph: "PhaseReady \<noteq> PhasePending" "PhaseReady \<noteq> PhaseProgressing" "PhaseProgressing \<noteq> PhaseReady"
    "PhasePending \<noteq> PhaseReady"
    by (simp_all add: PhaseReady_def PhasePending_def PhaseProgressing_def)
  have condT: "\<exists>c. find_condition ConditionTypeReady (statusConditions (mStatus
      (setPhase cl w m' ph ConditionTrue rs msg))) = Some c \<and> condStatus c = ConditionTrue" for m' ph rs msg
    using setPhase_conditions(1) [OF assms, of w m' ph ConditionTrue rs msg] by auto
  have condF: "\<exists>c. find_condition ConditionTypeReady (statusConditions (mStatus
      (setPhase cl w m' ph ConditionFalse rs msg))) = Some c \<and> condStatus c \<noteq> ConditionTrue" for m' ph rs msg
    using setPhase_conditions(1) [OF assms, of w m' ph ConditionFalse rs msg] by auto
  show ?thesis
    by (cases live) (auto simp: observe_def Let_def ph setPhase_conditions(2) [OF assms] condT condF)
qed

text \<open>The Users condition counts whom the broker accepts. It is True exactly when the count is not zero,
  and below two to the 31 users the count in the status is their number.\<close>

theorem users_condition_counts:
  assumes "conditions_ok cl" and "accepted < 2 ^ 31"
  shows "(let m' = setUsersCondition cl w m accepted in
    statusUsers (mStatus m') = int accepted \<and>
    (\<exists>c. find_condition ConditionTypeUsers (statusConditions (mStatus m')) = Some c \<and>
       (condStatus c = ConditionTrue \<longleftrightarrow> accepted \<noteq> 0)) \<and>
    find_condition ConditionTypeReady (statusConditions (mStatus m')) =
      find_condition ConditionTypeReady (statusConditions (mStatus m)) \<and>
    statusPhase (mStatus m') = statusPhase (mStatus m))"
proof -
  have i: "int32_of accepted = int accepted"
    using assms(2) unfolding int32_of_def by (simp add: signed_of_nat signed_take_bit_int_eq_self)
  show ?thesis
    using condition_set [OF assms(1), where c = "\<lparr>condType = ConditionTypeUsers, condStatus = ConditionTrue,
        condObservedGeneration = metaGeneration (mMeta m), condLastTransitionTime = 0,
        condReason = ReasonUsersAccepted, condMessage = go_itoa accepted @ '' users accepted''\<rparr>"
        and w = w and cs = "statusConditions (mStatus m)"]
      condition_set [OF assms(1), where c = "\<lparr>condType = ConditionTypeUsers, condStatus = ConditionFalse,
        condObservedGeneration = metaGeneration (mMeta m), condLastTransitionTime = 0,
        condReason = ReasonNoUsers, condMessage = ''the broker requires a login and accepts nobody: no MosquittoUser bound to it is accepted''\<rparr>"
        and w = w and cs = "statusConditions (mStatus m)"]
    by (auto simp: setUsersCondition_def Let_def i)
qed

subsection \<open>A client to evaluate the model with\<close>

text \<open>
  The owner references and conditions as the Kubernetes libraries keep them, over a world that
  holds one broker, one user whose Secret is labelled, and nothing else.
\<close>

definition sample_user :: mosquitto_user where
  "sample_user = \<lparr>
     uMeta = empty_meta\<lparr>metaName := ''ann'', metaNamespace := ''ns'', metaCreationTimestamp := 1\<rparr>,
     uSpec = \<lparr>userBrokerRef = ''mq'',
       userCredentialsSecret = \<lparr>credName = ''ann-login'', credUsernameKey = '''', credPasswordKey = ''''\<rparr>,
       userACLs = [\<lparr>aclTopic = ''t/#'', aclAccess = AccessRead\<rparr>]\<rparr>,
     uStatus = \<lparr>ustatObservedGeneration = 0, ustatUsername = '''', ustatConditions = []\<rparr>\<rparr>"

definition sample_secret :: secret where
  "sample_secret = \<lparr>
     secMeta = empty_meta\<lparr>metaName := ''ann-login'', metaNamespace := ''ns'',
       metaLabels := fmap_of_list [(ConsumableLabel, ConsumableLabelValue)]\<rparr>,
     secType = ''Opaque'', secData = fmap_of_list [(''username'', ''ann''), (''password'', ''x'')],
     secStringData = fmempty\<rparr>"

definition sample_client :: "unit client" where
  "sample_client = \<lparr>
     clGetMosquitto = (\<lambda>key w. (Found sample_broker, w)),
     clGetConfigMap = (\<lambda>key w. (Missing ''not found'', w)),
     clGetService = (\<lambda>key w. (Missing ''not found'', w)),
     clGetStatefulSet = (\<lambda>key w. (Missing ''not found'', w)),
     clGetSecret = (\<lambda>key w. (if key = (''ns'', ''ann-login'') then Found sample_secret else Missing ''not found'', w)),
     clGetSecretMeta = (\<lambda>key w. (Missing ''not found'', w)),
     clReadSecret = (\<lambda>key w. (if key = (''ns'', ''ann-login'') then Found sample_secret else Missing ''not found'', w)),
     clReadSecretMeta = (\<lambda>key w. (Missing ''not found'', w)),
     clListUsers = (\<lambda>key w. (Inr [sample_user], w)),
     clWrite = (\<lambda>x w. (None, w)),
     clIsControlledBy = (\<lambda>obj own. case find refController (metaOwnerReferences obj) of
        None \<Rightarrow> False | Some ref \<Rightarrow> refUID ref = metaUID own),
     clSetControllerReference = (\<lambda>own obj. Inr (obj\<lparr>metaOwnerReferences :=
       \<lparr>refKind = ''Mosquitto'', refName = metaName own, refUID = metaUID own, refController = True\<rparr> #
       metaOwnerReferences obj\<rparr>)),
     clSetStatusCondition = (\<lambda>w cs c. c # filter (\<lambda>x. condType x \<noteq> condType c) cs)\<rparr>"

definition sample_library :: library where
  "sample_library = \<lparr>libRuntime = sample_runtime, libKube = sample_kube\<rparr>"

definition sample_reconciler :: "string list \<Rightarrow> reconciler" where
  "sample_reconciler namespaces = \<lparr>rcMaxConcurrentReconciles = 0, rcSecretSecurity = True,
     rcHasAPIReader = True, rcReloaderImage = ''operator:1'', rcSecretNamespaces = namespaces\<rparr>"

definition sample_run :: "unit run" where
  "sample_run = \<lparr>rnWorld = (), rnRandom = replicate 256 (CHR ''s''), rnTrace = []\<rparr>"

lemma sample_client_ownership: "ownership_ok sample_client"
  by (auto simp: ownership_ok_def sample_client_def)

lemma find_filter_other:
  "t \<noteq> u \<Longrightarrow> find (\<lambda>c. condType c = t) (filter (\<lambda>x. condType x \<noteq> u) cs) = find (\<lambda>c. condType c = t) cs"
  by (induction cs) auto

lemma sample_client_conditions: "conditions_ok sample_client"
  by (auto simp: conditions_ok_def sample_client_def find_condition_def find_filter_other)

lemma sample_get: "clGetMosquitto sample_client key w = (Found sample_broker, w)"
  by (simp add: sample_client_def)

lemma sample_refused: "pass_refused rt (sample_reconciler [''other'']) cl sample_broker"
  "\<not> namespaceGranted (sample_reconciler [''other'']) (mNamespace sample_broker)"
  by (simp_all add: pass_refused_def namespaceGranted_def sample_reconciler_def sample_broker_def empty_meta_def)

theorem refused_pass_writes_status_only_witness:
  "list_all status_only (new_calls
     (Reconcile sample_library (sample_reconciler [''other'']) sample_client (''ns'', ''mq'')) sample_run)"
  by (rule refused_pass_writes_status_only [OF sample_get sample_refused(1)])

theorem ungranted_pass_touches_no_secret_witness:
  "list_all (\<lambda>c. \<not> touches_secret c) (new_calls
     (Reconcile sample_library (sample_reconciler [''other'']) sample_client (''ns'', ''mq'')) sample_run)"
  by (rule ungranted_pass_touches_no_secret) (use sample_refused(2) in \<open>simp add: sample_get\<close>)

theorem pass_writes_owned_only_witness:
  "list_all (owned_write sample_client (mMeta sample_broker)) (new_calls
     (Reconcile sample_library (sample_reconciler []) sample_client (''ns'', ''mq'')) sample_run)"
  by (rule pass_writes_owned_only [OF sample_client_ownership sample_get])

theorem credentials_read_needs_consent_witness:
  "GetObject KSecretData (''ns'', ''ann-login'') \<in> set (new_calls
     (readCredentials sample_runtime (sample_reconciler []) sample_client sample_user) sample_run) \<and>
   (\<exists>metadata. fst (clGetSecret sample_client (''ns'', ''ann-login'') ()) = Found metadata \<and>
      go_get (metaLabels (secMeta metadata)) ConsumableLabel = ConsumableLabelValue)"
proof -
  have c: "GetObject KSecretData (''ns'', ''ann-login'') \<in> set (new_calls
     (readCredentials sample_runtime (sample_reconciler []) sample_client sample_user) sample_run)"
    by (simp add: new_calls_def readCredentials_def Let_def bindIO_def get_secret_def callIO_def read_secret_def
        retIO_def sample_client_def sample_user_def sample_secret_def sample_reconciler_def sample_run_def
        uNamespace_def empty_meta_def fmlookup_of_list go_get_def)
  have "rcSecretSecurity (sample_reconciler [])" "rnWorld sample_run = ()"
    by (simp_all add: sample_reconciler_def sample_run_def)
  with credentials_read_needs_consent [OF _ c] c show ?thesis by metis
qed

theorem observed_status_consistent_witness:
  "statusPhase (mStatus (observe sample_client () sample_broker None)) \<noteq> PhaseReady \<and>
   (\<exists>c. find_condition ConditionTypeReady (statusConditions (mStatus (observe sample_client () sample_broker None)))
      = Some c \<and> condStatus c \<noteq> ConditionTrue)"
  using observed_status_consistent [OF sample_client_conditions, of "()" sample_broker None]
  by (auto simp: Let_def)

theorem users_condition_counts_witness:
  "statusUsers (mStatus (setUsersCondition sample_client () sample_broker 3)) = 3"
  using users_condition_counts [OF sample_client_conditions, of 3 "()" sample_broker] by (simp add: Let_def)

end
