(* ===== verification/ApiStore.thy ===== *)
theory ApiStore
  imports Pass
begin

section \<open>A server that stores what is written\<close>

text \<open>
  The abstract API server the whole-pass properties are about: the \<open>store\<close>, and a client that serves it
  through a view of its world. Computations over such a client are classified by what they do to
  it: \<open>quiet\<close> ones return and change nothing, \<open>reads\<close> depend on a part of the store only, and \<open>stores\<close> change
  it by writes of one rank.
\<close>

subsection \<open>The store\<close>

record store =
  stBrokers :: "nsname \<Rightarrow> mosquitto option"
  stUsers :: "mosquitto_user list"
  stSecrets :: "nsname \<Rightarrow> secret option"
  stConfigMaps :: "nsname \<Rightarrow> config_map option"
  stServices :: "nsname \<Rightarrow> service option"
  stStatefulSets :: "nsname \<Rightarrow> stateful_set option"

definition put :: "('o \<Rightarrow> object_meta) \<Rightarrow> 'o \<Rightarrow> (nsname \<Rightarrow> 'o option) \<Rightarrow> nsname \<Rightarrow> 'o option" where
  "put meta x f = f(object_key (meta x) \<mapsto> x)"

definition with_user_status :: "mosquitto_user \<Rightarrow> mosquitto_user \<Rightarrow> mosquitto_user" where
  "with_user_status u v = (if object_key (uMeta v) = object_key (uMeta u) then v\<lparr>uStatus := uStatus u\<rparr> else v)"

text \<open>A write to a status changes the status only.\<close>

fun store_write :: "api_write \<Rightarrow> store \<Rightarrow> store" where
  "store_write (CreateSecret x) S = S\<lparr>stSecrets := put secMeta x (stSecrets S)\<rparr>"
| "store_write (UpdateSecret x) S = S\<lparr>stSecrets := put secMeta x (stSecrets S)\<rparr>"
| "store_write (UpdateUserStatus u) S = S\<lparr>stUsers := map (with_user_status u) (stUsers S)\<rparr>"
| "store_write (CreateConfigMap x) S = S\<lparr>stConfigMaps := put cmMeta x (stConfigMaps S)\<rparr>"
| "store_write (UpdateConfigMap x) S = S\<lparr>stConfigMaps := put cmMeta x (stConfigMaps S)\<rparr>"
| "store_write (CreateService x) S = S\<lparr>stServices := put svcMeta x (stServices S)\<rparr>"
| "store_write (UpdateService x) S = S\<lparr>stServices := put svcMeta x (stServices S)\<rparr>"
| "store_write (CreateStatefulSet x) S = S\<lparr>stStatefulSets := put stsMeta x (stStatefulSets S)\<rparr>"
| "store_write (UpdateStatefulSet x) S = S\<lparr>stStatefulSets := put stsMeta x (stStatefulSets S)\<rparr>"
| "store_write (UpdateMosquittoStatus m) S = S\<lparr>stBrokers := (stBrokers S)(object_key (mMeta m) :=
     map_option (\<lambda>v. v\<lparr>mStatus := mStatus m\<rparr>) (stBrokers S (object_key (mMeta m))))\<rparr>"

definition keyed :: "('o \<Rightarrow> object_meta) \<Rightarrow> (nsname \<Rightarrow> 'o option) \<Rightarrow> bool" where
  "keyed meta f \<longleftrightarrow> (\<forall>key x. f key = Some x \<longrightarrow> object_key (meta x) = key)"

definition store_ok :: "store \<Rightarrow> bool" where
  "store_ok S \<longleftrightarrow> keyed mMeta (stBrokers S) \<and> distinct (map (object_key \<circ> uMeta) (stUsers S)) \<and>
     keyed secMeta (stSecrets S) \<and> keyed cmMeta (stConfigMaps S) \<and> keyed svcMeta (stServices S) \<and>
     keyed stsMeta (stStatefulSets S)"

definition bound_to :: "nsname \<Rightarrow> mosquitto_user \<Rightarrow> bool" where
  "bound_to key u \<longleftrightarrow> (uNamespace u, userBrokerRef (uSpec u)) = key"

definition lookup_of :: "go_error \<Rightarrow> 'o option \<Rightarrow> 'o lookup" where
  "lookup_of e x = (case x of None \<Rightarrow> Missing e | Some y \<Rightarrow> Found y)"

text \<open>
  The client serves the store its world shows: reads answer from it and change nothing, the cached
  read through a fixed transform of the Secret, and a write that is not refused is stored.
\<close>

record 'w server =
  svView :: "'w \<Rightarrow> store"
  svMissing :: "nsname \<Rightarrow> go_error"
  svCached :: "secret \<Rightarrow> secret"

definition serves :: "'w client \<Rightarrow> 'w server \<Rightarrow> bool" where
  "serves cl sv \<longleftrightarrow>
     (\<forall>key w. let S = svView sv w; e = svMissing sv key in
        clGetMosquitto cl key w = (lookup_of e (stBrokers S key), w) \<and>
        clGetConfigMap cl key w = (lookup_of e (stConfigMaps S key), w) \<and>
        clGetService cl key w = (lookup_of e (stServices S key), w) \<and>
        clGetStatefulSet cl key w = (lookup_of e (stStatefulSets S key), w) \<and>
        clGetSecret cl key w = (lookup_of e (map_option (svCached sv) (stSecrets S key)), w) \<and>
        clReadSecret cl key w = (lookup_of e (stSecrets S key), w) \<and>
        clGetSecretMeta cl key w = (lookup_of e (map_option secMeta (stSecrets S key)), w) \<and>
        clReadSecretMeta cl key w = (lookup_of e (map_option secMeta (stSecrets S key)), w) \<and>
        clListUsers cl key w = (Inr (filter (bound_to key) (stUsers S)), w)) \<and>
     (\<forall>x w. svView sv (snd (clWrite cl x w)) =
        (if fst (clWrite cl x w) = None then store_write x (svView sv w) else svView sv w))"

text \<open>\<open>SetStatusCondition\<close> leaves a condition alone that already says the same.\<close>

definition holds_condition :: "condition list \<Rightarrow> condition \<Rightarrow> bool" where
  "holds_condition cs c \<longleftrightarrow> (case find_condition (condType c) cs of
       None \<Rightarrow> False
     | Some c' \<Rightarrow> condStatus c' = condStatus c \<and> condReason c' = condReason c \<and>
         condMessage c' = condMessage c \<and> condObservedGeneration c' = condObservedGeneration c)"

definition condition_kept :: "'w client \<Rightarrow> bool" where
  "condition_kept cl \<longleftrightarrow> (\<forall>w cs c. holds_condition cs c \<longrightarrow> clSetStatusCondition cl w cs c = cs)"

lemma serves_reads:
  assumes "serves cl sv"
  shows "clGetMosquitto cl key w = (lookup_of (svMissing sv key) (stBrokers (svView sv w) key), w)"
    and "clGetConfigMap cl key w = (lookup_of (svMissing sv key) (stConfigMaps (svView sv w) key), w)"
    and "clGetService cl key w = (lookup_of (svMissing sv key) (stServices (svView sv w) key), w)"
    and "clGetStatefulSet cl key w = (lookup_of (svMissing sv key) (stStatefulSets (svView sv w) key), w)"
    and "clGetSecret cl key w = (lookup_of (svMissing sv key) (map_option (svCached sv) (stSecrets (svView sv w) key)), w)"
    and "clReadSecret cl key w = (lookup_of (svMissing sv key) (stSecrets (svView sv w) key), w)"
    and "clGetSecretMeta cl key w = (lookup_of (svMissing sv key) (map_option secMeta (stSecrets (svView sv w) key)), w)"
    and "clReadSecretMeta cl key w = (lookup_of (svMissing sv key) (map_option secMeta (stSecrets (svView sv w) key)), w)"
    and "clListUsers cl key w = (Inr (filter (bound_to key) (stUsers (svView sv w))), w)"
  using assms unfolding serves_def Let_def by blast+

lemma lookup_of_simps [simp]:
  "lookup_of e None = Missing e" "lookup_of e (Some x) = Found x"
  "lookup_of e y = Found x \<longleftrightarrow> y = Some x" "lookup_of e y = Missing e' \<longleftrightarrow> y = None \<and> e' = e"
  "lookup_of e y \<noteq> Unreadable e'"
  by (cases y; auto simp: lookup_of_def)+

text \<open>What a write of each kind leaves alone.\<close>

lemma store_write_keeps:
  "write_rank x \<noteq> 0 \<Longrightarrow> stSecrets (store_write x S) = stSecrets S"
  "write_rank x \<noteq> 1 \<Longrightarrow> stUsers (store_write x S) = stUsers S"
  "write_rank x \<noteq> 2 \<Longrightarrow> stConfigMaps (store_write x S) = stConfigMaps S"
  "write_rank x \<noteq> 3 \<Longrightarrow> stServices (store_write x S) = stServices S"
  "write_rank x \<noteq> 4 \<Longrightarrow> stStatefulSets (store_write x S) = stStatefulSets S"
  "write_rank x \<noteq> 5 \<Longrightarrow> stBrokers (store_write x S) = stBrokers S"
  by (cases x; simp)+

lemma keyed_put: "keyed meta f \<Longrightarrow> keyed meta (put meta x f)"
  by (auto simp: keyed_def put_def)

lemma with_user_status_simps [simp]:
  "uMeta (with_user_status u v) = uMeta v" "uSpec (with_user_status u v) = uSpec v"
  by (simp_all add: with_user_status_def)

lemma keyed_status: "keyed mMeta f \<Longrightarrow> keyed mMeta (f(k := map_option (\<lambda>v. v\<lparr>mStatus := st\<rparr>) (f k)))"
  by (auto simp: keyed_def simp del: split_paired_All)

lemma store_write_ok: "store_ok S \<Longrightarrow> store_ok (store_write x S)"
  by (cases x) (auto simp: store_ok_def keyed_put keyed_status comp_def)

lemma store_ok_broker: "store_ok S \<Longrightarrow> stBrokers S key = Some m \<Longrightarrow> object_key (mMeta m) = key"
  unfolding store_ok_def keyed_def by blast

subsection \<open>Computations that only read\<close>

definition no_write :: "call \<Rightarrow> bool" where
  "no_write c \<longleftrightarrow> (case c of WriteObject _ \<Rightarrow> False | _ \<Rightarrow> True)"

lemma no_write_reads [simp]: "no_write (GetObject k n)" "no_write (ListUsers n)"
  by (simp_all add: no_write_def)

text \<open>In the world \<open>w\<close>, \<open>m\<close> returns \<open>a\<close>, draws no random byte and makes reads only.\<close>

definition quiet :: "('w, 'a) io \<Rightarrow> 'w \<Rightarrow> 'a \<Rightarrow> bool" where
  "quiet m w a \<longleftrightarrow> (\<forall>s. rnWorld s = w \<longrightarrow>
     (\<exists>cs. m s = (Inr a, s\<lparr>rnTrace := rnTrace s @ cs\<rparr>) \<and> list_all no_write cs))"

lemma quiet_ret: "quiet (retIO a) w a"
  by (auto simp: quiet_def retIO_def intro: exI [of _ "[]"])

lemma quiet_pure:
  "quiet (phaseIO cl m ph rd rs msg) w (setPhase cl w m ph rd rs msg)"
  "quiet (usersIO cl m n) w (setUsersCondition cl w m n)"
  "quiet (observeIO cl m x) w (observe cl w m x)"
  "quiet (conditionIO cl cs c) w (clSetStatusCondition cl w cs c)"
  by (auto simp: quiet_def phaseIO_def usersIO_def observeIO_def conditionIO_def intro: exI [of _ "[]"])

lemma quiet_lift: "quiet (liftIO (Inr a)) w a"
  by (auto simp: quiet_def liftIO_def intro: exI [of _ "[]"])

lemma quiet_random: "(\<And>r. f r = Inr (a, r)) \<Longrightarrow> quiet (randomIO f) w a"
  by (auto simp: quiet_def randomIO_def intro: exI [of _ "[]"])

lemma quiet_call: "f w = (a, w) \<Longrightarrow> no_write c \<Longrightarrow> quiet (callIO c f) w a"
  by (auto simp: quiet_def callIO_def intro: exI [of _ "[c]"])

lemma quiet_bind:
  assumes "quiet m w a" and "quiet (f a) w b"
  shows "quiet (bindIO m f) w b"
  unfolding quiet_def
proof (intro allI impI)
  fix s :: "'a run" assume s: "rnWorld s = w"
  then obtain cs where cs: "m s = (Inr a, s\<lparr>rnTrace := rnTrace s @ cs\<rparr>)" "list_all no_write cs"
    using assms(1) unfolding quiet_def by blast
  moreover have "rnWorld (s\<lparr>rnTrace := rnTrace s @ cs\<rparr>) = w" using s by simp
  ultimately obtain ds where "f a (s\<lparr>rnTrace := rnTrace s @ cs\<rparr>) = (Inr b, s\<lparr>rnTrace := rnTrace s @ cs\<rparr>
      \<lparr>rnTrace := rnTrace (s\<lparr>rnTrace := rnTrace s @ cs\<rparr>) @ ds\<rparr>)" "list_all no_write ds"
    using assms(2) unfolding quiet_def by blast
  with cs show "\<exists>cs. bindIO m f s = (Inr b, s\<lparr>rnTrace := rnTrace s @ cs\<rparr>) \<and> list_all no_write cs"
    by (auto simp: bindIO_def intro: exI [of _ "cs @ ds"])
qed

lemma quiet_wrap: "quiet m w a \<Longrightarrow> quiet (wrapIO what m) w a"
  by (fastforce simp: quiet_def wrapIO_def wrap_err_def)

lemma quiet_try: "quiet m w a \<Longrightarrow> quiet (tryIO m) w (Inr a)"
  by (fastforce simp: quiet_def tryIO_def)

text \<open>\<open>m\<close> only reads, and its result depends on the part \<open>g\<close> of the store.\<close>

definition reads :: "'w server \<Rightarrow> (store \<Rightarrow> 'c) \<Rightarrow> ('w, 'a) io \<Rightarrow> bool" where
  "reads sv g m \<longleftrightarrow>
     (\<forall>s. \<exists>cs. snd (m s) = s\<lparr>rnTrace := rnTrace s @ cs\<rparr> \<and> list_all no_write cs) \<and>
     (\<forall>s s'. g (svView sv (rnWorld s)) = g (svView sv (rnWorld s')) \<longrightarrow> fst (m s) = fst (m s'))"

lemma reads_quiet:
  assumes "reads sv g m" and "m s = (Inr a, s')" and "g (svView sv w) = g (svView sv (rnWorld s))"
  shows "quiet m w a"
  unfolding quiet_def
proof (intro allI impI)
  fix t :: "'a run" assume "rnWorld t = w"
  then have "fst (m t) = fst (m s)" using assms(1,3) unfolding reads_def by blast
  then have "fst (m t) = Inr a" using assms(2) by simp
  moreover obtain cs where "snd (m t) = t\<lparr>rnTrace := rnTrace t @ cs\<rparr>" "list_all no_write cs"
    using assms(1) unfolding reads_def by blast
  ultimately show "\<exists>cs. m t = (Inr a, t\<lparr>rnTrace := rnTrace t @ cs\<rparr>) \<and> list_all no_write cs"
    by (metis prod.collapse)
qed

lemma reads_world: "reads sv g m \<Longrightarrow> m s = (r, s') \<Longrightarrow> rnWorld s' = rnWorld s \<and> rnRandom s' = rnRandom s"
proof -
  assume "reads sv g m" "m s = (r, s')"
  then obtain cs where "s' = s\<lparr>rnTrace := rnTrace s @ cs\<rparr>" unfolding reads_def by (metis snd_conv)
  then show ?thesis by simp
qed

lemma reads_bind:
  assumes "reads sv g m" and "\<And>a. reads sv g (f a)"
  shows "reads sv g (bindIO m f)"
  unfolding reads_def
proof (intro conjI allI impI)
  fix s :: "'a run"
  obtain r s1 where m: "m s = (r, s1)" by (cases "m s")
  obtain cs where cs: "s1 = s\<lparr>rnTrace := rnTrace s @ cs\<rparr>" "list_all no_write cs"
    using assms(1) m unfolding reads_def by (metis snd_conv)
  show "\<exists>cs. snd (bindIO m f s) = s\<lparr>rnTrace := rnTrace s @ cs\<rparr> \<and> list_all no_write cs"
  proof (cases r)
    case (Inr a)
    obtain ds where "snd (f a s1) = s1\<lparr>rnTrace := rnTrace s1 @ ds\<rparr>" "list_all no_write ds"
      using assms(2) [of a] unfolding reads_def by blast
    then show ?thesis using m cs Inr by (auto simp: bindIO_def intro: exI [of _ "cs @ ds"])
  qed (use m cs in \<open>auto simp: bindIO_def\<close>)
next
  fix s t :: "'a run" assume g: "g (svView sv (rnWorld s)) = g (svView sv (rnWorld t))"
  obtain r s1 where m: "m s = (r, s1)" by (cases "m s")
  obtain r' t1 where n: "m t = (r', t1)" by (cases "m t")
  have "fst (m s) = fst (m t)" using assms(1) g unfolding reads_def by blast
  then have r: "r' = r" using m n by simp
  show "fst (bindIO m f s) = fst (bindIO m f t)"
  proof (cases r)
    case (Inr a)
    have "g (svView sv (rnWorld s1)) = g (svView sv (rnWorld t1))"
      using reads_world [OF assms(1) m] reads_world [OF assms(1) n] g by simp
    then have "fst (f a s1) = fst (f a t1)" using assms(2) [of a] unfolding reads_def by blast
    then show ?thesis using m n r Inr by (simp add: bindIO_def)
  qed (use m n r in \<open>simp add: bindIO_def\<close>)
qed

lemma reads_ret: "reads sv g (retIO a)" and reads_fail: "reads sv g (failIO e)" and reads_lift: "reads sv g (liftIO x)"
  by (auto simp: reads_def retIO_def failIO_def liftIO_def intro: exI [of _ "[]"])

lemma wrapIO_parts: "fst (wrapIO what m s) = wrap_err what (fst (m s))" "snd (wrapIO what m s) = snd (m s)"
  by (simp_all add: wrapIO_def split_beta)

lemma callIO_parts:
  "fst (callIO c f s) = Inr (fst (f (rnWorld s)))"
  "snd (f (rnWorld s)) = rnWorld s \<Longrightarrow> snd (callIO c f s) = s\<lparr>rnTrace := rnTrace s @ [c]\<rparr>"
  by (simp_all add: callIO_def split_beta)

lemma reads_wrap: "reads sv g m \<Longrightarrow> reads sv g (wrapIO what m)"
  unfolding reads_def wrapIO_parts by metis

lemma reads_call:
  assumes "\<And>w. snd (f w) = w" and "\<And>w w'. g (svView sv w) = g (svView sv w') \<Longrightarrow> fst (f w) = fst (f w')"
    and "no_write c"
  shows "reads sv g (callIO c f)"
proof -
  have "\<exists>cs. snd (callIO c f s) = s\<lparr>rnTrace := rnTrace s @ cs\<rparr> \<and> list_all no_write cs" for s
    by (intro exI [of _ "[c]"]) (simp add: callIO_parts(2) assms(1,3))
  then show ?thesis unfolding reads_def callIO_parts(1) using assms(2) by metis
qed

lemma reads_cases:
  "(\<And>x. reads sv g (f x)) \<Longrightarrow> (\<And>e. reads sv g (h e)) \<Longrightarrow> (\<And>e. reads sv g (k e)) \<Longrightarrow>
     reads sv g (case r of Found x \<Rightarrow> f x | Missing e \<Rightarrow> h e | Unreadable e \<Rightarrow> k e)"
  "(\<And>x. reads sv g (p x)) \<Longrightarrow> (\<And>y. reads sv g (q y)) \<Longrightarrow> reads sv g (case z of Inl x \<Rightarrow> p x | Inr y \<Rightarrow> q y)"
  "(b \<Longrightarrow> reads sv g m) \<Longrightarrow> (\<not> b \<Longrightarrow> reads sv g n) \<Longrightarrow> reads sv g (if b then m else n)"
  "(\<And>a b. reads sv g (o' a b)) \<Longrightarrow> reads sv g (case ab of (a, b) \<Rightarrow> o' a b)"
  by (simp_all split: lookup.split sum.split prod.split)

lemmas reads_rules = reads_bind reads_ret reads_fail reads_lift reads_wrap reads_cases

subsection \<open>Computations that write\<close>

text \<open>\<open>m\<close> changes the store by writes of the rank \<open>n\<close> only.\<close>

inductive stored_by :: "nat \<Rightarrow> store \<Rightarrow> store \<Rightarrow> bool" for n where
  none: "stored_by n S S"
| more: "stored_by n S S' \<Longrightarrow> write_rank x = n \<Longrightarrow> stored_by n S (store_write x S')"

lemma stored_by_trans: "stored_by n S' S'' \<Longrightarrow> stored_by n S S' \<Longrightarrow> stored_by n S S''"
  by (induction rule: stored_by.induct) (auto intro: stored_by.more)

lemma stored_by_keeps:
  assumes "stored_by n S S'"
  shows "n \<noteq> 0 \<Longrightarrow> stSecrets S' = stSecrets S" "n \<noteq> 1 \<Longrightarrow> stUsers S' = stUsers S"
    "n \<noteq> 2 \<Longrightarrow> stConfigMaps S' = stConfigMaps S" "n \<noteq> 3 \<Longrightarrow> stServices S' = stServices S"
    "n \<noteq> 4 \<Longrightarrow> stStatefulSets S' = stStatefulSets S" "n \<noteq> 5 \<Longrightarrow> stBrokers S' = stBrokers S"
  using assms by (induction rule: stored_by.induct) (simp_all add: store_write_keeps)

lemma stored_by_ok: "stored_by n S S' \<Longrightarrow> store_ok S \<Longrightarrow> store_ok S'"
  by (induction rule: stored_by.induct) (simp_all add: store_write_ok)

definition stores :: "'w server \<Rightarrow> nat \<Rightarrow> ('w, 'a) io \<Rightarrow> bool" where
  "stores sv n m \<longleftrightarrow> (\<forall>s. stored_by n (svView sv (rnWorld s)) (svView sv (rnWorld (snd (m s)))))"

lemma stores_reads: "reads sv g m \<Longrightarrow> stores sv n m"
proof -
  assume "reads sv g m"
  then have "rnWorld (snd (m s)) = rnWorld s" for s
    using reads_world by (metis prod.collapse)
  then show ?thesis by (simp add: stores_def stored_by.none)
qed

lemma stores_pure: "(\<And>s. rnWorld (snd (m s)) = rnWorld s) \<Longrightarrow> stores sv n m"
  by (simp add: stores_def stored_by.none)

lemma stores_bind: "stores sv n m \<Longrightarrow> (\<And>a. stores sv n (f a)) \<Longrightarrow> stores sv n (bindIO m f)"
  unfolding stores_def bindIO_def
  by (auto split: prod.split sum.split intro: stored_by_trans) (metis snd_conv stored_by_trans)+

lemma stores_wrap: "stores sv n m \<Longrightarrow> stores sv n (wrapIO what m)"
  unfolding stores_def wrapIO_parts .

lemma stores_try: "stores sv n m \<Longrightarrow> stores sv n (tryIO m)"
  by (simp add: stores_def tryIO_def split_beta)

lemma stores_cases:
  "(\<And>x. stores sv n (f x)) \<Longrightarrow> (\<And>e. stores sv n (h e)) \<Longrightarrow> (\<And>e. stores sv n (k e)) \<Longrightarrow>
     stores sv n (case r of Found x \<Rightarrow> f x | Missing e \<Rightarrow> h e | Unreadable e \<Rightarrow> k e)"
  "(b \<Longrightarrow> stores sv n m) \<Longrightarrow> (\<not> b \<Longrightarrow> stores sv n m') \<Longrightarrow> stores sv n (if b then m else m')"
  by (simp_all split: lookup.split)

lemma write_effect:
  assumes "serves cl sv" and "write_object cl x s = (res, s')"
  shows "res = Inr () \<Longrightarrow> svView sv (rnWorld s') = store_write x (svView sv (rnWorld s))"
    and "svView sv (rnWorld s') = svView sv (rnWorld s) \<or> svView sv (rnWorld s') = store_write x (svView sv (rnWorld s))"
proof -
  obtain e w where c: "clWrite cl x (rnWorld s) = (e, w)" by (cases "clWrite cl x (rnWorld s)")
  then have "svView sv w = (if e = None then store_write x (svView sv (rnWorld s)) else svView sv (rnWorld s))"
    using assms(1) unfolding serves_def by (metis fst_conv snd_conv)
  moreover have "rnWorld s' = w" "res = Inr () \<longleftrightarrow> e = None"
    using assms(2) c
    by (auto simp: write_object_def bindIO_def callIO_def retIO_def failIO_def split: option.splits)
  ultimately show "res = Inr () \<Longrightarrow> svView sv (rnWorld s') = store_write x (svView sv (rnWorld s))"
    "svView sv (rnWorld s') = svView sv (rnWorld s) \<or> svView sv (rnWorld s') = store_write x (svView sv (rnWorld s))"
    by (simp_all split: if_splits)
qed

lemma stores_write: "serves cl sv \<Longrightarrow> write_rank x = n \<Longrightarrow> stores sv n (write_object cl x)"
  unfolding stores_def
proof
  fix s assume "serves cl sv" "write_rank x = n"
  then show "stored_by n (svView sv (rnWorld s)) (svView sv (rnWorld (snd (write_object cl x s))))"
    using write_effect(2) [of cl sv x s] by (metis prod.collapse stored_by.more stored_by.none)
qed

lemmas stores_rules = stores_bind stores_wrap stores_cases stores_write

lemma bind_Inr:
  assumes "bindIO m f s = (Inr b, s')"
  obtains a s1 where "m s = (Inr a, s1)" "f a s1 = (Inr b, s')"
  using assms by (auto simp: bindIO_def split: prod.splits sum.splits)

end
