(* ===== verification/Settled.thy ===== *)
theory Settled
  imports Pass
begin

section \<open>Passes that find their work done\<close>

text \<open>
  The four write paths have one shape, \<open>reconcile_object\<close>; each is proved equal to it. What the locale
  \<open>reconciled\<close> promises of a kind then gives, once for all kinds, that a pass over the object an
  earlier pass created or updated reads it and writes nothing.
\<close>

definition reconcile_object ::
  "'w client \<Rightarrow> mosquitto \<Rightarrow> string \<Rightarrow> ('o \<Rightarrow> object_meta) \<Rightarrow> (object_meta \<Rightarrow> 'o \<Rightarrow> 'o) \<Rightarrow>
     (nsname \<Rightarrow> ('w, 'o lookup) io) \<Rightarrow> ('o \<Rightarrow> 'o \<Rightarrow> bool) \<Rightarrow> ('o \<Rightarrow> 'o \<Rightarrow> 'o) \<Rightarrow>
     ('o \<Rightarrow> api_write) \<Rightarrow> ('o \<Rightarrow> api_write) \<Rightarrow> 'o \<Rightarrow> ('w, unit) io" where
  "reconcile_object cl m knd meta with_meta get changed merge create update desired =
     bindIO (setOwner cl m (meta desired) knd) (\<lambda>mt.
     let desired = with_meta mt desired in
     bindIO (get (object_key (meta desired))) (\<lambda>res.
     case res of
       Missing _ \<Rightarrow> write_object cl (create desired)
     | Unreadable err \<Rightarrow> failIO err
     | Found current \<Rightarrow>
         bindIO (ensureOwned cl (meta current) m knd) (\<lambda>_.
         if \<not> changed desired current then retIO ()
         else write_object cl (update (merge current desired)))))"

text \<open>A get: the lookup of the world, recorded.\<close>

definition getter :: "(nsname \<Rightarrow> ('w, 'o lookup) io) \<Rightarrow> (nsname \<Rightarrow> call) \<Rightarrow> (nsname \<Rightarrow> 'w \<Rightarrow> 'o lookup \<times> 'w) \<Rightarrow> bool" where
  "getter get c f \<longleftrightarrow> (\<forall>key. get key = callIO (c key) (f key))"

text \<open>What an earlier pass has left: the object it created, or the live one it updated.\<close>

definition left_by_pass ::
  "'w client \<Rightarrow> mosquitto \<Rightarrow> ('o \<Rightarrow> object_meta) \<Rightarrow> ('o \<Rightarrow> 'o \<Rightarrow> 'o) \<Rightarrow> 'o \<Rightarrow> 'o \<Rightarrow> bool" where
  "left_by_pass cl m meta merge desired live \<longleftrightarrow>
     live = desired \<or> (\<exists>c. clIsControlledBy cl (meta c) (mMeta m) \<and> live = merge c desired)"

locale settling = reconciled changed merge meta
  for changed :: "'o \<Rightarrow> 'o \<Rightarrow> bool" and merge :: "'o \<Rightarrow> 'o \<Rightarrow> 'o" and meta :: "'o \<Rightarrow> object_meta" +
  fixes with_meta :: "object_meta \<Rightarrow> 'o \<Rightarrow> 'o"
  assumes same: "\<not> changed d d"
    and meta_with [simp]: "meta (with_meta mt d) = mt"
begin

lemma settled:
  assumes "ownership_ok cl" and "getter get c f"
    and "clSetControllerReference cl (mMeta m) (meta d) = Inr mt"
    and "f (object_key (meta d)) (rnWorld s) = (Found live, w)"
    and "left_by_pass cl m meta merge (with_meta mt d) live"
  shows "reconcile_object cl m knd meta with_meta get changed merge create update d s =
    (Inr (), s\<lparr>rnWorld := w, rnTrace := rnTrace s @ [c (object_key (meta d))]\<rparr>)"
proof -
  have set_ok: "clIsControlledBy cl mt (mMeta m) \<and> mt\<lparr>metaOwnerReferences := metaOwnerReferences (meta d)\<rparr> = meta d"
    using assms(1,3) unfolding ownership_ok_def by blast
  then have "metaName (mt\<lparr>metaOwnerReferences := metaOwnerReferences (meta d)\<rparr>) = metaName (meta d)"
    "metaNamespace (mt\<lparr>metaOwnerReferences := metaOwnerReferences (meta d)\<rparr>) = metaNamespace (meta d)" by simp_all
  then have key: "object_key mt = object_key (meta d)" by (simp add: object_key_def)
  have "clIsControlledBy cl (meta live) (mMeta m) \<and> \<not> changed (with_meta mt d) live"
    using assms(5) set_ok same settles controlled_kept [OF assms(1)] unfolding left_by_pass_def by auto
  moreover have "get (object_key mt) = callIO (c (object_key mt)) (f (object_key mt))"
    using assms(2) unfolding getter_def by blast
  ultimately show ?thesis
    using assms(3,4) key
    by (simp add: reconcile_object_def setOwner_def wrapIO_def liftIO_def bindIO_def callIO_def
        ensureOwned_def retIO_def wrap_err_def Let_def)
qed

end

lemma no_entry_missing [simp]: "\<not> MapEntriesMissing m m"
  by (auto simp: MapEntriesMissing_iff go_get_def)

interpretation cm_settling: settling ConfigMapChanged MergeConfigMap cmMeta "\<lambda>mt d. d\<lparr>cmMeta := mt\<rparr>"
  by unfold_locales (simp_all add: ConfigMapChanged_def)

interpretation svc_settling: settling ServiceChanged MergeService svcMeta "\<lambda>mt d. d\<lparr>svcMeta := mt\<rparr>"
  by unfold_locales (simp_all add: ServiceChanged_def)

interpretation sec_settling: settling SecretChanged MergeSecret secMeta "\<lambda>mt d. d\<lparr>secMeta := mt\<rparr>"
  by unfold_locales (simp_all add: SecretChanged_def)

interpretation sts_settling: settling StatefulSetHasChanged MergeStatefulSet stsMeta "\<lambda>mt d. d\<lparr>stsMeta := mt\<rparr>"
  by unfold_locales (simp_all add: StatefulSetHasChanged_def split: option.split)

subsection \<open>The write paths have the shape\<close>

lemma reconcileConfigMap_eq:
  "reconcileConfigMap cl m = reconcile_object cl m ''ConfigMap'' cmMeta (\<lambda>mt d. d\<lparr>cmMeta := mt\<rparr>)
     (get_config_map cl) ConfigMapChanged MergeConfigMap CreateConfigMap UpdateConfigMap (BuildConfigMap m)"
  by (simp add: reconcileConfigMap_def reconcile_object_def Let_def)

lemma reconcileService_eq:
  "reconcileService cl m d = reconcile_object cl m ''Service'' svcMeta (\<lambda>mt d. d\<lparr>svcMeta := mt\<rparr>)
     (get_service cl) ServiceChanged MergeService CreateService UpdateService d"
  by (simp add: reconcileService_def reconcile_object_def Let_def)

lemma reconcileAuthSecret_eq:
  "reconcileAuthSecret r cl m data = reconcile_object cl m ''Secret'' secMeta (\<lambda>mt d. d\<lparr>secMeta := mt\<rparr>)
     (read_secret r cl) SecretChanged MergeSecret CreateSecret UpdateSecret (BuildAuthSecret m data)"
  by (simp add: reconcileAuthSecret_def reconcile_object_def Let_def)

lemma reconcileStatefulSet_eq:
  assumes "BuildStatefulSet kl m \<lparr>ReloaderImage = rcReloaderImage r\<rparr> = Inr d"
  shows "reconcileStatefulSet r kl cl m = reconcile_object cl m ''StatefulSet'' stsMeta (\<lambda>mt d. d\<lparr>stsMeta := mt\<rparr>)
     (get_stateful_set cl) StatefulSetHasChanged MergeStatefulSet CreateStatefulSet UpdateStatefulSet d"
proof -
  have "bindIO (liftIO (Inr d)) f = f d" for f by (simp add: liftIO_def bindIO_def fun_eq_iff)
  then show ?thesis using assms by (simp add: reconcileStatefulSet_def reconcile_object_def Let_def)
qed

lemma getters:
  "getter (get_config_map cl) (GetObject KConfigMap) (clGetConfigMap cl)"
  "getter (get_service cl) (GetObject KService) (clGetService cl)"
  "getter (get_stateful_set cl) (GetObject KStatefulSet) (clGetStatefulSet cl)"
  "getter (read_secret r cl) (GetObject KSecretData) (if rcHasAPIReader r then clReadSecret cl else clGetSecret cl)"
  by (simp_all add: getter_def get_config_map_def get_service_def get_stateful_set_def read_secret_def)

text \<open>A pass over a StatefulSet an earlier pass of the same spec left writes nothing, so the operator neither
  rolls the pods again nor fights other writers over labels and annotations they added.\<close>

lemma stateful_set_pass_settles:
  assumes "ownership_ok cl"
    and "BuildStatefulSet kl m \<lparr>ReloaderImage = rcReloaderImage r\<rparr> = Inr d"
    and "clSetControllerReference cl (mMeta m) (stsMeta d) = Inr mt"
    and "clGetStatefulSet cl (object_key (stsMeta d)) (rnWorld s) = (Found live, w)"
    and "left_by_pass cl m stsMeta MergeStatefulSet (d\<lparr>stsMeta := mt\<rparr>) live"
  shows "reconcileStatefulSet r kl cl m s =
    (Inr (), s\<lparr>rnWorld := w, rnTrace := rnTrace s @ [GetObject KStatefulSet (object_key (stsMeta d))]\<rparr>)"
  unfolding reconcileStatefulSet_eq [OF assms(2)]
  by (rule sts_settling.settled [OF assms(1) getters(3) assms(3-5)])

subsection \<open>The credentials\<close>

lemma exporter_principal_ok: "principals_ok [ExporterPrincipal password]"
  by (simp add: principals_ok_def ExporterPrincipal_def ExporterUsername_def ReservedPrefix_def
      usernamePattern_def alnum_def has_prefix_def)

lemma exporter_key_not_hashed: "Hashes (fmupd ExporterPasswordKey p data) = Hashes data"
  by (simp add: Hashes_def go_get_upd ExporterPasswordKey_def PasswdKey_def)

text \<open>The credentials settle. A pass that finds the Secret an earlier pass left, with the same users, keeps the
  exporter's password and every hash, renders the very same data without drawing a random byte, and
  writes nothing: the reloader sees no change and the broker gets no signal.\<close>

theorem auth_secret_pass_settles:
  assumes "pbkdf2_ok rt" and "password \<noteq> ''''"
    and "RenderUsers rt FilePayload inputs [ExporterPrincipal password] previous random = Inr (res, random')"
    and "data = fmupd ExporterPasswordKey password (resData res)"
    and "ownership_ok cl"
    and "clSetControllerReference cl (mMeta m) (secMeta (BuildAuthSecret m data)) = Inr mt"
    and "(if rcHasAPIReader r then clReadSecret cl else clGetSecret cl)
      (object_key (secMeta (BuildAuthSecret m data))) (rnWorld s) = (Found live, w)"
    and "left_by_pass cl m secMeta MergeSecret ((BuildAuthSecret m data)\<lparr>secMeta := mt\<rparr>) live"
  shows "exporterPassword (secData live) s = (Inr password, s) \<and>
    RenderUsers rt FilePayload inputs [ExporterPrincipal password] (secData live) random2 = Inr (res, random2) \<and>
    reconcileAuthSecret r cl m (fmupd ExporterPasswordKey password (resData res)) s =
      (Inr (), s\<lparr>rnWorld := w,
         rnTrace := rnTrace s @ [GetObject KSecretData (object_key (secMeta (BuildAuthSecret m data)))]\<rparr>)"
proof -
  have live: "secData live = data"
    using assms(8) by (auto simp: left_by_pass_def MergeSecret_def BuildAuthSecret_def)
  have "exporterPassword (secData live) s = (Inr password, s)"
    using assms(2) by (simp add: live assms(4) exporterPassword_def go_get_upd retIO_def Let_def)
  moreover have "RenderUsers rt FilePayload inputs [ExporterPrincipal password] (secData live) random2 = Inr (res, random2)"
    by (rule file_payload.render_stable [OF assms(1) exporter_principal_ok assms(3)])
      (simp add: live assms(4) FilePayload_def exporter_key_not_hashed)
  moreover have "reconcileAuthSecret r cl m data s = (Inr (), s\<lparr>rnWorld := w,
      rnTrace := rnTrace s @ [GetObject KSecretData (object_key (secMeta (BuildAuthSecret m data)))]\<rparr>)"
    unfolding reconcileAuthSecret_eq by (rule sec_settling.settled [OF assms(5) getters(4) assms(6-8)])
  ultimately show ?thesis by (simp add: assms(4))
qed

subsection \<open>The sample broker, settled\<close>

definition settled_client :: "stateful_set \<Rightarrow> secret \<Rightarrow> unit client" where
  "settled_client live sec = sample_client\<lparr>clGetStatefulSet := \<lambda>key w. (Found live, w),
     clReadSecret := \<lambda>key w. (Found sec, w)\<rparr>"

lemma settled_client_simps:
  "clGetStatefulSet (settled_client live sec) key w = (Found live, w)"
  "clReadSecret (settled_client live sec) key w = (Found sec, w)"
  "clSetControllerReference (settled_client live sec) = clSetControllerReference sample_client"
  "clIsControlledBy (settled_client live sec) = clIsControlledBy sample_client"
  by (simp_all add: settled_client_def)

lemma settled_client_ownership: "ownership_ok (settled_client live sec)"
  using sample_client_ownership unfolding ownership_ok_def settled_client_simps .

definition owned_by_sample :: "object_meta \<Rightarrow> object_meta" where
  "owned_by_sample obj = obj\<lparr>metaOwnerReferences :=
     \<lparr>refKind = ''Mosquitto'', refName = mName sample_broker, refUID = metaUID (mMeta sample_broker), refController = True\<rparr> #
     metaOwnerReferences obj\<rparr>"

lemma sample_set_owner:
  "clSetControllerReference sample_client (mMeta sample_broker) obj = Inr (owned_by_sample obj)"
  by (simp add: sample_client_def owned_by_sample_def)

theorem auth_secret_pass_settles_witness:
  "\<exists>data live sec s'. reconcileAuthSecret (sample_reconciler []) (settled_client live sec) sample_broker data sample_run = (Inr (), s') \<and>
     rnTrace s' = [GetObject KSecretData (object_key (secMeta (BuildAuthSecret sample_broker data)))] \<and>
     exporterPassword (secData sec) sample_run = (Inr ''pw'', sample_run)"
proof -
  obtain res r where R: "RenderUsers sample_runtime FilePayload sample_users sample_reserved fmempty
      (replicate 256 (CHR ''s'')) = Inr (res, r)"
    by (rule sample_files_run)
  obtain sts where "BuildStatefulSet sample_kube sample_broker sample_options = Inr sts"
    by (rule sample_stateful_set)
  let ?data = "fmupd ExporterPasswordKey ''pw'' (resData res)"
  let ?d = "BuildAuthSecret sample_broker ?data"
  let ?live = "?d\<lparr>secMeta := owned_by_sample (secMeta ?d)\<rparr>"
  have l: "left_by_pass (settled_client sts ?live) sample_broker secMeta MergeSecret ?live ?live"
    by (simp add: left_by_pass_def)
  have g: "(if rcHasAPIReader (sample_reconciler []) then clReadSecret (settled_client sts ?live)
      else clGetSecret (settled_client sts ?live)) (object_key (secMeta ?d)) (rnWorld sample_run) = (Found ?live, ())"
    by (simp add: sample_reconciler_def settled_client_simps sample_run_def)
  have o: "clSetControllerReference (settled_client sts ?live) (mMeta sample_broker) (secMeta ?d) =
      Inr (owned_by_sample (secMeta ?d))"
    by (simp add: settled_client_simps sample_set_owner)
  note settled = auth_secret_pass_settles [OF sample_runtime_ok _ R refl settled_client_ownership o g l, of "[]"]
  have trace: "rnTrace (sample_run\<lparr>rnWorld := (),
      rnTrace := rnTrace sample_run @ [GetObject KSecretData (object_key (secMeta ?d))]\<rparr>) =
      [GetObject KSecretData (object_key (secMeta ?d))]" by (simp add: sample_run_def)
  show ?thesis
    by (intro exI [of _ ?data] exI [of _ sts] exI [of _ ?live] exI conjI) (use settled trace in \<open>blast+\<close>)
qed

end
