(* ===== verification/Converge.thy ===== *)
theory Converge
  imports ApiStore Settled
begin

section \<open>A pass over what a pass has left\<close>

text \<open>
  Over a server that stores what is written, each stage of a pass is shown to leave its part of the
  store done, to keep what other stages left, and to be quiet over a part that is done. That a pass which
  succeeded leaves nothing to do follows in \<open>Done\<close>.
\<close>

subsection \<open>The objects of a broker\<close>

text \<open>The live object is one a pass would leave alone.\<close>

definition object_done ::
  "'w client \<Rightarrow> mosquitto \<Rightarrow> ('o \<Rightarrow> object_meta) \<Rightarrow> (object_meta \<Rightarrow> 'o \<Rightarrow> 'o) \<Rightarrow> ('o \<Rightarrow> 'o \<Rightarrow> bool) \<Rightarrow>
     'o \<Rightarrow> 'o option \<Rightarrow> bool" where
  "object_done cl m meta with_meta changed d live \<longleftrightarrow> (\<exists>mt x.
     clSetControllerReference cl (mMeta m) (meta d) = Inr mt \<and> live = Some x \<and>
     clIsControlledBy cl (meta x) (mMeta m) \<and> \<not> changed (with_meta mt d) x)"

lemma set_owner_key:
  assumes "ownership_ok cl" and "clSetControllerReference cl own obj = Inr mt"
  shows "clIsControlledBy cl mt own" and "object_key mt = object_key obj"
proof -
  have mt: "clIsControlledBy cl mt own \<and> mt\<lparr>metaOwnerReferences := metaOwnerReferences obj\<rparr> = obj"
    using assms unfolding ownership_ok_def by blast
  then show "clIsControlledBy cl mt own" by blast
  have "object_key (mt\<lparr>metaOwnerReferences := metaOwnerReferences obj\<rparr>) = object_key mt"
    by (simp add: object_key_def)
  then show "object_key mt = object_key obj" using mt by simp
qed

locale stored = settling changed merge meta with_meta
  for changed :: "'o \<Rightarrow> 'o \<Rightarrow> bool" and merge :: "'o \<Rightarrow> 'o \<Rightarrow> 'o" and meta :: "'o \<Rightarrow> object_meta"
    and with_meta :: "object_meta \<Rightarrow> 'o \<Rightarrow> 'o" +
  fixes sel :: "store \<Rightarrow> nsname \<Rightarrow> 'o option"
    and create :: "'o \<Rightarrow> api_write" and update :: "'o \<Rightarrow> api_write"
  assumes sel_create: "sel (store_write (create x) S) = put meta x (sel S)"
    and sel_update: "sel (store_write (update x) S) = put meta x (sel S)"
    and sel_keyed: "store_ok S \<Longrightarrow> keyed meta (sel S)"
begin

lemma object_stored:
  assumes "serves cl sv" and own: "ownership_ok cl" and "store_ok (svView sv (rnWorld s))"
    and get: "\<And>key. get key = callIO (c key) (\<lambda>w. (lookup_of (svMissing sv key) (sel (svView sv w) key), w))"
    and run: "reconcile_object cl m knd meta with_meta get changed merge create update d s = (Inr (), s')"
  shows "\<exists>x. sel (svView sv (rnWorld s')) = (sel (svView sv (rnWorld s)))(object_key (meta d) \<mapsto> x)"
    and "object_done cl m meta with_meta changed d (sel (svView sv (rnWorld s')) (object_key (meta d)))"
proof -
  let ?S = "svView sv (rnWorld s)" and ?S' = "svView sv (rnWorld s')" and ?key = "object_key (meta d)"
  obtain mt where mt: "clSetControllerReference cl (mMeta m) (meta d) = Inr mt"
    using run by (cases "clSetControllerReference cl (mMeta m) (meta d)")
      (simp_all add: reconcile_object_def setOwner_def wrapIO_def liftIO_def bindIO_def wrap_err_def)
  note key = set_owner_key [OF own mt]
  let ?s = "s\<lparr>rnTrace := rnTrace s @ [c ?key]\<rparr>"
  have run': "(case sel ?S ?key of
      None \<Rightarrow> write_object cl (create (with_meta mt d)) ?s
    | Some cur \<Rightarrow> (if \<not> clIsControlledBy cl (meta cur) (mMeta m) then (Inl (knd @ '' '' @ metaNamespace (meta cur) @ ''/'' @
          metaName (meta cur) @ '' exists and is not owned by this Mosquitto''), ?s)
        else if \<not> changed (with_meta mt d) cur then (Inr (), ?s)
        else write_object cl (update (merge cur (with_meta mt d))) ?s)) = (Inr (), s')"
    using run mt key(2) get
    by (cases "sel ?S ?key")
      (simp_all add: reconcile_object_def setOwner_def wrapIO_def liftIO_def bindIO_def callIO_def
        ensureOwned_def retIO_def failIO_def wrap_err_def Let_def split: if_splits)
  have "\<exists>x. sel ?S' = (sel ?S)(?key \<mapsto> x) \<and> clIsControlledBy cl (meta x) (mMeta m) \<and> \<not> changed (with_meta mt d) x"
  proof (cases "sel ?S ?key")
    case None
    then have "write_object cl (create (with_meta mt d)) ?s = (Inr (), s')" using run' by simp
    from write_effect(1) [OF assms(1) this] have "sel ?S' = (sel ?S)(?key \<mapsto> with_meta mt d)"
      by (simp add: sel_create put_def key)
    then show ?thesis using key same by auto
  next
    case (Some cur)
    have cur: "object_key (meta cur) = ?key"
      using sel_keyed [OF assms(3)] Some unfolding keyed_def by blast
    have c: "clIsControlledBy cl (meta cur) (mMeta m)" using run' Some by (auto split: if_splits)
    show ?thesis
    proof (cases "changed (with_meta mt d) cur")
      case True
      then have "write_object cl (update (merge cur (with_meta mt d))) ?s = (Inr (), s')"
        using run' Some c by simp
      from write_effect(1) [OF assms(1) this] have "sel ?S' = (sel ?S)(?key \<mapsto> merge cur (with_meta mt d))"
        by (simp add: sel_update put_def key_kept cur)
      then show ?thesis using c settles controlled_kept [OF own] by auto
    next
      case False
      then have "s' = ?s" using run' Some c by simp
      then show ?thesis using False c Some by (intro exI [of _ cur]) (simp add: fun_upd_idem)
    qed
  qed
  then show "\<exists>x. sel ?S' = (sel ?S)(?key \<mapsto> x)" "object_done cl m meta with_meta changed d (sel ?S' ?key)"
    using mt unfolding object_done_def by auto
qed

lemma object_quiet:
  assumes "ownership_ok cl"
    and get: "\<And>key. get key = callIO (c key) (\<lambda>w. (lookup_of (svMissing sv key) (sel (svView sv w) key), w))"
    and "\<And>key. no_write (c key)"
    and "object_done cl m meta with_meta changed d (sel (svView sv w) (object_key (meta d)))"
  shows "quiet (reconcile_object cl m knd meta with_meta get changed merge create update d) w ()"
proof -
  obtain mt x where mt: "clSetControllerReference cl (mMeta m) (meta d) = Inr mt"
    and x: "sel (svView sv w) (object_key (meta d)) = Some x" "clIsControlledBy cl (meta x) (mMeta m)"
      "\<not> changed (with_meta mt d) x"
    using assms(4) unfolding object_done_def by blast
  have "quiet (setOwner cl m (meta d) knd) w mt"
    unfolding setOwner_def mt by (intro quiet_wrap quiet_lift)
  moreover have "quiet (get (object_key (meta (with_meta mt d)))) w (Found x)"
    using x(1) set_owner_key(2) [OF assms(1) mt] by (auto simp: get assms(3) intro!: quiet_call)
  moreover have "quiet (bindIO (ensureOwned cl (meta x) m knd) (\<lambda>_. if \<not> changed (with_meta mt d) x then retIO ()
      else write_object cl (update (merge x (with_meta mt d))))) w ()"
    using x by (simp add: ensureOwned_def quiet_ret)
  ultimately show ?thesis
    unfolding reconcile_object_def Let_def by (intro quiet_bind) (assumption | simp)+
qed

end

interpretation cm_stored: stored ConfigMapChanged MergeConfigMap cmMeta "\<lambda>mt d. d\<lparr>cmMeta := mt\<rparr>"
  stConfigMaps CreateConfigMap UpdateConfigMap
  by unfold_locales (simp_all add: store_ok_def)

interpretation svc_stored: stored ServiceChanged MergeService svcMeta "\<lambda>mt d. d\<lparr>svcMeta := mt\<rparr>"
  stServices CreateService UpdateService
  by unfold_locales (simp_all add: store_ok_def)

interpretation sec_stored: stored SecretChanged MergeSecret secMeta "\<lambda>mt d. d\<lparr>secMeta := mt\<rparr>"
  stSecrets CreateSecret UpdateSecret
  by unfold_locales (simp_all add: store_ok_def)

interpretation sts_stored: stored StatefulSetHasChanged MergeStatefulSet stsMeta "\<lambda>mt d. d\<lparr>stsMeta := mt\<rparr>"
  stStatefulSets CreateStatefulSet UpdateStatefulSet
  by unfold_locales (simp_all add: store_ok_def)

subsection \<open>The statuses of the users\<close>

definition user_done :: "string \<Rightarrow> verdict \<Rightarrow> mosquitto_user \<Rightarrow> bool" where
  "user_done username v u \<longleftrightarrow> ustatObservedGeneration (uStatus u) = metaGeneration (uMeta u) \<and>
     ustatUsername (uStatus u) = username \<and> holds_condition (ustatConditions (uStatus u)) (user_condition u v)"

text \<open>A change of statuses only.\<close>

definition status_change :: "(mosquitto_user \<Rightarrow> mosquitto_user) \<Rightarrow> bool" where
  "status_change \<phi> \<longleftrightarrow> (\<forall>u. \<phi> u = u\<lparr>uStatus := uStatus (\<phi> u)\<rparr>)"

lemma status_changeD:
  assumes "status_change \<phi>"
  shows "uMeta (\<phi> u) = uMeta u" "uSpec (\<phi> u) = uSpec u"
proof -
  have "\<phi> u = u\<lparr>uStatus := uStatus (\<phi> u)\<rparr>" using assms unfolding status_change_def by blast
  moreover have "uMeta (u\<lparr>uStatus := x\<rparr>) = uMeta u" "uSpec (u\<lparr>uStatus := x\<rparr>) = uSpec u" for x by simp_all
  ultimately show "uMeta (\<phi> u) = uMeta u" "uSpec (\<phi> u) = uSpec u" by metis+
qed

lemma status_change_id: "status_change (\<lambda>u. u)"
  by (simp add: status_change_def)

lemma status_change_comp: "status_change \<phi> \<Longrightarrow> status_change \<psi> \<Longrightarrow> status_change (\<psi> \<circ> \<phi>)"
proof -
  assume c: "status_change \<phi>" "status_change \<psi>"
  have "\<psi> (\<phi> u) = u\<lparr>uStatus := uStatus (\<psi> (\<phi> u))\<rparr>" for u
    by (rule mosquitto_user.equality) (simp_all add: status_changeD [OF c(1)] status_changeD [OF c(2)])
  then show ?thesis by (simp add: status_change_def)
qed

lemma status_change_with: "status_change (with_user_status u)"
  by (simp add: status_change_def with_user_status_def)

lemma user_condition_meta: "uMeta u = uMeta v \<Longrightarrow> user_condition u x = user_condition v x"
  by (simp add: user_condition_def)

lemma condition_set_holds:
  "conditions_ok cl \<Longrightarrow> holds_condition (clSetStatusCondition cl w cs c) c"
  unfolding conditions_ok_def holds_condition_def by blast

lemma holds_other:
  assumes "conditions_ok cl" and "condType c \<noteq> condType c'"
  shows "holds_condition (clSetStatusCondition cl w cs c) c' = holds_condition cs c'"
  using condition_set(2) [OF assms(1), of "condType c'" c w cs] assms(2) by (simp add: holds_condition_def)

lemma user_stored:
  assumes "serves cl sv" and "conditions_ok cl" and "store_ok (svView sv (rnWorld s))"
    and "u \<in> set (stUsers (svView sv (rnWorld s)))"
    and "persistUserStatus cl u username v s = (Inr (), s')"
  obtains u' where "stUsers (svView sv (rnWorld s')) = map (with_user_status u') (stUsers (svView sv (rnWorld s)))"
    and "uMeta u' = uMeta u" and "uSpec u' = uSpec u" and "user_done username v u'"
proof -
  let ?S = "svView sv (rnWorld s)"
  define st where "st = (uStatus u)\<lparr>ustatObservedGeneration := metaGeneration (uMeta u), ustatUsername := username,
    ustatConditions := clSetStatusCondition cl (rnWorld s) (ustatConditions (uStatus u)) (user_condition u v)\<rparr>"
  let ?u = "u\<lparr>uStatus := st\<rparr>"
  have run: "(if st = uStatus u then (Inr (), s)
      else wrapIO (''writing the status of MosquittoUser '' @ uName u) (write_object cl (UpdateUserStatus ?u)) s) = (Inr (), s')"
    using assms(5) by (simp add: persistUserStatus_def Let_def bindIO_def conditionIO_def retIO_def st_def split: if_splits)
  have inj: "inj_on (object_key \<circ> uMeta) (set (stUsers ?S))"
    using assms(3) unfolding store_ok_def distinct_map by blast
  have same: "map (with_user_status u) (stUsers ?S) = stUsers ?S"
  proof (rule map_idI)
    fix x assume "x \<in> set (stUsers ?S)"
    then have "object_key (uMeta x) = object_key (uMeta u) \<Longrightarrow> x = u"
      using inj_onD [OF inj, of x u] assms(4) by simp
    then show "with_user_status u x = x" by (auto simp: with_user_status_def)
  qed
  have ud: "user_done username v ?u"
    using condition_set_holds [OF assms(2)] by (simp add: user_done_def st_def user_condition_def)
  have "stUsers (svView sv (rnWorld s')) = map (with_user_status ?u) (stUsers ?S)"
  proof (cases "st = uStatus u")
    case True
    then show ?thesis using run same by simp
  next
    case False
    then obtain s1 where "write_object cl (UpdateUserStatus ?u) s = (Inr (), s1)" "rnWorld s1 = rnWorld s'"
      using run by (auto simp: wrapIO_def wrap_err_def split: prod.splits sum.splits)
    from write_effect(1) [OF assms(1) this(1)] this(2) show ?thesis by simp
  qed
  then show ?thesis by (rule that) (simp_all add: ud)
qed

lemma stores_user: "stores sv 1 (persistUserStatus cl u username v)" if "serves cl sv"
  unfolding persistUserStatus_def Let_def
  by (intro stores_rules stores_pure that)
    (simp_all add: conditionIO_def retIO_def stores_def stored_by.none)

lemma users_stored:
  assumes "serves cl sv" and "conditions_ok cl"
  shows "store_ok (svView sv (rnWorld s)) \<Longrightarrow> distinct (map (object_key \<circ> uMeta) us) \<Longrightarrow>
    set us \<subseteq> set (stUsers (svView sv (rnWorld s))) \<Longrightarrow>
    write_statuses cl username vf us s = (Inr (), s') \<Longrightarrow>
    \<exists>\<phi>. status_change \<phi> \<and> stUsers (svView sv (rnWorld s')) = map \<phi> (stUsers (svView sv (rnWorld s))) \<and>
      (\<forall>u \<in> set us. user_done (username u) (vf u) (\<phi> u)) \<and>
      (\<forall>u. object_key (uMeta u) \<notin> (object_key \<circ> uMeta) ` set us \<longrightarrow> \<phi> u = u)"
proof (induction us arbitrary: s)
  case Nil
  then show ?case by (intro exI [of _ "\<lambda>u. u"]) (simp add: retIO_def status_change_id)
next
  case (Cons u us)
  from Cons.prems(4) obtain s1 where p: "persistUserStatus cl u (username u) (vf u) s = (Inr (), s1)"
    and rest: "write_statuses cl username vf us s1 = (Inr (), s')"
    by (auto elim: bind_Inr)
  obtain u' where u': "stUsers (svView sv (rnWorld s1)) = map (with_user_status u') (stUsers (svView sv (rnWorld s)))"
    "uMeta u' = uMeta u" "uSpec u' = uSpec u" "user_done (username u) (vf u) u'"
    using user_stored [OF assms Cons.prems(1) _ p] Cons.prems(3) by auto
  have other: "with_user_status u' x = x" if "object_key (uMeta x) \<noteq> object_key (uMeta u)" for x
    using that by (simp add: with_user_status_def u'(2))
  have apart: "object_key (uMeta x) \<noteq> object_key (uMeta u)" if "x \<in> set us" for x
    using Cons.prems(2) imageI [OF that, of "object_key \<circ> uMeta"] by auto
  have ok: "store_ok (svView sv (rnWorld s1))"
    using stored_by_ok [of 1] stores_user [OF assms(1)] Cons.prems(1) p
    unfolding stores_def by (metis snd_conv)
  have "x \<in> set (stUsers (svView sv (rnWorld s1)))" if "x \<in> set us" for x
  proof -
    have "with_user_status u' x = x" by (rule other [OF apart [OF that]])
    then show ?thesis using that Cons.prems(3) u'(1) by (metis image_eqI list.set_map list.set_intros(2) subsetD)
  qed
  then obtain \<phi> where \<phi>: "status_change \<phi>"
    "stUsers (svView sv (rnWorld s')) = map \<phi> (stUsers (svView sv (rnWorld s1)))"
    "\<forall>x \<in> set us. user_done (username x) (vf x) (\<phi> x)"
    "\<forall>x. object_key (uMeta x) \<notin> (object_key \<circ> uMeta) ` set us \<longrightarrow> \<phi> x = x"
    using Cons.IH [OF ok _ _ rest] Cons.prems(2) by auto
  let ?\<psi> = "\<phi> \<circ> with_user_status u'"
  have uu: "uMeta (with_user_status u' u) = uMeta u" by simp
  have "\<phi> (with_user_status u' u) = with_user_status u' u"
    using \<phi>(4) Cons.prems(2) unfolding uu [symmetric] by auto
  moreover have "user_done (username u) (vf u) (with_user_status u' u)"
    using u'(2-4) by (simp add: user_done_def with_user_status_def user_condition_def)
  moreover have "?\<psi> x = \<phi> x" if "x \<in> set us" for x
    using other [OF apart [OF that]] by simp
  ultimately have "\<forall>x \<in> set (u # us). user_done (username x) (vf x) (?\<psi> x)"
    using \<phi>(3) by auto
  moreover have "\<forall>x. object_key (uMeta x) \<notin> (object_key \<circ> uMeta) ` set (u # us) \<longrightarrow> ?\<psi> x = x"
    using \<phi>(4) other by auto
  moreover have "status_change ?\<psi>" by (rule status_change_comp [OF status_change_with \<phi>(1)])
  moreover have "stUsers (svView sv (rnWorld s')) = map ?\<psi> (stUsers (svView sv (rnWorld s)))"
    by (simp add: \<phi>(2) u'(1))
  ultimately show ?case by blast
qed

lemma user_quiet:
  assumes "condition_kept cl" and "user_done username v u"
  shows "quiet (persistUserStatus cl u username v) w ()"
proof -
  let ?st = "(uStatus u)\<lparr>ustatObservedGeneration := metaGeneration (uMeta u), ustatUsername := username\<rparr>"
  have "clSetStatusCondition cl w (ustatConditions (uStatus u)) (user_condition u v) = ustatConditions (uStatus u)"
    using assms unfolding condition_kept_def user_done_def by blast
  then have "quiet (conditionIO cl (ustatConditions ?st) (user_condition u v)) w (ustatConditions (uStatus u))"
    using quiet_pure(4) [of cl "ustatConditions ?st" "user_condition u v" w] by simp
  moreover have "?st\<lparr>ustatConditions := ustatConditions (uStatus u)\<rparr> = uStatus u"
    using assms(2) by (intro mosquitto_user_status.equality) (simp_all add: user_done_def)
  ultimately show ?thesis
    unfolding persistUserStatus_def Let_def by (intro quiet_bind) (assumption | simp add: quiet_ret)+
qed

lemma users_quiet:
  "condition_kept cl \<Longrightarrow> (\<And>u. u \<in> set us \<Longrightarrow> user_done (username u) (vf u) u) \<Longrightarrow>
     quiet (write_statuses cl username vf us) w ()"
  by (induction us) (auto intro!: quiet_ret quiet_bind user_quiet)

subsection \<open>The rendering\<close>

definition other_secrets :: "nsname \<Rightarrow> store \<Rightarrow> nsname \<Rightarrow> secret option" where
  "other_secrets key S = (stSecrets S)(key := None)"

lemma other_secretsD: "other_secrets k S = other_secrets k S' \<Longrightarrow> key \<noteq> k \<Longrightarrow> stSecrets S key = stSecrets S' key"
  unfolding other_secrets_def by (metis fun_upd_other)

lemma reads_secrets:
  assumes "serves cl sv" and "key \<noteq> k"
  shows "reads sv (other_secrets k) (get_secret cl key)"
    and "reads sv (other_secrets k) (read_secret r cl key)"
    and "reads sv (other_secrets k) (read_secret_meta r cl key)"
  unfolding get_secret_def read_secret_def read_secret_meta_def
  by (rule reads_call; simp add: serves_reads [OF assms(1)]; drule other_secretsD [OF _ assms(2)]; simp)+

lemma reads_credentials:
  assumes "serves cl sv" and "(uNamespace u, credName (userCredentialsSecret (uSpec u))) \<noteq> k"
  shows "reads sv (other_secrets k) (readCredentials rt r cl u)"
  unfolding readCredentials_def Let_def by (intro reads_rules reads_secrets assms)

lemma reads_credentials_loop:
  "serves cl sv \<Longrightarrow> (\<And>u. u \<in> set us \<Longrightarrow> (uNamespace u, credName (userCredentialsSecret (uSpec u))) \<noteq> k) \<Longrightarrow>
     reads sv (other_secrets k) (credentials_loop rt r cl us names verdicts)"
proof (induction us arbitrary: names verdicts)
  case (Cons u us)
  then show ?case by (auto intro!: reads_rules reads_credentials)
qed (simp add: reads_ret)

lemma readCredentials_status:
  assumes "uMeta u' = uMeta u" and "uSpec u' = uSpec u"
  shows "readCredentials rt r cl u' = readCredentials rt r cl u"
  unfolding readCredentials_def credentials_of_def secret_not_found_def uNamespace_def UsernameKey_def PasswordKey_def
    assms by (rule refl)

lemma credentials_loop_status:
  assumes "status_change \<phi>"
  shows "credentials_loop rt r cl (map \<phi> us) names verdicts = credentials_loop rt r cl us names verdicts"
  by (induction us arbitrary: names verdicts)
    (simp_all add: readCredentials_status [OF status_changeD [OF assms]] status_changeD [OF assms] cong: sum.case_cong)

lemma bound_status: "status_change \<phi> \<Longrightarrow> filter (bound_to key) (map \<phi> us) = map \<phi> (filter (bound_to key) us)"
  by (induction us) (simp_all add: bound_to_def uNamespace_def status_changeD)

lemma list_quiet:
  assumes "serves cl sv"
  shows "quiet (listUsers cl ns b) w (filter (bound_to (ns, b)) (stUsers (svView sv w)))"
  unfolding listUsers_def list_users_def
  by (intro quiet_wrap, rule quiet_bind [where f = liftIO, OF quiet_call quiet_lift])
    (simp_all add: serves_reads [OF assms])

lemma auth_data_quiet:
  assumes "serves cl sv" and "rcHasAPIReader r"
    and "stSecrets (svView sv w) (mNamespace m, AuthSecretName m) = Some live"
    and "clIsControlledBy cl (secMeta live) (mMeta m)"
  shows "quiet (currentAuthData r cl m) w (secData live)"
  unfolding currentAuthData_def read_secret_def
  by (rule quiet_bind [OF quiet_call, where a = "Found live"])
    (simp_all add: assms(2-4) serves_reads [OF assms(1)] quiet_ret)

lemma reads_list:
  assumes "serves cl sv"
  shows "reads sv stUsers (listUsers cl ns b)"
  unfolding listUsers_def list_users_def
  by (intro reads_rules reads_call) (simp_all add: serves_reads [OF assms])

lemma reads_auth_data: "serves cl sv \<Longrightarrow> rcHasAPIReader r \<Longrightarrow> reads sv stSecrets (currentAuthData r cl m)"
  unfolding currentAuthData_def read_secret_def
  by (intro reads_rules reads_call) (simp_all add: serves_reads)

lemma exporter_password_fresh:
  assumes "exporterPassword previous s = (Inr password, s')"
  shows "password \<noteq> ''''" and "rnWorld s' = rnWorld s"
proof -
  show "rnWorld s' = rnWorld s"
    using assms
    by (auto simp: exporterPassword_def Let_def bindIO_def retIO_def wrapIO_def randomIO_def read_full_def wrap_err_def
        split: if_splits prod.splits sum.splits)
  note kept = exporterPassword_kept_or_fresh [of previous s]
  show "password \<noteq> ''''"
    using kept assms
    by (cases "go_get previous ExporterPasswordKey = ''''"; cases "32 \<le> length (rnRandom s)") auto
qed

abbreviation auth_key :: "mosquitto \<Rightarrow> nsname" where
  "auth_key m \<equiv> (mNamespace m, AuthSecretName m)"

abbreviation bound_users :: "mosquitto \<Rightarrow> store \<Rightarrow> mosquitto_user list" where
  "bound_users m S \<equiv> filter (bound_to (mNamespace m, mName m)) (stUsers S)"

definition same_object :: "mosquitto \<Rightarrow> mosquitto \<Rightarrow> bool" where
  "same_object m m' \<longleftrightarrow> mMeta m' = mMeta m \<and> mSpec m' = mSpec m"

lemma same_objectD: "same_object m m' \<Longrightarrow> mMeta m' = mMeta m" "same_object m m' \<Longrightarrow> mSpec m' = mSpec m"
  by (simp_all add: same_object_def)

text \<open>The rendering once the credentials and the current data are read.\<close>

definition render_with ::
  "runtime \<Rightarrow> mosquitto \<Rightarrow> mosquitto_user list \<Rightarrow> strmap \<Rightarrow> (string, verdict) fmap \<Rightarrow> input list \<Rightarrow> strmap
     \<Rightarrow> ('w, user_pass) io" where
  "render_with rt m users names verdicts inputs previous =
     bindIO (if IsMetricsEnabled m then exporterPassword previous else retIO '''') (\<lambda>password.
     bindIO (randomIO (RenderUsers rt FilePayload inputs
       (if IsMetricsEnabled m then [ExporterPrincipal password] else []) previous)) (\<lambda>res.
     retIO \<lparr>upUsers = users, upUsernames = names,
       upVerdicts = verdicts ++\<^sub>f resVerdicts res, upAccepted = resAccepted res,
       upData = (if password \<noteq> '''' then fmupd ExporterPasswordKey password (resData res)
                 else resData res)\<rparr>))"

lemma renderUsers_eq:
  "renderUsers rt r cl m = bindIO (listUsers cl (mNamespace m) (mName m)) (\<lambda>users.
     bindIO (credentials_loop rt r cl users fmempty fmempty) (\<lambda>(names, verdicts, inputs).
     bindIO (currentAuthData r cl m) (render_with rt m users names verdicts inputs)))"
  unfolding renderUsers_def render_with_def Let_def ..

lemma render_with_Inr:
  assumes "render_with rt m users names verdicts inputs previous s = (Inr pass, s')"
  obtains password random res random' where
    "password \<noteq> '''' \<longleftrightarrow> IsMetricsEnabled m"
    "RenderUsers rt FilePayload inputs (if IsMetricsEnabled m then [ExporterPrincipal password] else []) previous random =
      Inr (res, random')"
    "pass = \<lparr>upUsers = users, upUsernames = names,
       upVerdicts = verdicts ++\<^sub>f resVerdicts res, upAccepted = resAccepted res,
       upData = (if password \<noteq> '''' then fmupd ExporterPasswordKey password (resData res) else resData res)\<rparr>"
    "rnWorld s' = rnWorld s"
  using assms unfolding render_with_def
proof (elim bind_Inr)
  fix password s1 res s2
  assume pw: "(if IsMetricsEnabled m then exporterPassword previous else retIO '''') s = (Inr password, s1)"
    and rr: "randomIO (RenderUsers rt FilePayload inputs
       (if IsMetricsEnabled m then [ExporterPrincipal password] else []) previous) s1 = (Inr res, s2)"
    and r: "retIO \<lparr>upUsers = users, upUsernames = names,
       upVerdicts = verdicts ++\<^sub>f resVerdicts res, upAccepted = resAccepted res,
       upData = (if password \<noteq> '''' then fmupd ExporterPasswordKey password (resData res) else resData res)\<rparr> s2
       = (Inr pass, s')"
  obtain random' where R: "RenderUsers rt FilePayload inputs
       (if IsMetricsEnabled m then [ExporterPrincipal password] else []) previous (rnRandom s1) = Inr (res, random')"
    and w: "rnWorld s2 = rnWorld s1"
    using rr by (auto simp: randomIO_def split: sum.splits prod.splits)
  have "password \<noteq> '''' \<longleftrightarrow> IsMetricsEnabled m" "rnWorld s1 = rnWorld s"
    using pw exporter_password_fresh [of previous s password s1] by (auto simp: retIO_def split: if_splits)
  with R w r show thesis by (intro that [OF _ R]) (simp_all add: retIO_def)
qed

text \<open>The stages of a rendering that succeeded.\<close>

lemma renderUsers_Inr:
  assumes "serves cl sv" and "rcHasAPIReader r" and "renderUsers rt r cl m s = (Inr pass, s')"
    and "\<And>u. u \<in> set (bound_users m (svView sv (rnWorld s))) \<Longrightarrow>
      (uNamespace u, credName (userCredentialsSecret (uSpec u))) \<noteq> auth_key m"
  obtains s1 names verdicts inputs s2 previous s3 where
    "rnWorld s1 = rnWorld s" "rnWorld s3 = rnWorld s"
    "credentials_loop rt r cl (bound_users m (svView sv (rnWorld s))) fmempty fmempty s1 = (Inr (names, verdicts, inputs), s2)"
    "render_with rt m (bound_users m (svView sv (rnWorld s))) names verdicts inputs previous s3 = (Inr pass, s')"
  using assms(3) unfolding renderUsers_eq
proof (elim bind_Inr)
  let ?us = "bound_users m (svView sv (rnWorld s))"
  fix users s1 a s2
  assume l: "listUsers cl (mNamespace m) (mName m) s = (Inr users, s1)"
    and c: "credentials_loop rt r cl users fmempty fmempty s1 = (Inr a, s2)"
    and rest: "(case a of (names, verdicts, inputs) \<Rightarrow>
      bindIO (currentAuthData r cl m) (render_with rt m users names verdicts inputs)) s2 = (Inr pass, s')"
  obtain names verdicts inputs where a: "a = (names, verdicts, inputs)" by (cases a)
  have us: "users = ?us"
    using list_quiet [OF assms(1), of "mNamespace m" "mName m" "rnWorld s"] l unfolding quiet_def by auto
  obtain previous s3 where p: "currentAuthData r cl m s2 = (Inr previous, s3)"
    and q: "render_with rt m users names verdicts inputs previous s3 = (Inr pass, s')"
    using rest unfolding a prod.case by (rule bind_Inr)
  have w: "rnWorld s1 = rnWorld s" "rnWorld s2 = rnWorld s1" "rnWorld s3 = rnWorld s2"
    using reads_world [OF reads_list [OF assms(1)] l] reads_world [OF reads_auth_data [OF assms(1,2)] p]
      reads_world [OF reads_credentials_loop [OF assms(1,4)] c [unfolded us]] by simp_all
  show thesis
    by (rule that [of s1 s3 names verdicts inputs s2 previous]) (use w c q in \<open>simp_all add: us a\<close>)
qed

text \<open>A rendering over the data another one left.\<close>

lemma render_with_quiet:
  assumes "pbkdf2_ok rt" and "render_with rt m users names verdicts inputs previous s = (Inr pass, s')"
    and "same_object m m'"
  shows "quiet (render_with rt m' users' names verdicts inputs (upData pass)) w (pass\<lparr>upUsers := users'\<rparr>)"
  using assms(2)
proof (rule render_with_Inr)
  fix password random res random'
  let ?reserved = "if IsMetricsEnabled m then [ExporterPrincipal password] else []"
  assume pw: "password \<noteq> '''' \<longleftrightarrow> IsMetricsEnabled m"
    and R: "RenderUsers rt FilePayload inputs ?reserved previous random = Inr (res, random')"
    and pass: "pass = \<lparr>upUsers = users, upUsernames = names,
       upVerdicts = verdicts ++\<^sub>f resVerdicts res, upAccepted = resAccepted res,
       upData = (if password \<noteq> '''' then fmupd ExporterPasswordKey password (resData res) else resData res)\<rparr>"
  have m': "IsMetricsEnabled m' = IsMetricsEnabled m" by (simp add: IsMetricsEnabled_def same_objectD [OF assms(3)])
  have "principals_ok ?reserved" by (simp add: exporter_principal_ok) (simp add: principals_ok_def)
  then have "RenderUsers rt FilePayload inputs ?reserved (upData pass) random2 = Inr (res, random2)" for random2
    by (rule file_payload.render_stable [OF assms(1) _ R]) (simp add: pass FilePayload_def exporter_key_not_hashed)
  then have q: "quiet (randomIO (RenderUsers rt FilePayload inputs ?reserved (upData pass))) w res"
    by (rule quiet_random)
  have "quiet (if IsMetricsEnabled m then exporterPassword (upData pass) else retIO '''') w password"
    using pw by (auto simp: pass exporterPassword_def go_get_upd quiet_ret)
  with q show ?thesis
    unfolding render_with_def m' by (intro quiet_bind [OF _ quiet_bind]) (assumption | simp add: pass quiet_ret)+
qed

lemma renderUsers_world:
  assumes "serves cl sv" and "rcHasAPIReader r" and "renderUsers rt r cl m s = (Inr pass, s')"
    and "\<And>u. u \<in> set (bound_users m (svView sv (rnWorld s))) \<Longrightarrow>
      (uNamespace u, credName (userCredentialsSecret (uSpec u))) \<noteq> auth_key m"
  shows "rnWorld s' = rnWorld s" and "upUsers pass = bound_users m (svView sv (rnWorld s))"
  using renderUsers_Inr [OF assms] render_with_Inr by (metis user_pass.select_convs(1))+

subsection \<open>The desired objects do not depend on the status\<close>

lemmas same_names = ConfigMapName_def StatefulSetName_def HeadlessServiceName_def AuthSecretName_def ClientServiceName_def

lemma same_builds:
  assumes "same_object m m'"
  shows "BuildConfigMap m' = BuildConfigMap m"
    and "BuildHeadlessService m' = BuildHeadlessService m"
    and "BuildClientService m' = BuildClientService m"
    and "BuildAuthSecret m' data = BuildAuthSecret m data"
    and "BuildStatefulSet kl m' opts = BuildStatefulSet kl m opts"
    and "ValidateSpecConfig p m' = ValidateSpecConfig p m"
    and "IsTLSEnabled m' = IsTLSEnabled m" and "tls_secret m' = tls_secret m"
proof -
  note eqs = same_objectD [OF assms]
  have c: "IsTLSEnabled m' = IsTLSEnabled m" "IsMetricsEnabled m' = IsMetricsEnabled m"
    "IsStorageEnabled m' = IsStorageEnabled m" "AntiAffinityMode m' = AntiAffinityMode m"
    "ResolveImage m' = ResolveImage m" "BaseLabels m' = BaseLabels m" "SelectorLabels m' = SelectorLabels m"
    by (simp_all add: fun_eq_iff eqs IsTLSEnabled_def IsMetricsEnabled_def IsStorageEnabled_def AntiAffinityMode_def
        ResolveImage_def BaseLabels_def SelectorLabels_def)
  have p: "BrokerPort m' = BrokerPort m" "BrokerPortName m' = BrokerPortName m"
    "GenerateMosquittoConf m' = GenerateMosquittoConf m" "tls_secret m' = tls_secret m"
    by (simp_all only: BrokerPort_def BrokerPortName_def GenerateMosquittoConf_def tls_secret_def eqs c)
  note simps = eqs c p
  have s: "brokerServicePort m' = brokerServicePort m" by (simp only: brokerServicePort_def simps)
  have k: "buildConfigCheckContainer m' = buildConfigCheckContainer m" "buildBrokerContainer m' = buildBrokerContainer m"
    "buildReloaderSidecar m' = buildReloaderSidecar m" "buildExporterContainer m' = buildExporterContainer m"
    "BuildPodAntiAffinity m' = BuildPodAntiAffinity m"
    by (simp_all only: fun_eq_iff buildConfigCheckContainer_def buildBrokerContainer_def buildReloaderSidecar_def
        buildExporterContainer_def BuildPodAntiAffinity_def simps) simp_all
  have spec: "buildPodSpec m' = buildPodSpec m"
    by (simp only: fun_eq_iff buildPodSpec_def simps k same_names) simp
  have v: "buildVolumeClaimTemplates kl m' = buildVolumeClaimTemplates kl m"
    by (simp only: buildVolumeClaimTemplates_def simps)
  show "BuildConfigMap m' = BuildConfigMap m" by (simp only: BuildConfigMap_def simps same_names)
  show "BuildHeadlessService m' = BuildHeadlessService m" by (simp only: BuildHeadlessService_def simps s same_names)
  show "BuildClientService m' = BuildClientService m" by (simp only: BuildClientService_def simps s same_names)
  show "BuildAuthSecret m' data = BuildAuthSecret m data" by (simp only: BuildAuthSecret_def simps same_names)
  show "BuildStatefulSet kl m' opts = BuildStatefulSet kl m opts"
    by (simp only: BuildStatefulSet_def simps same_names spec v)
  show "ValidateSpecConfig p m' = ValidateSpecConfig p m" by (simp only: ValidateSpecConfig_def simps)
  show "IsTLSEnabled m' = IsTLSEnabled m" "tls_secret m' = tls_secret m" by (fact c(1), fact p(4))
qed

subsection \<open>The stages of a pass\<close>

lemma stores_calls:
  assumes "serves cl sv"
  shows "stores sv n (get_config_map cl key)" "stores sv n (get_service cl key)"
    "stores sv n (get_stateful_set cl key)" "stores sv n (read_secret r cl key)" "stores sv n (get_mosquitto cl key)"
    "stores sv n (setOwner cl m obj knd)" "stores sv n (ensureOwned cl obj m knd)" "stores sv n (retIO a)"
    "stores sv n (failIO e)" "stores sv n (liftIO x)"
  by (rule stores_pure; simp add: get_config_map_def get_service_def get_stateful_set_def read_secret_def get_mosquitto_def
      callIO_def serves_reads [OF assms] setOwner_def ensureOwned_def retIO_def failIO_def liftIO_def wrapIO_def)+

lemma stores_paths:
  assumes "serves cl sv"
  shows "stores sv 0 (reconcileAuthSecret r cl m data)" "stores sv 2 (reconcileConfigMap cl m)"
    "stores sv 3 (reconcileService cl m d)" "stores sv 4 (reconcileStatefulSet r kl cl m)"
  unfolding reconcileConfigMap_def reconcileService_def reconcileStatefulSet_def reconcileAuthSecret_def Let_def
  by (intro stores_rules stores_calls [OF assms] assms; simp)+

lemma stores_write_statuses: "serves cl sv \<Longrightarrow> stores sv 1 (write_statuses cl username vf us)"
  by (induction us) (simp_all add: stores_calls stores_bind stores_user del: One_nat_def)

lemma storesD: "stores sv n m \<Longrightarrow> m s = (x, s') \<Longrightarrow> stored_by n (svView sv (rnWorld s)) (svView sv (rnWorld s'))"
  unfolding stores_def by (metis snd_conv)

lemma gets_served:
  assumes "serves cl sv"
  shows "get_config_map cl key = callIO (GetObject KConfigMap key)
      (\<lambda>w. (lookup_of (svMissing sv key) (stConfigMaps (svView sv w) key), w))"
    and "get_service cl key = callIO (GetObject KService key)
      (\<lambda>w. (lookup_of (svMissing sv key) (stServices (svView sv w) key), w))"
    and "get_stateful_set cl key = callIO (GetObject KStatefulSet key)
      (\<lambda>w. (lookup_of (svMissing sv key) (stStatefulSets (svView sv w) key), w))"
    and "rcHasAPIReader r \<Longrightarrow> read_secret r cl key = callIO (GetObject KSecretData key)
      (\<lambda>w. (lookup_of (svMissing sv key) (stSecrets (svView sv w) key), w))"
    and "get_mosquitto cl key = callIO (GetObject KMosquitto key)
      (\<lambda>w. (lookup_of (svMissing sv key) (stBrokers (svView sv w) key), w))"
  unfolding get_config_map_def get_service_def get_stateful_set_def read_secret_def get_mosquitto_def
  by (simp_all add: serves_reads [OF assms] fun_eq_iff callIO_def)

text \<open>The four kinds of object, done.\<close>

abbreviation config_map_done :: "'w client \<Rightarrow> mosquitto \<Rightarrow> store \<Rightarrow> bool" where
  "config_map_done cl m S \<equiv> object_done cl m cmMeta (\<lambda>mt d. d\<lparr>cmMeta := mt\<rparr>) ConfigMapChanged (BuildConfigMap m)
     (stConfigMaps S (object_key (cmMeta (BuildConfigMap m))))"

abbreviation service_done :: "'w client \<Rightarrow> mosquitto \<Rightarrow> service \<Rightarrow> store \<Rightarrow> bool" where
  "service_done cl m d S \<equiv> object_done cl m svcMeta (\<lambda>mt d. d\<lparr>svcMeta := mt\<rparr>) ServiceChanged d
     (stServices S (object_key (svcMeta d)))"

abbreviation stateful_set_done :: "reconciler \<Rightarrow> kube_lib \<Rightarrow> 'w client \<Rightarrow> mosquitto \<Rightarrow> store \<Rightarrow> bool" where
  "stateful_set_done r kl cl m S \<equiv> (\<exists>d. BuildStatefulSet kl m \<lparr>ReloaderImage = rcReloaderImage r\<rparr> = Inr d \<and>
     object_done cl m stsMeta (\<lambda>mt d. d\<lparr>stsMeta := mt\<rparr>) StatefulSetHasChanged d
       (stStatefulSets S (object_key (stsMeta d))))"

abbreviation secret_done :: "'w client \<Rightarrow> mosquitto \<Rightarrow> strmap \<Rightarrow> store \<Rightarrow> bool" where
  "secret_done cl m data S \<equiv> object_done cl m secMeta (\<lambda>mt d. d\<lparr>secMeta := mt\<rparr>) SecretChanged (BuildAuthSecret m data)
     (stSecrets S (auth_key m))"

lemma built_keys:
  "object_key (secMeta (BuildAuthSecret m data)) = auth_key m"
  "object_key (svcMeta (BuildHeadlessService m)) \<noteq> object_key (svcMeta (BuildClientService m))"
  by (simp_all add: BuildAuthSecret_def BuildHeadlessService_def BuildClientService_def object_key_def
      HeadlessServiceName_def ClientServiceName_def)

lemma paths_done:
  assumes "serves cl sv" and "ownership_ok cl" and "store_ok (svView sv (rnWorld s))"
  shows "rcHasAPIReader r \<Longrightarrow> reconcileAuthSecret r cl m data s = (Inr (), s') \<Longrightarrow>
      secret_done cl m data (svView sv (rnWorld s')) \<and>
      other_secrets (auth_key m) (svView sv (rnWorld s')) = other_secrets (auth_key m) (svView sv (rnWorld s))"
    and "reconcileConfigMap cl m s = (Inr (), s') \<Longrightarrow> config_map_done cl m (svView sv (rnWorld s'))"
    and "reconcileService cl m d s = (Inr (), s') \<Longrightarrow> service_done cl m d (svView sv (rnWorld s')) \<and>
      (\<forall>key. key \<noteq> object_key (svcMeta d) \<longrightarrow>
        stServices (svView sv (rnWorld s')) key = stServices (svView sv (rnWorld s)) key)"
    and "reconcileStatefulSet r kl cl m s = (Inr (), s') \<Longrightarrow> stateful_set_done r kl cl m (svView sv (rnWorld s'))"
proof -
  show "secret_done cl m data (svView sv (rnWorld s')) \<and>
      other_secrets (auth_key m) (svView sv (rnWorld s')) = other_secrets (auth_key m) (svView sv (rnWorld s))"
    if "rcHasAPIReader r" and run: "reconcileAuthSecret r cl m data s = (Inr (), s')"
    using sec_stored.object_stored [OF assms gets_served(4) [OF assms(1) that(1)] run [unfolded reconcileAuthSecret_eq]]
    unfolding built_keys by (auto simp: other_secrets_def)
  show "config_map_done cl m (svView sv (rnWorld s'))" if run: "reconcileConfigMap cl m s = (Inr (), s')"
    by (rule cm_stored.object_stored(2) [OF assms gets_served(1) [OF assms(1)] run [unfolded reconcileConfigMap_eq]])
  show "service_done cl m d (svView sv (rnWorld s')) \<and> (\<forall>key. key \<noteq> object_key (svcMeta d) \<longrightarrow>
      stServices (svView sv (rnWorld s')) key = stServices (svView sv (rnWorld s)) key)"
    if run: "reconcileService cl m d s = (Inr (), s')"
    using svc_stored.object_stored [OF assms gets_served(2) [OF assms(1)] run [unfolded reconcileService_eq]]
    by (auto simp del: split_paired_All)
  show "stateful_set_done r kl cl m (svView sv (rnWorld s'))" if run: "reconcileStatefulSet r kl cl m s = (Inr (), s')"
  proof -
    obtain d where d: "BuildStatefulSet kl m \<lparr>ReloaderImage = rcReloaderImage r\<rparr> = Inr d"
      using run by (cases "BuildStatefulSet kl m \<lparr>ReloaderImage = rcReloaderImage r\<rparr>")
        (simp_all add: reconcileStatefulSet_def liftIO_def bindIO_def)
    show ?thesis
      using sts_stored.object_stored(2) [OF assms gets_served(3) [OF assms(1)]
          run [unfolded reconcileStatefulSet_eq [OF d]]] d by blast
  qed
qed

text \<open>What a pass over resources has left in the store: \<open>S0\<close> is the store it started from.\<close>

definition resources_done ::
  "library \<Rightarrow> reconciler \<Rightarrow> 'w client \<Rightarrow> mosquitto \<Rightarrow> user_pass \<Rightarrow> store \<Rightarrow> store \<Rightarrow> bool" where
  "resources_done lib r cl m pass S0 S \<longleftrightarrow>
     (\<exists>\<phi>. status_change \<phi> \<and> stUsers S = map \<phi> (stUsers S0) \<and>
       (\<forall>u \<in> set (bound_users m S0). user_done (go_get (upUsernames pass) (uName u))
          (verdict_of (upVerdicts pass) (uName u)) (\<phi> u))) \<and>
     other_secrets (auth_key m) S = other_secrets (auth_key m) S0 \<and>
     secret_done cl m (upData pass) S \<and> config_map_done cl m S \<and>
     service_done cl m (BuildHeadlessService m) S \<and> service_done cl m (BuildClientService m) S \<and>
     stateful_set_done r (libKube lib) cl m S"

definition auth_secret_unnamed :: "mosquitto \<Rightarrow> store \<Rightarrow> bool" where
  "auth_secret_unnamed m S \<longleftrightarrow> (IsTLSEnabled m \<longrightarrow> tls_secret m \<noteq> AuthSecretName m) \<and>
     (\<forall>u \<in> set (bound_users m S). credName (userCredentialsSecret (uSpec u)) \<noteq> AuthSecretName m)"

lemma unnamed_credentials:
  "auth_secret_unnamed m S \<Longrightarrow> u \<in> set (bound_users m S) \<Longrightarrow>
     (uNamespace u, credName (userCredentialsSecret (uSpec u))) \<noteq> auth_key m"
  by (auto simp: auth_secret_unnamed_def)

lemma resources_stored:
  assumes srv: "serves cl sv" and own: "ownership_ok cl" and cond: "conditions_ok cl" and api: "rcHasAPIReader r"
    and ok: "store_ok (svView sv (rnWorld s))" and un: "auth_secret_unnamed m (svView sv (rnWorld s))"
    and run: "reconcileResources lib r cl m s = (Inr accepted, s')"
  obtains pass s1 where "renderUsers (libRuntime lib) r cl m s = (Inr pass, s1)" "accepted = upAccepted pass"
    "resources_done lib r cl m pass (svView sv (rnWorld s)) (svView sv (rnWorld s'))"
    "stBrokers (svView sv (rnWorld s')) = stBrokers (svView sv (rnWorld s))" "store_ok (svView sv (rnWorld s'))"
  using run unfolding reconcileResources_def writeUserStatuses_def
proof (elim bind_Inr)
  let ?v = "\<lambda>s. svView sv (rnWorld s)"
  fix pass s1 u1 s2 u2 s3 u3 s4 u4 s5 u5 s6 u6 s7
  assume render: "renderUsers (libRuntime lib) r cl m s = (Inr pass, s1)"
    and secret: "reconcileAuthSecret r cl m (upData pass) s1 = (Inr u1, s2)"
    and users: "write_statuses cl (\<lambda>u. go_get (upUsernames pass) (uName u))
      (\<lambda>u. verdict_of (upVerdicts pass) (uName u)) (upUsers pass) s2 = (Inr u2, s3)"
    and cm: "reconcileConfigMap cl m s3 = (Inr u3, s4)"
    and h: "reconcileService cl m (BuildHeadlessService m) s4 = (Inr u4, s5)"
    and c: "reconcileService cl m (BuildClientService m) s5 = (Inr u5, s6)"
    and sts: "reconcileStatefulSet r (libKube lib) cl m s6 = (Inr u6, s7)"
    and ret: "retIO (upAccepted pass) s7 = (Inr accepted, s')"
  have w1: "rnWorld s1 = rnWorld s" "upUsers pass = bound_users m (?v s)"
    using renderUsers_world [OF srv api render unnamed_credentials [OF un]] by simp_all
  note st = storesD [OF stores_paths(1) [OF srv] secret] storesD [OF stores_write_statuses [OF srv] users]
    storesD [OF stores_paths(2) [OF srv] cm] storesD [OF stores_paths(3) [OF srv] h]
    storesD [OF stores_paths(3) [OF srv] c] storesD [OF stores_paths(4) [OF srv] sts]
  note keeps = st [THEN stored_by_keeps(1)] st [THEN stored_by_keeps(2)] st [THEN stored_by_keeps(3)]
    st [THEN stored_by_keeps(4)] st [THEN stored_by_keeps(6)]
  have ok1: "store_ok (?v s1)" using ok w1(1) by simp
  note oks = ok1 stored_by_ok [OF st(1) ok1]
  note oks = oks stored_by_ok [OF st(2) oks(2)]
  note oks = oks stored_by_ok [OF st(3) oks(3)]
  note oks = oks stored_by_ok [OF st(4) oks(4)]
  note oks = oks stored_by_ok [OF st(5) oks(5)]
  note oks = oks stored_by_ok [OF st(6) oks(6)]
  have s7: "s7 = s'" "accepted = upAccepted pass" using ret by (simp_all add: retIO_def)
  have us: "stUsers (?v s2) = stUsers (?v s)" using keeps w1(1) by simp
  have "set (upUsers pass) \<subseteq> set (stUsers (?v s2))" "distinct (map (object_key \<circ> uMeta) (upUsers pass))"
    using ok by (auto simp: w1(2) us store_ok_def distinct_map_filter)
  then obtain \<phi> where \<phi>: "status_change \<phi>" "stUsers (?v s3) = map \<phi> (stUsers (?v s2))"
    "\<forall>u \<in> set (upUsers pass). user_done (go_get (upUsernames pass) (uName u))
          (verdict_of (upVerdicts pass) (uName u)) (\<phi> u)"
    using users_stored [OF srv cond oks(2) _ _ users [unfolded unit_eq [of u2]]] by blast
  have "secret_done cl m (upData pass) (?v s2) \<and> other_secrets (auth_key m) (?v s2) = other_secrets (auth_key m) (?v s1)"
    using paths_done(1) [OF srv own oks(1) api] secret by simp
  moreover have "config_map_done cl m (?v s4)" using paths_done(2) [OF srv own oks(3)] cm by simp
  moreover have "service_done cl m (BuildHeadlessService m) (?v s5)" using paths_done(3) [OF srv own oks(4)] h by simp
  moreover have "service_done cl m (BuildClientService m) (?v s6)"
    "stServices (?v s6) (object_key (svcMeta (BuildHeadlessService m))) =
     stServices (?v s5) (object_key (svcMeta (BuildHeadlessService m)))"
    using paths_done(3) [OF srv own oks(5)] c built_keys(2) by (simp_all del: split_paired_All)
  moreover have "stateful_set_done r (libKube lib) cl m (?v s7)" using paths_done(4) [OF srv own oks(6)] sts by simp
  ultimately have "resources_done lib r cl m pass (?v s) (?v s')"
    unfolding resources_done_def using \<phi> us w1 keeps s7(1) by (auto simp: other_secrets_def)
  then show thesis
    by (rule that [OF render s7(2)]) (use keeps w1(1) s7(1) oks in simp_all)
qed

subsection \<open>The status of the broker\<close>

lemma statusUnchanged_iff: "statusUnchanged a b \<longleftrightarrow> a = b" for a b :: mosquitto_status
  by (auto simp: statusUnchanged_def intro: mosquitto_status.equality)

abbreviation broker_key :: "mosquitto \<Rightarrow> nsname" where
  "broker_key m \<equiv> object_key (mMeta m)"

lemma status_stored:
  assumes "serves cl sv" and "persistStatus cl m s = (Inr (), s')"
    and "stBrokers (svView sv (rnWorld s)) (broker_key m) = Some old"
    and "store_ok (svView sv (rnWorld s))"
  shows "stBrokers (svView sv (rnWorld s')) =
    (stBrokers (svView sv (rnWorld s)))(broker_key m \<mapsto> old\<lparr>mStatus := mStatus m\<rparr>)"
proof -
  let ?S = "svView sv (rnWorld s)" and ?new = "old\<lparr>mStatus := mStatus m\<rparr>"
  let ?s = "s\<lparr>rnTrace := rnTrace s @ [GetObject KMosquitto (broker_key m)]\<rparr>"
  have key: "broker_key old = broker_key m" using store_ok_broker [OF assms(4,3)] .
  have run: "(if mStatus old = mStatus m then (Inr (), ?s) else write_object cl (UpdateMosquittoStatus ?new) ?s) = (Inr (), s')"
    using assms(2,3)
    by (simp add: persistStatus_def gets_served(5) [OF assms(1)] bindIO_def callIO_def statusUnchanged_iff retIO_def
        split: if_splits)
  show ?thesis
  proof (cases "mStatus old = mStatus m")
    case True
    then have "?new = old" "s' = ?s" using run by simp_all
    then show ?thesis using assms(3) by (simp add: fun_upd_idem)
  next
    case False
    then have "write_object cl (UpdateMosquittoStatus ?new) ?s = (Inr (), s')" using run by simp
    from write_effect(1) [OF assms(1) this] show ?thesis by (simp add: key assms(3))
  qed
qed

lemma status_quiet:
  assumes "serves cl sv" and "stBrokers (svView sv w) (broker_key m) = Some m"
  shows "quiet (persistStatus cl m) w ()"
  unfolding persistStatus_def gets_served(5) [OF assms(1)]
  by (rule quiet_bind [OF quiet_call, where a = "Found m"])
    (simp_all add: assms(2) statusUnchanged_iff quiet_ret)

lemma stores_status: "serves cl sv \<Longrightarrow> stores sv 5 (persistStatus cl m)"
  unfolding persistStatus_def by (intro stores_rules stores_calls) simp_all

definition ready_condition :: "mosquitto \<Rightarrow> string \<Rightarrow> string \<Rightarrow> string \<Rightarrow> condition" where
  "ready_condition m ready reason message = \<lparr>condType = ConditionTypeReady, condStatus = ready,
     condObservedGeneration = metaGeneration (mMeta m), condLastTransitionTime = 0,
     condReason = reason, condMessage = message\<rparr>"

definition phase_done :: "mosquitto \<Rightarrow> string \<Rightarrow> string \<Rightarrow> string \<Rightarrow> string \<Rightarrow> bool" where
  "phase_done m phase ready reason message \<longleftrightarrow> statusPhase (mStatus m) = phase \<and>
     statusObservedGeneration (mStatus m) = metaGeneration (mMeta m) \<and>
     holds_condition (statusConditions (mStatus m)) (ready_condition m ready reason message)"

lemma setPhase_done: "conditions_ok cl \<Longrightarrow> phase_done (setPhase cl w m ph rd rs msg) ph rd rs msg"
  using condition_set_holds by (simp add: phase_done_def setPhase_def ready_condition_def)

lemma setPhase_again:
  assumes "condition_kept cl" and "phase_done m ph rd rs msg"
  shows "setPhase cl w m ph rd rs msg = m"
proof -
  have "clSetStatusCondition cl w (statusConditions (mStatus m)) (ready_condition m rd rs msg) = statusConditions (mStatus m)"
    using assms unfolding condition_kept_def phase_done_def by blast
  then have "(mStatus m)\<lparr>statusPhase := ph, statusObservedGeneration := metaGeneration (mMeta m),
      statusConditions := clSetStatusCondition cl w (statusConditions (mStatus m)) (ready_condition m rd rs msg)\<rparr> = mStatus m"
    using assms(2) by (intro mosquitto_status.equality) (simp_all add: phase_done_def)
  then show ?thesis by (simp add: setPhase_def ready_condition_def)
qed

lemma setPhase_same: "same_object m (setPhase cl w m ph rd rs msg)"
  by (simp add: same_object_def setPhase_def)

definition users_condition :: "mosquitto \<Rightarrow> nat \<Rightarrow> condition" where
  "users_condition m accepted = \<lparr>condType = ConditionTypeUsers,
     condStatus = (if accepted = 0 then ConditionFalse else ConditionTrue),
     condObservedGeneration = metaGeneration (mMeta m), condLastTransitionTime = 0,
     condReason = (if accepted = 0 then ReasonNoUsers else ReasonUsersAccepted),
     condMessage = (if accepted = 0
       then ''the broker requires a login and accepts nobody: no MosquittoUser bound to it is accepted''
       else go_itoa accepted @ '' users accepted'')\<rparr>"

lemma setUsersCondition_eq:
  "setUsersCondition cl w m n = m\<lparr>mStatus := (mStatus m)\<lparr>statusUsers := int32_of n,
     statusConditions := clSetStatusCondition cl w (statusConditions (mStatus m)) (users_condition m n)\<rparr>\<rparr>"
  by (simp add: setUsersCondition_def users_condition_def Let_def)

lemma setUsersCondition_again:
  assumes "condition_kept cl" and "statusUsers (mStatus m) = int32_of n"
    and "holds_condition (statusConditions (mStatus m)) (users_condition m n)"
  shows "setUsersCondition cl w m n = m"
proof -
  have "clSetStatusCondition cl w (statusConditions (mStatus m)) (users_condition m n) = statusConditions (mStatus m)"
    using assms unfolding condition_kept_def by blast
  then have "(mStatus m)\<lparr>statusUsers := int32_of n,
      statusConditions := clSetStatusCondition cl w (statusConditions (mStatus m)) (users_condition m n)\<rparr> = mStatus m"
    using assms(2) by (intro mosquitto_status.equality) simp_all
  then show ?thesis by (simp add: setUsersCondition_eq)
qed

text \<open>An observation sets the phase; which one depends on the spec and the live StatefulSet.\<close>

definition observation :: "int \<Rightarrow> stateful_set option \<Rightarrow> int \<times> string \<times> string \<times> string \<times> string" where
  "observation replicas live = (case live of
     None \<Rightarrow> (0, PhasePending, ConditionFalse, ''StatefulSetNotFound'', ''Waiting for the StatefulSet to be created'')
   | Some sts \<Rightarrow>
       (let ready = stsReadyReplicas sts;
            message = go_itoa_int ready @ ''/'' @ go_itoa_int replicas @ '' broker pods are ready''
        in if replicas > 0 \<and> ready \<ge> replicas then (ready, PhaseReady, ConditionTrue, ''AllReplicasReady'', message)
           else if ready > 0 then (ready, PhaseProgressing, ConditionFalse, ''ReplicasNotReady'', message)
           else (ready, PhasePending, ConditionFalse, ''NoReplicasReady'',
             ''0/'' @ go_itoa_int replicas @ '' broker pods are ready'')))"

lemma observe_eq:
  "observe cl w m live = (case observation (specReplicas (mSpec m)) live of (k, ph, rd, rs, msg) \<Rightarrow>
     setPhase cl w (m\<lparr>mStatus := (mStatus m)\<lparr>statusReadyReplicas := k\<rparr>\<rparr>) ph rd rs msg)"
  by (simp add: observe_def observation_def Let_def split: option.split)

lemma quiet_run: "quiet m (rnWorld s) a \<Longrightarrow> m s = (x, s') \<Longrightarrow> x = Inr a \<and> rnWorld s' = rnWorld s"
  unfolding quiet_def by fastforce

lemma updateStatus_served:
  assumes "serves cl sv"
  shows "updateStatus cl m = bindIO (callIO (GetObject KStatefulSet (mNamespace m, StatefulSetName m))
      (\<lambda>w. (stStatefulSets (svView sv w) (mNamespace m, StatefulSetName m), w)))
    (\<lambda>live. bindIO (observeIO cl m live) (persistStatus cl))"
  unfolding updateStatus_def gets_served(3) [OF assms] bindIO_def callIO_def fun_eq_iff
  by (auto simp: lookup_of_def bindIO_def split: option.split)

lemma finish_quiet:
  assumes "serves cl sv" and "stBrokers (svView sv w) (broker_key m) = Some m"
    and "setUsersCondition cl w m n = m"
    and "observe cl w m (stStatefulSets (svView sv w) (mNamespace m, StatefulSetName m)) = m"
  shows "quiet (finish_pass cl m (Inr (Some n))) w ()"
proof -
  have "quiet (usersIO cl m n) w m" using quiet_pure(2) [of cl m n w] assms(3) by simp
  moreover have "quiet (observeIO cl m (stStatefulSets (svView sv w) (mNamespace m, StatefulSetName m))) w m"
    using quiet_pure(3) [of cl m "stStatefulSets (svView sv w) (mNamespace m, StatefulSetName m)" w] assms(4) by simp
  ultimately show ?thesis
    unfolding finish_pass_def updateStatus_served [OF assms(1)]
    using status_quiet [OF assms(1,2)] by (auto intro!: quiet_bind quiet_call)
qed

subsection \<open>The checks\<close>

definition check_of :: "runtime \<Rightarrow> reconciler \<Rightarrow> mosquitto \<Rightarrow> store \<Rightarrow> (string \<times> string) option" where
  "check_of rt r m S = (case ValidateSpecConfig (rtIsPrint rt) m of
     Some err \<Rightarrow> Some (ReasonConfigDirectiveRefused,
       err @ ''; nothing was written, the broker keeps its running configuration'')
   | None \<Rightarrow>
       if \<not> rcSecretSecurity r \<or> \<not> IsTLSEnabled m then None
       else (case stSecrets S (mNamespace m, tls_secret m) of
           None \<Rightarrow> Some (ReasonSecretNotFound, ''TLS Secret '' @ tls_secret m @
             '' does not exist; with --secret-security=true it must exist and carry '' @
             ConsumableLabel @ ''='' @ ConsumableLabelValue)
         | Some sec \<Rightarrow>
             if go_get (metaLabels (secMeta sec)) ConsumableLabel \<noteq> ConsumableLabelValue
             then Some (ReasonSecretNotConsumable, ''TLS Secret '' @ tls_secret m @ '' does not carry '' @
               ConsumableLabel @ ''='' @ ConsumableLabelValue @ '', which --secret-security=true requires'')
             else None))"

lemma check_of_same:
  assumes "same_object m m'" and "other_secrets (auth_key m) S' = other_secrets (auth_key m) S"
    and "IsTLSEnabled m \<Longrightarrow> tls_secret m \<noteq> AuthSecretName m"
  shows "check_of rt r m' S' = check_of rt r m S"
proof (cases "IsTLSEnabled m")
  case True
  then have "stSecrets S' (mNamespace m, tls_secret m) = stSecrets S (mNamespace m, tls_secret m)"
    by (intro other_secretsD [OF assms(2)]) (simp add: assms(3))
  then show ?thesis by (simp only: check_of_def same_builds [OF assms(1)] same_objectD [OF assms(1)])
qed (simp add: check_of_def same_builds [OF assms(1)])

definition refused_phase :: "'w client \<Rightarrow> 'w \<Rightarrow> mosquitto \<Rightarrow> string \<times> string \<Rightarrow> mosquitto" where
  "refused_phase cl w m why = setPhase cl w m PhaseFailed ConditionFalse (fst why) (snd why)"

lemma checks_quiet:
  assumes "serves cl sv" and "namespaceGranted r (mNamespace m)"
  shows "quiet (refusePass rt r cl m) w (case check_of rt r m (svView sv w) of
    None \<Rightarrow> (m, Inr False) | Some why \<Rightarrow> (refused_phase cl w m why, Inr True))"
proof (cases "ValidateSpecConfig (rtIsPrint rt) m")
  case (Some err)
  then show ?thesis
    unfolding refusePass_def using assms(2)
    by (auto simp: check_of_def refused_phase_def intro!: quiet_bind [OF quiet_pure(1)] quiet_ret)
next
  case None
  let ?e = "svMissing sv (mNamespace m, tls_secret m)" and ?sec = "stSecrets (svView sv w) (mNamespace m, tls_secret m)"
  have read: "quiet (read_secret_meta r cl (mNamespace m, tls_secret m)) w (lookup_of ?e (map_option secMeta ?sec))"
    unfolding read_secret_meta_def by (rule quiet_call) (simp_all add: serves_reads [OF assms(1)])
  have "quiet (refuseTLSSecret r cl m) w (case check_of rt r m (svView sv w) of
    None \<Rightarrow> (m, Inr False) | Some why \<Rightarrow> (refused_phase cl w m why, Inr True))"
  proof (cases "rcSecretSecurity r \<and> IsTLSEnabled m")
    case True
    then show ?thesis
      unfolding refuseTLSSecret_def Let_def check_of_def refused_phase_def using None
      by (cases ?sec) (auto intro!: quiet_bind [OF read] quiet_bind [OF quiet_pure(1)] quiet_ret)
  qed (auto simp: refuseTLSSecret_def check_of_def None quiet_ret)
  then show ?thesis using None assms(2) by (simp add: refusePass_def)
qed

text \<open>The report of a verdict to all users of a broker.\<close>

definition reported :: "nsname \<Rightarrow> verdict \<Rightarrow> store \<Rightarrow> bool" where
  "reported key v S \<longleftrightarrow> (\<forall>u \<in> set (filter (bound_to key) (stUsers S)). user_done (ustatUsername (uStatus u)) v u)"

lemma report_quiet:
  assumes "serves cl sv" and "condition_kept cl" and "reported (ns, b) v (svView sv w)"
  shows "quiet (reportUsers cl ns b v) w ()"
  unfolding reportUsers_def
  by (rule quiet_bind [OF list_quiet [OF assms(1)]], rule users_quiet [OF assms(2)])
    (use assms(3) in \<open>auto simp: reported_def\<close>)

lemma report_stored:
  assumes "serves cl sv" and "conditions_ok cl" and "store_ok (svView sv (rnWorld s))"
    and "reportUsers cl ns b v s = (Inr (), s')"
  shows "reported (ns, b) v (svView sv (rnWorld s'))"
    and "stored_by 1 (svView sv (rnWorld s)) (svView sv (rnWorld s'))"
proof -
  let ?S = "svView sv (rnWorld s)" and ?us = "filter (bound_to (ns, b)) (stUsers (svView sv (rnWorld s)))"
  obtain us s1 where l: "listUsers cl ns b s = (Inr us, s1)"
    and run: "write_statuses cl (\<lambda>u. ustatUsername (uStatus u)) (\<lambda>_. v) us s1 = (Inr (), s')"
    using assms(4) unfolding reportUsers_def by (rule bind_Inr)
  have us: "us = ?us" "rnWorld s1 = rnWorld s"
    using quiet_run [OF list_quiet [OF assms(1)] l] by simp_all
  show "stored_by 1 ?S (svView sv (rnWorld s'))"
    using storesD [OF stores_write_statuses [OF assms(1)] run] us(2) by simp
  have "set us \<subseteq> set (stUsers (svView sv (rnWorld s1)))" "distinct (map (object_key \<circ> uMeta) us)"
    using assms(3) by (auto simp: us store_ok_def distinct_map_filter)
  then obtain \<phi> where \<phi>: "status_change \<phi>" "stUsers (svView sv (rnWorld s')) = map \<phi> (stUsers ?S)"
    "\<forall>u \<in> set ?us. user_done (ustatUsername (uStatus u)) v (\<phi> u)"
    using users_stored [OF assms(1,2) _ _ _ run] assms(3) us by auto
  then show "reported (ns, b) v (svView sv (rnWorld s'))"
    by (auto simp: reported_def bound_status [OF \<phi>(1)] user_done_def)
qed

subsection \<open>The next pass\<close>

abbreviation pass_body :: "library \<Rightarrow> reconciler \<Rightarrow> 'w client \<Rightarrow> mosquitto \<Rightarrow> ('w, unit) io" where
  "pass_body lib r cl m \<equiv> bindIO (refusePass (libRuntime lib) r cl m) (\<lambda>(m, checked).
     bindIO (run_pass lib r cl m checked) (finish_pass cl m))"

lemma refused_phase_same: "same_object m (refused_phase cl w m why)"
  by (simp add: refused_phase_def setPhase_same)

lemma refused_stored:
  assumes "serves cl sv" and "store_ok (svView sv (rnWorld s))"
    and "stBrokers (svView sv (rnWorld s)) (broker_key m) = Some m"
    and "persistStatus cl (refused_phase cl w m why) s = (Inr (), s')"
  shows "stBrokers (svView sv (rnWorld s')) (broker_key m) = Some (refused_phase cl w m why)"
    and "stored_by 5 (svView sv (rnWorld s)) (svView sv (rnWorld s'))"
proof -
  let ?m = "refused_phase cl w m why"
  note meta = same_objectD [OF refused_phase_same [of m cl w why]]
  have "m\<lparr>mStatus := mStatus ?m\<rparr> = ?m" using meta by (intro mosquitto.equality) simp_all
  then show "stBrokers (svView sv (rnWorld s')) (broker_key m) = Some ?m"
    using status_stored [OF assms(1,4), of m] assms(2,3) meta by simp
  show "stored_by 5 (svView sv (rnWorld s)) (svView sv (rnWorld s'))"
    using storesD [OF stores_status [OF assms(1)] assms(4)] by simp
qed

lemma refused_body_quiet:
  assumes "serves cl sv" and "stBrokers (svView sv w) (broker_key m) = Some m"
    and "quiet (refusePass (libRuntime lib) r cl m) w (m, Inr True)"
  shows "quiet (pass_body lib r cl m) w ()"
  using assms(3) status_quiet [OF assms(1,2)]
  by (auto intro!: quiet_bind [OF assms(3)] quiet_bind [OF quiet_ret] simp: run_pass_def finish_pass_def)

text \<open>Why a broker of a namespace without a grant is refused, and what its users are told.\<close>

definition ungranted_why :: "reconciler \<Rightarrow> mosquitto \<Rightarrow> string \<times> string" where
  "ungranted_why r m = (ReasonNamespaceNotGranted,
     ''the operator runs with --secret-namespaces='' @ go_show_list (rcSecretNamespaces r) @
     '', which does not grant it the Secrets of namespace '' @ mNamespace m)"

abbreviation ungranted_report :: "reconciler \<Rightarrow> 'w client \<Rightarrow> mosquitto \<Rightarrow> ('w, unit) io" where
  "ungranted_report r cl m \<equiv> reportUsers cl (mNamespace m) (mName m)
     (refusal (fst (ungranted_why r m)) (snd (ungranted_why r m)))"

lemma ungranted_why_meta: "mMeta m' = mMeta m \<Longrightarrow> ungranted_why r m' = ungranted_why r m"
  by (simp add: ungranted_why_def)

lemma refusePass_ungranted:
  assumes "\<not> namespaceGranted r (mNamespace m)"
  shows "refusePass rt r cl m =
    bindIO (phaseIO cl m PhaseFailed ConditionFalse (fst (ungranted_why r m)) (snd (ungranted_why r m))) (\<lambda>m'.
    bindIO (tryIO (ungranted_report r cl m))
      (\<lambda>res. retIO (m', case res of Inl err \<Rightarrow> Inl err | Inr _ \<Rightarrow> Inr True)))"
  unfolding refusePass_def Let_def ungranted_why_def fst_conv snd_conv if_P [OF assms] by (rule refl)

end
