(* ===== verification/Spared.thy ===== *)
theory Spared
  imports Converge
begin

section \<open>What a pass may touch\<close>

text \<open>
  Whether it succeeds or fails, a pass over a broker leaves the specs of all brokers and users alone, and the
  statuses of the other brokers and of the users that name other brokers; and the managed objects it
  creates or updates are those its broker controls.
\<close>

definition changed_keys :: "(nsname \<Rightarrow> 'o option) \<Rightarrow> (nsname \<Rightarrow> 'o option) \<Rightarrow> nsname set" where
  "changed_keys f g = {k. g k \<noteq> f k}"

lemma changed_keys_simps [simp]:
  "changed_keys f f = {}" "k \<in> changed_keys f g \<longleftrightarrow> g k \<noteq> f k"
  by (simp_all add: changed_keys_def)

lemma finite_changed_trans: "finite (changed_keys f g) \<Longrightarrow> finite (changed_keys g h) \<Longrightarrow> finite (changed_keys f h)"
  by (rule finite_subset [of _ "changed_keys f g \<union> changed_keys g h"]) (auto simp: changed_keys_def)

lemma finite_changed_upd: "finite (changed_keys f (f(k := x)))"
  by (rule finite_subset [of _ "{k}"]) (auto simp: changed_keys_def)

text \<open>What the broker \<open>own\<close> may do to the objects of a kind: create some that refer to it, and update those it controls.\<close>

definition own_object :: "'w client \<Rightarrow> object_meta \<Rightarrow> ('o \<Rightarrow> object_meta) \<Rightarrow> 'o option \<Rightarrow> 'o \<Rightarrow> bool" where
  "own_object cl own meta old x \<longleftrightarrow> (case old of
     None \<Rightarrow> (\<exists>obj mt. clSetControllerReference cl own obj = Inr mt \<and> metaOwnerReferences (meta x) = metaOwnerReferences mt)
   | Some y \<Rightarrow> clIsControlledBy cl (meta y) own \<and> metaOwnerReferences (meta x) = metaOwnerReferences (meta y))"

definition owned_change ::
  "'w client \<Rightarrow> object_meta \<Rightarrow> ('o \<Rightarrow> object_meta) \<Rightarrow> (nsname \<Rightarrow> 'o option) \<Rightarrow> (nsname \<Rightarrow> 'o option) \<Rightarrow> bool" where
  "owned_change cl own meta f g \<longleftrightarrow> finite (changed_keys f g) \<and>
     (\<forall>k. g k = f k \<or> (\<exists>x. g k = Some x \<and> own_object cl own meta (f k) x))"

text \<open>Of the Secrets, it is the rendered one only.\<close>

definition owned_changes :: "'w client \<Rightarrow> mosquitto \<Rightarrow> store \<Rightarrow> store \<Rightarrow> bool" where
  "owned_changes cl m S S' \<longleftrightarrow> other_secrets (auth_key m) S' = other_secrets (auth_key m) S \<and>
     owned_change cl (mMeta m) secMeta (stSecrets S) (stSecrets S') \<and>
     owned_change cl (mMeta m) cmMeta (stConfigMaps S) (stConfigMaps S') \<and>
     owned_change cl (mMeta m) svcMeta (stServices S) (stServices S') \<and>
     owned_change cl (mMeta m) stsMeta (stStatefulSets S) (stStatefulSets S')"

lemma owned_change_refl [simp]: "owned_change cl own meta f f"
  by (simp add: owned_change_def)

lemma owned_change_upd: "own_object cl own meta (f k) x \<Longrightarrow> owned_change cl own meta f (f(k \<mapsto> x))"
  by (simp add: owned_change_def finite_changed_upd)

lemma own_object_trans: "own_object cl own meta old y \<Longrightarrow> own_object cl own meta (Some y) x \<Longrightarrow> own_object cl own meta old x"
  by (auto simp: own_object_def split: option.splits)

lemma owned_changeD: "owned_change cl own meta f g \<Longrightarrow> g k = f k \<or> (\<exists>x. g k = Some x \<and> own_object cl own meta (f k) x)"
  unfolding owned_change_def by blast

lemma owned_change_trans:
  assumes "owned_change cl own meta f g" and "owned_change cl own meta g h"
  shows "owned_change cl own meta f h"
proof -
  have "h k = f k \<or> (\<exists>x. h k = Some x \<and> own_object cl own meta (f k) x)" for k
    using owned_changeD [OF assms(1), of k] owned_changeD [OF assms(2), of k] by (elim disjE exE conjE) (auto dest: own_object_trans)
  then show ?thesis using assms finite_changed_trans unfolding owned_change_def by blast
qed

lemma owned_changes_refl [simp]: "owned_changes cl m S S"
  by (simp add: owned_changes_def)

lemma owned_changes_trans: "owned_changes cl m S S' \<Longrightarrow> owned_changes cl m S' S'' \<Longrightarrow> owned_changes cl m S S''"
  unfolding owned_changes_def by (auto intro: owned_change_trans)

lemma owned_changes_meta: "mMeta m' = mMeta m \<Longrightarrow> owned_changes cl m' S S' = owned_changes cl m S S'"
  by (simp add: owned_changes_def AuthSecretName_def)

definition users_spared :: "nsname \<Rightarrow> mosquitto_user list \<Rightarrow> mosquitto_user list \<Rightarrow> bool" where
  "users_spared key us us' \<longleftrightarrow>
     (\<exists>\<phi>. status_change \<phi> \<and> us' = map \<phi> us \<and> (\<forall>u \<in> set us. \<not> bound_to key u \<longrightarrow> \<phi> u = u))"

text \<open>From the store \<open>S\<close> to \<open>S'\<close>, as a pass over the broker \<open>key\<close> may change it.\<close>

definition spared :: "'w client \<Rightarrow> nsname \<Rightarrow> store \<Rightarrow> store \<Rightarrow> bool" where
  "spared cl key S S' \<longleftrightarrow> store_ok S' \<and>
     (\<forall>k. k \<noteq> key \<longrightarrow> stBrokers S' k = stBrokers S k) \<and>
     rel_option same_object (stBrokers S key) (stBrokers S' key) \<and>
     users_spared key (stUsers S) (stUsers S') \<and>
     (case stBrokers S key of
        None \<Rightarrow> stSecrets S' = stSecrets S \<and> stConfigMaps S' = stConfigMaps S \<and> stServices S' = stServices S \<and>
          stStatefulSets S' = stStatefulSets S
      | Some m \<Rightarrow> owned_changes cl m S S')"

lemma same_object_trans: "same_object a b \<Longrightarrow> same_object b c \<Longrightarrow> same_object a c"
  by (simp add: same_object_def)

lemma same_object_refl [simp]: "same_object a a"
  by (simp add: same_object_def)

lemma rel_same_refl [simp]: "rel_option same_object x x"
  by (simp add: option.rel_refl)

lemma rel_same_trans: "rel_option same_object x y \<Longrightarrow> rel_option same_object y z \<Longrightarrow> rel_option same_object x z"
  by (auto simp: option_rel_Some1 option_rel_Some2 elim!: option.rel_cases intro: same_object_trans)

lemma users_spared_refl [simp]: "users_spared key us us"
  unfolding users_spared_def by (intro exI [of _ "\<lambda>u. u"]) (simp add: status_change_id)

lemma users_spared_trans:
  assumes "users_spared key us us'" and "users_spared key us' us''"
  shows "users_spared key us us''"
proof -
  obtain \<phi> \<psi> where \<phi>: "status_change \<phi>" "us' = map \<phi> us" "\<forall>u \<in> set us. \<not> bound_to key u \<longrightarrow> \<phi> u = u"
    and \<psi>: "status_change \<psi>" "us'' = map \<psi> us'" "\<forall>u \<in> set us'. \<not> bound_to key u \<longrightarrow> \<psi> u = u"
    using assms unfolding users_spared_def by blast
  have "(\<psi> \<circ> \<phi>) u = u" if u: "u \<in> set us" "\<not> bound_to key u" for u
  proof -
    have "\<phi> u = u" using \<phi>(3) u by blast
    moreover have "\<phi> u \<in> set us'" using \<phi>(2) u(1) by simp
    ultimately show ?thesis using \<psi>(3) u(2) by simp
  qed
  then show ?thesis
    unfolding users_spared_def using status_change_comp [OF \<phi>(1) \<psi>(1)] \<phi>(2) \<psi>(2)
    by (intro exI [of _ "\<psi> \<circ> \<phi>"]) simp
qed

lemma spared_refl: "store_ok S \<Longrightarrow> spared cl key S S"
  by (simp add: spared_def split: option.split)

lemma sparedD:
  assumes "spared cl key S S'"
  shows "store_ok S'" "k \<noteq> key \<Longrightarrow> stBrokers S' k = stBrokers S k" "rel_option same_object (stBrokers S k) (stBrokers S' k)"
    "users_spared key (stUsers S) (stUsers S')"
    "stBrokers S key = Some m \<Longrightarrow> owned_changes cl m S S'"
    "stBrokers S key = None \<Longrightarrow> stSecrets S' = stSecrets S \<and> stConfigMaps S' = stConfigMaps S \<and>
       stServices S' = stServices S \<and> stStatefulSets S' = stStatefulSets S"
  using assms unfolding spared_def by (blast, blast, metis rel_same_refl, blast, simp_all)

lemma spared_trans:
  assumes "spared cl key S S'" and "spared cl key S' S''"
  shows "spared cl key S S''"
proof -
  note one = sparedD [OF assms(1)] and two = sparedD [OF assms(2)]
  have "rel_option same_object (stBrokers S key) (stBrokers S' key)" by (rule one(3))
  then have "case stBrokers S key of
      None \<Rightarrow> stSecrets S'' = stSecrets S \<and> stConfigMaps S'' = stConfigMaps S \<and> stServices S'' = stServices S \<and>
        stStatefulSets S'' = stStatefulSets S
    | Some m \<Rightarrow> owned_changes cl m S S''"
  proof (cases rule: option.rel_cases)
    case None
    then show ?thesis using one(6) two(6) by simp
  next
    case (Some m m')
    then have "owned_changes cl m S S'" "owned_changes cl m S' S''"
      using one(5) [of m] two(5) [of m'] by (simp_all add: owned_changes_meta [OF same_objectD(1) [of m m']])
    then show ?thesis using Some by (simp add: owned_changes_trans [of cl m S S'])
  qed
  moreover have "rel_option same_object (stBrokers S key) (stBrokers S'' key)"
    using rel_same_trans one(3) two(3) by blast
  ultimately show ?thesis
    unfolding spared_def using two(1) one(2) two(2) users_spared_trans [OF one(4) two(4)] by simp
qed

lemma store_write_spared:
  assumes "store_ok S"
  shows "object_key (mMeta m) = key \<Longrightarrow> spared cl key S (store_write (UpdateMosquittoStatus m) S)"
    and "(\<And>v. v \<in> set (stUsers S) \<Longrightarrow> object_key (uMeta v) = object_key (uMeta u) \<Longrightarrow> bound_to key v) \<Longrightarrow>
      spared cl key S (store_write (UpdateUserStatus u) S)"
proof -
  note ok = store_write_ok [OF assms]
  show "spared cl key S (store_write (UpdateMosquittoStatus m) S)" if "object_key (mMeta m) = key"
    using that ok [of "UpdateMosquittoStatus m"]
    by (cases "stBrokers S key") (auto simp: spared_def same_object_def owned_changes_def other_secrets_def)
  show "spared cl key S (store_write (UpdateUserStatus u) S)"
    if bound: "\<And>v. v \<in> set (stUsers S) \<Longrightarrow> object_key (uMeta v) = object_key (uMeta u) \<Longrightarrow> bound_to key v"
  proof -
    have "with_user_status u v = v" if "v \<in> set (stUsers S)" "\<not> bound_to key v" for v
      using bound that by (auto simp: with_user_status_def)
    then have "users_spared key (stUsers S) (map (with_user_status u) (stUsers S))"
      unfolding users_spared_def using status_change_with by blast
    then show ?thesis
      using ok [of "UpdateUserStatus u"] by (simp add: spared_def owned_changes_def other_secrets_def split: option.split)
  qed
qed

text \<open>The broker of a pass, in the store: its metadata does not change while the pass runs.\<close>

definition lives :: "mosquitto \<Rightarrow> store \<Rightarrow> bool" where
  "lives m S \<longleftrightarrow> (\<exists>m'. stBrokers S (broker_key m) = Some m' \<and> mMeta m' = mMeta m)"

lemma lives_spared: "spared cl key S S' \<Longrightarrow> lives m S \<Longrightarrow> lives m S'"
  using sparedD(3) [of cl key S S' "broker_key m"] same_objectD(1)
  by (fastforce simp: lives_def option_rel_Some1)

lemma owned_write_spared:
  assumes "store_ok S" and "lives m S" and "owned_changes cl m S (store_write x S)"
    and "write_rank x \<noteq> 1" and "write_rank x \<noteq> 5"
  shows "spared cl (broker_key m) S (store_write x S)"
proof -
  obtain m' where m': "stBrokers S (broker_key m) = Some m'" "mMeta m' = mMeta m" using assms(2) unfolding lives_def by blast
  have "stUsers (store_write x S) = stUsers S" "stBrokers (store_write x S) = stBrokers S"
    using store_write_keeps(2,6) assms(4,5) by blast+
  then show ?thesis
    using assms(3) m'(1) store_write_ok [OF assms(1), of x] by (simp add: spared_def owned_changes_meta [OF m'(2)])
qed

subsection \<open>Computations\<close>

definition spares :: "'w client \<Rightarrow> 'w server \<Rightarrow> nsname \<Rightarrow> ('w, 'a) io \<Rightarrow> 'w run \<Rightarrow> bool" where
  "spares cl sv key m s \<longleftrightarrow>
     (store_ok (svView sv (rnWorld s)) \<longrightarrow> spared cl key (svView sv (rnWorld s)) (svView sv (rnWorld (snd (m s)))))"

definition still :: "('w, 'a) io \<Rightarrow> bool" where
  "still m \<longleftrightarrow> (\<forall>s. rnWorld (snd (m s)) = rnWorld s)"

lemma still_rules:
  "still (retIO a)" "still (failIO e)" "still (liftIO x)" "still (randomIO g)"
  "still m \<Longrightarrow> still (wrapIO what m)" "still m \<Longrightarrow> still (tryIO m)"
  "(\<And>w. snd (h w) = w) \<Longrightarrow> still (callIO c h)"
  "still n \<Longrightarrow> (\<And>a. still (f a)) \<Longrightarrow> still (bindIO n f)"
  by (auto simp: still_def retIO_def failIO_def liftIO_def randomIO_def wrapIO_def tryIO_def callIO_def bindIO_def
      split: sum.split prod.split) (metis snd_conv)+

lemma still_pure:
  "still (phaseIO cl m ph rd rs msg)" "still (usersIO cl m n)" "still (observeIO cl m x)" "still (conditionIO cl cs c)"
  by (simp_all add: still_def phaseIO_def usersIO_def observeIO_def conditionIO_def)

lemma still_cases:
  "(\<And>x. still (f x)) \<Longrightarrow> (\<And>e. still (h e)) \<Longrightarrow> (\<And>e. still (k e)) \<Longrightarrow>
     still (case r of Found x \<Rightarrow> f x | Missing e \<Rightarrow> h e | Unreadable e \<Rightarrow> k e)"
  "(\<And>x. still (p x)) \<Longrightarrow> (\<And>y. still (q y)) \<Longrightarrow> still (case z of Inl x \<Rightarrow> p x | Inr y \<Rightarrow> q y)"
  "(b \<Longrightarrow> still m) \<Longrightarrow> (\<not> b \<Longrightarrow> still n) \<Longrightarrow> still (if b then m else n)"
  "(\<And>a b. still (g a b)) \<Longrightarrow> still (case ab of (a, b) \<Rightarrow> g a b)"
  by (simp_all split: lookup.split sum.split prod.split)

lemmas stills = still_rules still_pure still_cases

lemma stillD: "still m \<Longrightarrow> m s = (x, s') \<Longrightarrow> rnWorld s' = rnWorld s"
  unfolding still_def by (metis snd_conv)

lemma still_gets:
  assumes "serves cl sv"
  shows "still (get_mosquitto cl key)" "still (get_config_map cl key)" "still (get_service cl key)"
    "still (get_stateful_set cl key)" "still (get_secret cl key)" "still (read_secret r cl key)"
    "still (read_secret_meta r cl key)" "still (list_users cl key)"
  unfolding get_mosquitto_def get_config_map_def get_service_def get_stateful_set_def get_secret_def read_secret_def
    read_secret_meta_def list_users_def
  by (intro stills; simp add: serves_reads [OF assms])+

lemma still_render:
  assumes srv: "serves cl sv"
  shows "still (renderUsers rt r cl m)"
proof -
  have "still (credentials_loop rt r cl us names verdicts)" for us names verdicts
  proof (induction us arbitrary: names verdicts)
    case (Cons u us)
    have "still (readCredentials rt r cl u)"
      unfolding readCredentials_def Let_def by (intro stills still_gets [OF srv])
    then show ?case using Cons.IH by (auto intro!: stills)
  qed (simp add: stills)
  then show ?thesis
    unfolding renderUsers_def listUsers_def currentAuthData_def exporterPassword_def Let_def
    by (intro stills still_gets [OF srv])
qed

text \<open>The users of a pass are those bound to its broker, in the order of the list.\<close>

lemma render_users:
  assumes srv: "serves cl sv" and run: "renderUsers rt r cl m s = (Inr pass, s')"
  shows "upUsers pass = bound_users m (svView sv (rnWorld s))"
proof -
  obtain users s1 where l: "listUsers cl (mNamespace m) (mName m) s = (Inr users, s1)"
    and rest: "bindIO (credentials_loop rt r cl users fmempty fmempty) (\<lambda>(names, verdicts, inputs).
      bindIO (currentAuthData r cl m) (render_with rt m users names verdicts inputs)) s1 = (Inr pass, s')"
    using run unfolding renderUsers_eq by (rule bind_Inr)
  obtain names verdicts inputs previous s2 where "render_with rt m users names verdicts inputs previous s2 = (Inr pass, s')"
    using rest by (auto elim!: bind_Inr split: prod.splits)
  then have "upUsers pass = users" by (rule render_with_Inr) simp
  then show ?thesis using quiet_run [OF list_quiet [OF srv] l] by simp
qed

lemma spares_still: "still m \<Longrightarrow> spares cl sv key m s"
  by (simp add: spares_def still_def spared_refl)

lemma spares_parts: "spares cl sv key (wrapIO what m) s = spares cl sv key m s" "spares cl sv key (tryIO m) s = spares cl sv key m s"
  by (simp_all add: spares_def wrapIO_parts(2) tryIO_def split_beta)

lemma spares_bind:
  assumes "spares cl sv key m s"
    and "\<And>a s'. m s = (Inr a, s') \<Longrightarrow> spared cl key (svView sv (rnWorld s)) (svView sv (rnWorld s')) \<Longrightarrow> spares cl sv key (f a) s'"
  shows "spares cl sv key (bindIO m f) s"
  unfolding spares_def
proof
  assume ok: "store_ok (svView sv (rnWorld s))"
  obtain res s' where m: "m s = (res, s')" by (cases "m s")
  have first: "spared cl key (svView sv (rnWorld s)) (svView sv (rnWorld s'))"
    using assms(1) ok m by (simp add: spares_def)
  show "spared cl key (svView sv (rnWorld s)) (svView sv (rnWorld (snd (bindIO m f s))))"
  proof (cases res)
    case (Inl e)
    then show ?thesis using first m by (simp add: bindIO_def)
  next
    case (Inr a)
    have "store_ok (svView sv (rnWorld s'))" using first by (simp add: spared_def)
    then have "spared cl key (svView sv (rnWorld s')) (svView sv (rnWorld (snd (f a s'))))"
      using assms(2) [of a s'] m Inr first by (simp add: spares_def)
    then show ?thesis using spared_trans [OF first] m Inr by (simp add: bindIO_def)
  qed
qed

lemma spares_bind_still:
  "still m \<Longrightarrow> (\<And>a s'. m s = (Inr a, s') \<Longrightarrow> rnWorld s' = rnWorld s \<Longrightarrow> spares cl sv key (f a) s') \<Longrightarrow> spares cl sv key (bindIO m f) s"
  by (rule spares_bind [OF spares_still]) (auto dest: stillD)

lemma spares_write:
  assumes "serves cl sv" and "store_ok (svView sv (rnWorld s)) \<Longrightarrow>
    spared cl key (svView sv (rnWorld s)) (store_write x (svView sv (rnWorld s)))"
  shows "spares cl sv key (write_object cl x) s"
  unfolding spares_def using write_effect(2) [OF assms(1), of x s] assms(2)
  by (metis prod.collapse spared_refl)

subsection \<open>The stages\<close>

text \<open>The users of \<open>us\<close> that the store has are bound to the broker.\<close>

definition users_of :: "nsname \<Rightarrow> mosquitto_user list \<Rightarrow> store \<Rightarrow> bool" where
  "users_of key us S \<longleftrightarrow> (\<forall>u \<in> set us. \<forall>v \<in> set (stUsers S). object_key (uMeta v) = object_key (uMeta u) \<longrightarrow> bound_to key v)"

lemma users_of_bound: "store_ok S \<Longrightarrow> users_of key (filter (bound_to key) (stUsers S)) S"
  unfolding users_of_def
proof (intro ballI impI)
  fix u v assume ok: "store_ok S" and u: "u \<in> set (filter (bound_to key) (stUsers S))" and v: "v \<in> set (stUsers S)"
    and same: "object_key (uMeta v) = object_key (uMeta u)"
  have "inj_on (object_key \<circ> uMeta) (set (stUsers S))" using ok unfolding store_ok_def distinct_map by blast
  then have "v = u" by (rule inj_onD) (use u v same in auto)
  then show "bound_to key v" using u by simp
qed

lemma users_of_spared: "spared cl key S S' \<Longrightarrow> users_of key us S \<Longrightarrow> users_of key us S'"
proof -
  assume sp: "spared cl key S S'" and us: "users_of key us S"
  obtain \<phi> where \<phi>: "status_change \<phi>" "stUsers S' = map \<phi> (stUsers S)"
    using sp unfolding spared_def users_spared_def by blast
  show ?thesis
    using us by (auto simp: users_of_def \<phi>(2) status_changeD [OF \<phi>(1)] bound_to_def uNamespace_def)
qed

lemma spares_statuses:
  fixes cl :: "'w client"
  assumes srv: "serves cl sv"
  shows "users_of key us (svView sv (rnWorld s)) \<Longrightarrow> spares cl sv key (write_statuses cl username vf us) s"
proof (induction us arbitrary: s)
  case (Cons u us)
  have "spares cl sv key (persistUserStatus cl u x v) s" for x v
    unfolding persistUserStatus_def Let_def
  proof (rule spares_bind_still [OF still_pure(4)])
    fix cs and s' :: "'w run" assume w: "rnWorld s' = rnWorld s"
    have "spares cl sv key (write_object cl (UpdateUserStatus (u\<lparr>uStatus := st\<rparr>))) s'" for st
      by (rule spares_write [OF srv], rule store_write_spared(2))
        (use Cons.prems in \<open>auto simp: users_of_def w\<close>)
    then show "spares cl sv key (if (uStatus u)\<lparr>ustatObservedGeneration := metaGeneration (uMeta u), ustatUsername := x\<rparr>
        \<lparr>ustatConditions := cs\<rparr> = uStatus u then retIO ()
      else wrapIO (''writing the status of MosquittoUser '' @ uName u) (write_object cl
        (UpdateUserStatus (u\<lparr>uStatus := (uStatus u)\<lparr>ustatObservedGeneration := metaGeneration (uMeta u), ustatUsername := x\<rparr>
          \<lparr>ustatConditions := cs\<rparr>\<rparr>)))) s'"
      by (simp add: spares_parts spares_still stills)
  qed
  moreover have "users_of key us (svView sv (rnWorld s))" using Cons.prems by (simp add: users_of_def)
  ultimately show ?case by (auto intro!: spares_bind Cons.IH intro: users_of_spared)
qed (simp add: spares_still stills)

lemma spares_report: "serves cl sv \<Longrightarrow> spares cl sv (ns, b) (reportUsers cl ns b v) s"
  unfolding reportUsers_def
proof (rule spares_bind)
  assume srv: "serves cl sv"
  have l: "still (listUsers cl ns b)" unfolding listUsers_def by (intro stills still_gets [OF srv])
  then show "spares cl sv (ns, b) (listUsers cl ns b) s" by (rule spares_still)
  fix us s' assume "listUsers cl ns b s = (Inr us, s')"
    and sp: "spared cl (ns, b) (svView sv (rnWorld s)) (svView sv (rnWorld s'))"
  then have "us = filter (bound_to (ns, b)) (stUsers (svView sv (rnWorld s)))" "rnWorld s' = rnWorld s"
    using quiet_run [OF list_quiet [OF srv]] by fastforce+
  then have "users_of (ns, b) us (svView sv (rnWorld s'))"
    using users_of_bound [of "svView sv (rnWorld s')" "(ns, b)"] sp by (simp add: spared_def)
  then show "spares cl sv (ns, b) (write_statuses cl (\<lambda>u. ustatUsername (uStatus u)) (\<lambda>_. v) us) s'"
    by (rule spares_statuses [OF srv])
qed

lemma spares_status:
  assumes srv: "serves cl sv"
  shows "spares cl sv (broker_key m) (persistStatus cl m) s"
  unfolding persistStatus_def
proof (rule spares_bind_still [OF still_gets(1) [OF srv]])
  fix res s' assume g: "get_mosquitto cl (broker_key m) s = (Inr res, s')" and w: "rnWorld s' = rnWorld s"
  have found: "res = lookup_of (svMissing sv (broker_key m)) (stBrokers (svView sv (rnWorld s)) (broker_key m))"
    using g by (auto simp: gets_served(5) [OF srv] callIO_def)
  have "spares cl sv (broker_key m) (write_object cl (UpdateMosquittoStatus (x\<lparr>mStatus := st\<rparr>))) s'" if "res = Found x" for x st
  proof (rule spares_write [OF srv], rule store_write_spared(1), assumption)
    assume "store_ok (svView sv (rnWorld s'))"
    moreover have "stBrokers (svView sv (rnWorld s')) (broker_key m) = Some x"
      using found that w by (simp add: eq_commute [of "Found x"])
    ultimately show "object_key (mMeta (x\<lparr>mStatus := st\<rparr>)) = broker_key m"
      using store_ok_broker by simp
  qed
  then show "spares cl sv (broker_key m) (case res of
      Missing err \<Rightarrow> failIO err
    | Unreadable err \<Rightarrow> failIO err
    | Found live \<Rightarrow> (if statusUnchanged (mStatus live) (mStatus m) then retIO ()
        else write_object cl (UpdateMosquittoStatus (live\<lparr>mStatus := mStatus m\<rparr>)))) s'"
    by (auto intro: spares_still stills split: lookup.split)
qed

context stored
begin

text \<open>Whatever comes of a write path, the store is as before or has one object of the broker written.\<close>

lemma object_written:
  assumes srv: "serves cl sv" and own: "ownership_ok cl" and ok: "store_ok (svView sv (rnWorld s))"
    and get: "\<And>key. get key = callIO (c key) (\<lambda>w. (lookup_of (svMissing sv key) (sel (svView sv w) key), w))"
    and run: "reconcile_object cl m knd meta with_meta get changed merge create update d s = (res, s')"
  shows "svView sv (rnWorld s') = svView sv (rnWorld s) \<or>
    (\<exists>x. svView sv (rnWorld s') \<in> {store_write (create x) (svView sv (rnWorld s)), store_write (update x) (svView sv (rnWorld s))} \<and>
       object_key (meta x) = object_key (meta d) \<and> own_object cl (mMeta m) meta (sel (svView sv (rnWorld s)) (object_key (meta d))) x)"
proof -
  let ?S = "svView sv (rnWorld s)"
  show ?thesis
  proof (cases "clSetControllerReference cl (mMeta m) (meta d)")
    case (Inl e)
    then have "s' = s" using run by (simp add: reconcile_object_def setOwner_def wrapIO_def liftIO_def bindIO_def wrap_err_def)
    then show ?thesis by simp
  next
    case (Inr mt)
    note key = set_owner_key [OF own Inr]
    let ?s = "s\<lparr>rnTrace := rnTrace s @ [c (object_key (meta d))]\<rparr>"
    have run': "(case sel ?S (object_key (meta d)) of
        None \<Rightarrow> write_object cl (create (with_meta mt d)) ?s
      | Some cur \<Rightarrow> (if \<not> clIsControlledBy cl (meta cur) (mMeta m) then (Inl (knd @ '' '' @ metaNamespace (meta cur) @ ''/'' @
            metaName (meta cur) @ '' exists and is not owned by this Mosquitto''), ?s)
          else if \<not> changed (with_meta mt d) cur then (Inr (), ?s)
          else write_object cl (update (merge cur (with_meta mt d))) ?s)) = (res, s')"
      using run Inr key(2) get
      by (cases "sel ?S (object_key (meta d))")
        (simp_all add: reconcile_object_def setOwner_def wrapIO_def liftIO_def bindIO_def callIO_def
          ensureOwned_def retIO_def failIO_def wrap_err_def Let_def split: if_splits)
    show ?thesis
    proof (cases "sel ?S (object_key (meta d))")
      case None
      then have w: "write_object cl (create (with_meta mt d)) ?s = (res, s')" using run' by simp
      have "own_object cl (mMeta m) meta (sel ?S (object_key (meta d))) (with_meta mt d)"
        using None Inr by (auto simp: own_object_def)
      then show ?thesis using write_effect(2) [OF srv w] key(2) by auto
    next
      case (Some cur)
      have cur: "object_key (meta cur) = object_key (meta d)" using sel_keyed [OF ok] Some unfolding keyed_def by blast
      show ?thesis
      proof (cases "clIsControlledBy cl (meta cur) (mMeta m) \<and> changed (with_meta mt d) cur")
        case True
        then have w: "write_object cl (update (merge cur (with_meta mt d))) ?s = (res, s')" using run' Some by simp
        have "own_object cl (mMeta m) meta (sel ?S (object_key (meta d))) (merge cur (with_meta mt d))"
          using Some True by (simp add: own_object_def owner_kept)
        then show ?thesis using write_effect(2) [OF srv w] key_kept [of cur] cur by auto
      next
        case False
        then have "s' = ?s" using run' Some by (auto split: if_splits)
        then show ?thesis by simp
      qed
    qed
  qed
qed

lemma object_spares:
  assumes srv: "serves cl sv" and own: "ownership_ok cl" and l: "lives m (svView sv (rnWorld s))"
    and get: "\<And>key. get key = callIO (c key) (\<lambda>w. (lookup_of (svMissing sv key) (sel (svView sv w) key), w))"
    and kind: "\<And>S x. object_key (meta x) = object_key (meta d) \<Longrightarrow> own_object cl (mMeta m) meta (sel S (object_key (meta x))) x \<Longrightarrow>
       owned_changes cl m S (store_write (create x) S) \<and> owned_changes cl m S (store_write (update x) S)"
    and rank: "\<And>x. write_rank (create x) \<notin> {1, 5} \<and> write_rank (update x) \<notin> {1, 5}"
  shows "spares cl sv (broker_key m) (reconcile_object cl m knd meta with_meta get changed merge create update d) s"
  unfolding spares_def
proof
  let ?S = "svView sv (rnWorld s)"
  assume ok: "store_ok ?S"
  obtain res s' where run: "reconcile_object cl m knd meta with_meta get changed merge create update d s = (res, s')"
    by (cases "reconcile_object cl m knd meta with_meta get changed merge create update d s")
  from object_written [OF srv own ok get run] have "spared cl (broker_key m) ?S (svView sv (rnWorld s'))"
  proof
    assume "svView sv (rnWorld s') = ?S"
    then show ?thesis by (simp add: spared_refl ok)
  next
    assume "\<exists>x. svView sv (rnWorld s') \<in> {store_write (create x) ?S, store_write (update x) ?S} \<and>
       object_key (meta x) = object_key (meta d) \<and> own_object cl (mMeta m) meta (sel ?S (object_key (meta d))) x"
    then obtain x where x: "svView sv (rnWorld s') = store_write (create x) ?S \<or> svView sv (rnWorld s') = store_write (update x) ?S"
      "object_key (meta x) = object_key (meta d)" "own_object cl (mMeta m) meta (sel ?S (object_key (meta x))) x" by auto
    then show ?thesis using owned_write_spared [OF ok l] kind [OF x(2,3)] rank [of x] by auto
  qed
  then show "spared cl (broker_key m) ?S
      (svView sv (rnWorld (snd (reconcile_object cl m knd meta with_meta get changed merge create update d s))))"
    by (simp add: run)
qed

end

lemma owned_writes:
  "object_key (secMeta a) = auth_key m \<Longrightarrow> own_object cl (mMeta m) secMeta (stSecrets S (auth_key m)) a \<Longrightarrow>
     owned_changes cl m S (S\<lparr>stSecrets := put secMeta a (stSecrets S)\<rparr>)"
  "own_object cl (mMeta m) cmMeta (stConfigMaps S (object_key (cmMeta b))) b \<Longrightarrow>
     owned_changes cl m S (S\<lparr>stConfigMaps := put cmMeta b (stConfigMaps S)\<rparr>)"
  "own_object cl (mMeta m) svcMeta (stServices S (object_key (svcMeta c))) c \<Longrightarrow>
     owned_changes cl m S (S\<lparr>stServices := put svcMeta c (stServices S)\<rparr>)"
  "own_object cl (mMeta m) stsMeta (stStatefulSets S (object_key (stsMeta d))) d \<Longrightarrow>
     owned_changes cl m S (S\<lparr>stStatefulSets := put stsMeta d (stStatefulSets S)\<rparr>)"
  unfolding owned_changes_def put_def by (simp_all add: owned_change_upd other_secrets_def)

lemma spares_paths:
  assumes srv: "serves cl sv" and own: "ownership_ok cl" and l: "lives m (svView sv (rnWorld s))"
  shows "rcHasAPIReader r \<Longrightarrow> spares cl sv (broker_key m) (reconcileAuthSecret r cl m data) s"
    and "spares cl sv (broker_key m) (reconcileConfigMap cl m) s"
    and "spares cl sv (broker_key m) (reconcileService cl m d) s"
    and "spares cl sv (broker_key m) (reconcileStatefulSet r kl cl m) s"
proof -
  show "spares cl sv (broker_key m) (reconcileAuthSecret r cl m data) s" if "rcHasAPIReader r"
    unfolding reconcileAuthSecret_eq
    by (rule sec_stored.object_spares [OF srv own l gets_served(4) [OF srv that]]) (simp_all add: owned_writes built_keys)
  show "spares cl sv (broker_key m) (reconcileConfigMap cl m) s"
    unfolding reconcileConfigMap_eq
    by (rule cm_stored.object_spares [OF srv own l gets_served(1) [OF srv]]) (simp_all add: owned_writes)
  show "spares cl sv (broker_key m) (reconcileService cl m d) s"
    unfolding reconcileService_eq
    by (rule svc_stored.object_spares [OF srv own l gets_served(2) [OF srv]]) (simp_all add: owned_writes)
  show "spares cl sv (broker_key m) (reconcileStatefulSet r kl cl m) s"
  proof (cases "BuildStatefulSet kl m \<lparr>ReloaderImage = rcReloaderImage r\<rparr>")
    case (Inl e)
    then show ?thesis by (intro spares_still) (simp add: reconcileStatefulSet_def still_def liftIO_def bindIO_def)
  next
    case (Inr sts)
    show ?thesis
      unfolding reconcileStatefulSet_eq [OF Inr]
      by (rule sts_stored.object_spares [OF srv own l gets_served(3) [OF srv]]) (simp_all add: owned_writes)
  qed
qed

lemma spares_resources:
  assumes srv: "serves cl sv" and own: "ownership_ok cl" and api: "rcHasAPIReader r"
    and l: "lives m (svView sv (rnWorld s))"
  shows "spares cl sv (broker_key m) (reconcileResources lib r cl m) s"
  unfolding reconcileResources_def
proof (rule spares_bind_still [OF still_render [OF srv]], rule spares_bind)
  let ?key = "broker_key m"
  have key: "?key = (mNamespace m, mName m)" by (simp add: object_key_def)
  fix pass s1 assume run: "renderUsers (libRuntime lib) r cl m s = (Inr pass, s1)" and w: "rnWorld s1 = rnWorld s"
  have l1: "lives m (svView sv (rnWorld s1))" using l w by simp
  show "spares cl sv ?key (reconcileAuthSecret r cl m (upData pass)) s1" by (rule spares_paths(1) [OF srv own l1 api])
  fix a s2 assume sp: "spared cl ?key (svView sv (rnWorld s1)) (svView sv (rnWorld s2))"
    and secret: "reconcileAuthSecret r cl m (upData pass) s1 = (Inr a, s2)"
  have "stUsers (svView sv (rnWorld s2)) = stUsers (svView sv (rnWorld s))"
    using stored_by_keeps(2) [OF storesD [OF stores_paths(1) [OF srv] secret]] w by simp
  then have us: "upUsers pass = filter (bound_to ?key) (stUsers (svView sv (rnWorld s2)))"
    using render_users [OF srv run] by (simp add: key)
  have l2: "lives m (svView sv (rnWorld s2))" by (rule lives_spared [OF sp l1])
  have users: "spares cl sv ?key (writeUserStatuses cl pass) s2"
    unfolding writeUserStatuses_def us by (rule spares_statuses [OF srv users_of_bound [OF sparedD(1) [OF sp]]])
  have path: "spares cl sv ?key (bindIO m' f) s'"
    if "lives m (svView sv (rnWorld s'))" and "spares cl sv ?key m' s'"
      and "\<And>a s''. lives m (svView sv (rnWorld s'')) \<Longrightarrow> spares cl sv ?key (f a) s''" for m' f s'
    by (rule spares_bind [OF that(2)]) (rule that(3) [OF lives_spared [OF _ that(1)]])
  note paths = spares_paths(2-4) [OF srv own]
  show "spares cl sv ?key (bindIO (writeUserStatuses cl pass) (\<lambda>_.
     bindIO (reconcileConfigMap cl m) (\<lambda>_.
     bindIO (reconcileService cl m (BuildHeadlessService m)) (\<lambda>_.
     bindIO (reconcileService cl m (BuildClientService m)) (\<lambda>_.
     bindIO (reconcileStatefulSet r (libKube lib) cl m) (\<lambda>_. retIO (upAccepted pass))))))) s2"
    by (rule path [OF l2 users], rule path, assumption, erule paths, rule path, assumption, erule paths,
        rule path, assumption, erule paths, rule path, assumption, erule paths, rule spares_still [OF still_rules(1)])
qed

lemma spares_refuse:
  assumes srv: "serves cl sv"
  shows "spares cl sv (mNamespace m, mName m) (refusePass rt r cl m) s"
proof (cases "namespaceGranted r (mNamespace m)")
  case True
  have "still (refuseTLSSecret r cl m)"
    unfolding refuseTLSSecret_def Let_def by (intro stills still_gets [OF srv])
  then have "still (case ValidateSpecConfig (rtIsPrint rt) m of
      Some err \<Rightarrow> bindIO (phaseIO cl m PhaseFailed ConditionFalse ReasonConfigDirectiveRefused (what err)) (\<lambda>m'. retIO (m', Inr True))
    | None \<Rightarrow> refuseTLSSecret r cl m)" for what
    by (auto intro!: stills split: option.split)
  then show ?thesis unfolding refusePass_def using True by (simp add: spares_still)
next
  case False
  show ?thesis
    unfolding refusePass_ungranted [OF False]
    by (intro spares_bind_still [OF still_pure(1)] spares_bind)
      (simp_all add: spares_parts spares_report [OF srv] spares_still stills)
qed

lemma spares_finish:
  assumes srv: "serves cl sv"
  shows "spares cl sv (broker_key m) (finish_pass cl m outcome) s"
proof -
  have status: "spares cl sv (broker_key m) (persistStatus cl m') s" if "mMeta m' = mMeta m" for m' s
    using spares_status [OF srv, of m' s] that by simp
  have update: "spares cl sv (broker_key m) (updateStatus cl m') s" if m': "mMeta m' = mMeta m" for m' s
    unfolding updateStatus_served [OF srv]
  proof (intro spares_bind_still still_rules(7) still_pure(3))
    fix live s1 m2 s2 assume "observeIO cl m' live s1 = (Inr m2, s2)"
    then have "mMeta m2 = mMeta m"
      by (auto simp: observeIO_def observe_eq m' split: prod.splits)
    then show "spares cl sv (broker_key m) (persistStatus cl m2) s2" by (rule status)
  qed simp
  have fail: "spares cl sv (broker_key m) (bindIO (phaseIO cl m PhaseFailed ConditionFalse ''ReconcileFailed'' err) (\<lambda>m.
      bindIO (tryIO (persistStatus cl m)) (\<lambda>_. failIO err))) s" for err
  proof (rule spares_bind_still [OF still_pure(1)])
    fix m' s' assume "phaseIO cl m PhaseFailed ConditionFalse ''ReconcileFailed'' err s = (Inr m', s')"
    then have "spares cl sv (broker_key m) (tryIO (persistStatus cl m')) s'"
      unfolding spares_parts by (intro status) (auto simp: phaseIO_def)
    then show "spares cl sv (broker_key m) (bindIO (tryIO (persistStatus cl m')) (\<lambda>_. failIO err)) s'"
      by (rule spares_bind) (rule spares_still [OF still_rules(2)])
  qed
  have report: "spares cl sv (broker_key m) (bindIO (usersIO cl m n) (updateStatus cl)) s" for n
    by (rule spares_bind_still [OF still_pure(2)]) (auto simp: usersIO_def setUsersCondition_eq intro!: update)
  show ?thesis
    unfolding finish_pass_def by (simp add: fail report status split: sum.split option.split)
qed

lemma spares_body:
  assumes srv: "serves cl sv" and own: "ownership_ok cl" and api: "rcHasAPIReader r"
    and l: "lives m (svView sv (rnWorld s))"
  shows "spares cl sv (broker_key m) (pass_body lib r cl m) s"
proof (rule spares_bind)
  let ?key = "broker_key m"
  show "spares cl sv ?key (refusePass (libRuntime lib) r cl m) s"
    using spares_refuse [OF srv, of m] by (simp add: object_key_def)
  fix a s2 assume c: "refusePass (libRuntime lib) r cl m s = (Inr a, s2)"
    and sp: "spared cl ?key (svView sv (rnWorld s)) (svView sv (rnWorld s2))"
  obtain m2 checked where a: "a = (m2, checked)" by (cases a)
  have m2: "mMeta m2 = mMeta m" using refusePass_keeps c unfolding a returns_def by fastforce
  have "lives m2 (svView sv (rnWorld s2))" using lives_spared [OF sp l] by (simp add: lives_def m2)
  then have tried: "spares cl sv ?key (bindIO (tryIO (reconcileResources lib r cl m2)) f) s2" if "\<And>x. still (f x)" for f
    by (intro spares_bind)
      (use spares_resources [OF srv own api, of m2 s2 lib] m2 that in \<open>simp_all add: spares_parts spares_still\<close>)
  have "spares cl sv ?key (run_pass lib r cl m2 checked) s2"
    unfolding run_pass_def by (simp add: tried spares_still stills split: sum.split bool.split)
  then show "spares cl sv ?key (case a of (m, checked) \<Rightarrow> bindIO (run_pass lib r cl m checked) (finish_pass cl m)) s2"
    using spares_finish [OF srv, of m2] m2 by (simp add: a spares_bind)
qed

text \<open>The pass as a whole, whatever its result.\<close>

lemma Reconcile_spares:
  assumes srv: "serves cl sv" and own: "ownership_ok cl" and api: "rcHasAPIReader r"
    and ok: "store_ok (svView sv (rnWorld s))" and run: "Reconcile lib r cl key s = (res, s')"
  shows "spared cl key (svView sv (rnWorld s)) (svView sv (rnWorld s'))"
proof -
  have "spares cl sv key (bindIO (get_mosquitto cl key) (pass_of lib r cl key)) s"
  proof (rule spares_bind_still [OF still_gets(1) [OF srv]])
    fix b s1 assume g: "get_mosquitto cl key s = (Inr b, s1)" and w: "rnWorld s1 = rnWorld s"
    have b: "b = lookup_of (svMissing sv key) (stBrokers (svView sv (rnWorld s)) key)"
      using g by (auto simp: gets_served(5) [OF srv] callIO_def)
    show "spares cl sv key (pass_of lib r cl key b) s1"
    proof (cases "stBrokers (svView sv (rnWorld s)) key")
      case None
      then show ?thesis
        using spares_report [OF srv, of "fst key" "snd key"]
        by (simp add: b pass_of_def reportUsersOfMissingBroker_def split_beta)
    next
      case (Some m)
      have key: "broker_key m = key" by (rule store_ok_broker [OF ok Some])
      have "lives m (svView sv (rnWorld s1))" using Some by (simp add: lives_def key w)
      then have "spares cl sv key (pass_body lib r cl m) s1" using spares_body [OF srv own api, of m s1 lib] by (simp add: key)
      then show ?thesis using Some by (simp add: b pass_of_def spares_still stills)
    qed
  qed
  then show ?thesis using ok run by (simp add: spares_def flip: Reconcile_eq)
qed

end
