(* ===== verification/Done.thy ===== *)
theory Done
  imports Spared
begin

section \<open>A broker for which nothing is left to do\<close>

text \<open>
  \<open>pass_done\<close> says of a store that a pass over a broker would find everything as it wants it: the
  objects, the rendered credentials, the verdicts of the users, the status. It is what a pass that
  succeeded leaves, whatever the store was before; a pass over a store that has it is quiet; and it depends
  on a part of the store only, the objects whose changes the watches report.
\<close>

subsection \<open>The credentials as the store has them\<close>

definition credentials_at :: "runtime \<Rightarrow> reconciler \<Rightarrow> 'w server \<Rightarrow> store \<Rightarrow> mosquitto_user \<Rightarrow> verdict + input" where
  "credentials_at rt r sv S u = (case stSecrets S (uNamespace u, credName (userCredentialsSecret (uSpec u))) of
     None \<Rightarrow> Inl (secret_not_found u)
   | Some sec \<Rightarrow>
       if rcSecretSecurity r \<and> go_get (metaLabels (secMeta (svCached sv sec))) ConsumableLabel \<noteq> ConsumableLabelValue
       then Inl (refusal ReasonSecretNotConsumable
         (''Secret '' @ credName (userCredentialsSecret (uSpec u)) @ '' does not carry '' @ ConsumableLabel @ ''='' @
          ConsumableLabelValue @ '', which --secret-security=true requires''))
       else credentials_of rt u (secData sec))"

fun inputs_at :: "runtime \<Rightarrow> reconciler \<Rightarrow> 'w server \<Rightarrow> store \<Rightarrow> mosquitto_user list \<Rightarrow> strmap \<Rightarrow>
    (string, verdict) fmap \<Rightarrow> strmap \<times> (string, verdict) fmap \<times> input list" where
  "inputs_at rt r sv S [] names verdicts = (names, verdicts, [])"
| "inputs_at rt r sv S (u # us) names verdicts = (case credentials_at rt r sv S u of
     Inl v \<Rightarrow> inputs_at rt r sv S us names (fmupd (uName u) v verdicts)
   | Inr inp \<Rightarrow> (case inputs_at rt r sv S us (fmupd (uName u) (inUsername inp) names) verdicts of
       (names, verdicts, inps) \<Rightarrow> (names, verdicts, inp # inps)))"

lemma credentials_quiet:
  assumes "serves cl sv" and "rcHasAPIReader r"
  shows "quiet (readCredentials rt r cl u) w (credentials_at rt r sv (svView sv w) u)"
proof -
  let ?key = "(uNamespace u, credName (userCredentialsSecret (uSpec u)))"
  let ?sec = "stSecrets (svView sv w) ?key"
  have g: "quiet (get_secret cl ?key) w (lookup_of (svMissing sv ?key) (map_option (svCached sv) ?sec))"
    unfolding get_secret_def by (rule quiet_call) (simp_all add: serves_reads [OF assms(1)])
  have d: "quiet (read_secret r cl ?key) w (lookup_of (svMissing sv ?key) ?sec)"
    unfolding gets_served(4) [OF assms] by (rule quiet_call) simp_all
  show ?thesis
    unfolding readCredentials_def Let_def credentials_at_def
    by (rule quiet_bind [OF g]) (cases ?sec; auto intro!: quiet_ret quiet_bind [OF d])
qed

lemma inputs_quiet:
  assumes "serves cl sv" and "rcHasAPIReader r"
  shows "quiet (credentials_loop rt r cl us names verdicts) w (inputs_at rt r sv (svView sv w) us names verdicts)"
proof (induction us arbitrary: names verdicts)
  case (Cons u us)
  show ?case
    unfolding credentials_loop.simps inputs_at.simps
    by (rule quiet_bind [OF credentials_quiet [OF assms]])
      (auto intro!: Cons.IH quiet_bind [OF Cons.IH] quiet_ret split: sum.split prod.split)
qed (simp add: quiet_ret)

lemma credentials_at_same:
  assumes "uMeta u' = uMeta u" and "uSpec u' = uSpec u"
    and "stSecrets S' (uNamespace u, credName (userCredentialsSecret (uSpec u))) =
      stSecrets S (uNamespace u, credName (userCredentialsSecret (uSpec u)))"
  shows "credentials_at rt r sv S' u' = credentials_at rt r sv S u"
proof -
  have ns: "uNamespace u' = uNamespace u" by (simp add: uNamespace_def assms(1))
  have eqs: "credentials_of rt u' = credentials_of rt u" "secret_not_found u' = secret_not_found u"
    by (simp_all add: fun_eq_iff credentials_of_def secret_not_found_def uNamespace_def UsernameKey_def PasswordKey_def
        assms(1,2))
  show ?thesis unfolding credentials_at_def ns assms(2,3) eqs by (rule refl)
qed

lemma inputs_at_same:
  assumes "status_change \<phi>"
  shows "(\<And>u. u \<in> set us \<Longrightarrow> stSecrets S' (uNamespace u, credName (userCredentialsSecret (uSpec u))) =
      stSecrets S (uNamespace u, credName (userCredentialsSecret (uSpec u)))) \<Longrightarrow>
    inputs_at rt r sv S' (map \<phi> us) names verdicts = inputs_at rt r sv S us names verdicts"
proof (induction us arbitrary: names verdicts)
  case (Cons u us)
  have "credentials_at rt r sv S' (\<phi> u) = credentials_at rt r sv S u"
    by (rule credentials_at_same) (use Cons.prems in \<open>simp_all add: status_changeD [OF assms]\<close>)
  then show ?case
    using Cons by (simp add: status_changeD [OF assms] del: split_paired_All cong: sum.case_cong)
qed simp

text \<open>The rendering of the users of a store, over its own result.\<close>

definition rendered :: "runtime \<Rightarrow> reconciler \<Rightarrow> 'w server \<Rightarrow> mosquitto \<Rightarrow> store \<Rightarrow> user_pass \<Rightarrow> bool" where
  "rendered rt r sv m S pass \<longleftrightarrow>
     (case inputs_at rt r sv S (bound_users m S) fmempty fmempty of (names, verdicts, inputs) \<Rightarrow>
        \<forall>w :: 'w. quiet (render_with rt m (bound_users m S) names verdicts inputs (upData pass)) w pass)"

lemma rendered_users: "rendered rt r sv m S pass \<Longrightarrow> upUsers pass = bound_users m S"
proof -
  assume r: "rendered rt r sv m S pass"
  obtain names verdicts inputs where i: "inputs_at rt r sv S (bound_users m S) fmempty fmempty = (names, verdicts, inputs)"
    by (cases "inputs_at rt r sv S (bound_users m S) fmempty fmempty")
  let ?s = "\<lparr>rnWorld = undefined, rnRandom = [], rnTrace = []\<rparr> :: 'a run"
  have "quiet (render_with rt m (bound_users m S) names verdicts inputs (upData pass)) (rnWorld ?s) pass"
    using r unfolding rendered_def i prod.case by blast
  then obtain s' where "render_with rt m (bound_users m S) names verdicts inputs (upData pass) ?s = (Inr pass, s')"
    unfolding quiet_def by blast
  then show ?thesis by (rule render_with_Inr) simp
qed

lemma rendering_left:
  assumes srv: "serves cl sv" and api: "rcHasAPIReader r" and pb: "pbkdf2_ok rt"
    and run: "renderUsers rt r cl m s = (Inr pass, s')"
    and un: "auth_secret_unnamed m (svView sv (rnWorld s))"
    and others: "other_secrets (auth_key m) S' = other_secrets (auth_key m) (svView sv (rnWorld s))"
    and users: "status_change \<phi>" "stUsers S' = map \<phi> (stUsers (svView sv (rnWorld s)))" and same: "same_object m m'"
  shows "rendered rt r sv m' S' (pass\<lparr>upUsers := bound_users m' S'\<rparr>)"
proof (rule renderUsers_Inr [OF srv api run unnamed_credentials [OF un]])
  let ?S = "svView sv (rnWorld s)"
  let ?us = "bound_users m ?S"
  fix s1 names verdicts inputs s2 previous s3
  assume w: "rnWorld s1 = rnWorld s"
    and c: "credentials_loop rt r cl ?us fmempty fmempty s1 = (Inr (names, verdicts, inputs), s2)"
    and q: "render_with rt m ?us names verdicts inputs previous s3 = (Inr pass, s')"
  have us: "bound_users m' S' = map \<phi> ?us"
    by (simp add: same_objectD [OF same] users(2) bound_status [OF users(1)])
  have "stSecrets S' (uNamespace u, credName (userCredentialsSecret (uSpec u))) =
      stSecrets ?S (uNamespace u, credName (userCredentialsSecret (uSpec u)))" if "u \<in> set ?us" for u
    by (rule other_secretsD [OF others unnamed_credentials [OF un that]])
  then have "inputs_at rt r sv S' (bound_users m' S') fmempty fmempty = inputs_at rt r sv ?S ?us fmempty fmempty"
    unfolding us by (rule inputs_at_same [OF users(1)])
  also have "\<dots> = (names, verdicts, inputs)"
    using quiet_run [OF inputs_quiet [OF srv api] c] w by simp
  finally show ?thesis
    unfolding rendered_def by (simp add: render_with_quiet [OF pb q same])
qed

lemma rendering_quiet:
  assumes srv: "serves cl sv" and api: "rcHasAPIReader r" and left: "rendered rt r sv m (svView sv w) pass"
    and live: "stSecrets (svView sv w) (auth_key m) = Some live" "clIsControlledBy cl (secMeta live) (mMeta m)"
      "secData live = upData pass"
  shows "quiet (renderUsers rt r cl m) w pass"
proof -
  let ?us = "bound_users m (svView sv w)"
  obtain names verdicts inputs where i: "inputs_at rt r sv (svView sv w) ?us fmempty fmempty = (names, verdicts, inputs)"
    by (cases "inputs_at rt r sv (svView sv w) ?us fmempty fmempty")
  have q: "quiet (render_with rt m ?us names verdicts inputs (upData pass)) w pass"
    using left unfolding rendered_def i by simp
  have "quiet (bindIO (currentAuthData r cl m) (render_with rt m ?us names verdicts inputs)) w pass"
    using auth_data_quiet [OF srv api live(1,2)] live(3) q by (auto intro: quiet_bind)
  moreover have "quiet (credentials_loop rt r cl ?us fmempty fmempty) w (names, verdicts, inputs)"
    using inputs_quiet [OF srv api, of rt ?us fmempty fmempty w] i by simp
  ultimately show ?thesis
    unfolding renderUsers_eq by (intro quiet_bind [OF list_quiet [OF srv]] quiet_bind) (assumption | simp)+
qed

subsection \<open>The resources\<close>

definition resources_left :: "library \<Rightarrow> reconciler \<Rightarrow> 'w client \<Rightarrow> 'w server \<Rightarrow> mosquitto \<Rightarrow> store \<Rightarrow> nat \<Rightarrow> bool" where
  "resources_left lib r cl sv m S n \<longleftrightarrow> (\<exists>pass. n = upAccepted pass \<and>
     rendered (libRuntime lib) r sv m S pass \<and>
     (\<forall>u \<in> set (bound_users m S). user_done (go_get (upUsernames pass) (uName u))
        (verdict_of (upVerdicts pass) (uName u)) u) \<and>
     secret_done cl m (upData pass) S \<and> config_map_done cl m S \<and>
     service_done cl m (BuildHeadlessService m) S \<and> service_done cl m (BuildClientService m) S \<and>
     stateful_set_done r (libKube lib) cl m S)"

lemma resources_quiet:
  assumes srv: "serves cl sv" and own: "ownership_ok cl" and kept: "condition_kept cl" and api: "rcHasAPIReader r"
    and left: "resources_left lib r cl sv m (svView sv w) n"
  shows "quiet (reconcileResources lib r cl m) w n"
proof -
  obtain pass where pass: "n = upAccepted pass" "rendered (libRuntime lib) r sv m (svView sv w) pass"
    "\<forall>u \<in> set (bound_users m (svView sv w)). user_done (go_get (upUsernames pass) (uName u))
        (verdict_of (upVerdicts pass) (uName u)) u"
    and objects: "secret_done cl m (upData pass) (svView sv w)" "config_map_done cl m (svView sv w)"
      "service_done cl m (BuildHeadlessService m) (svView sv w)" "service_done cl m (BuildClientService m) (svView sv w)"
      "stateful_set_done r (libKube lib) cl m (svView sv w)"
    using left unfolding resources_left_def by blast
  obtain mt live where live: "stSecrets (svView sv w) (auth_key m) = Some live"
    "clIsControlledBy cl (secMeta live) (mMeta m)" "\<not> SecretChanged (BuildAuthSecret m (upData pass)\<lparr>secMeta := mt\<rparr>) live"
    using objects(1) unfolding object_done_def by blast
  have data: "secData live = upData pass" using live(3) by (simp add: SecretChanged_def BuildAuthSecret_def)
  have q2: "quiet (reconcileAuthSecret r cl m (upData pass)) w ()"
    unfolding reconcileAuthSecret_eq
    by (rule sec_stored.object_quiet [OF own gets_served(4) [OF srv api]]) (use objects in \<open>simp_all add: built_keys\<close>)
  have q3: "quiet (writeUserStatuses cl pass) w ()"
    unfolding writeUserStatuses_def rendered_users [OF pass(2)] by (rule users_quiet [OF kept]) (use pass(3) in blast)
  have q4: "quiet (reconcileConfigMap cl m) w ()"
    unfolding reconcileConfigMap_eq
    by (rule cm_stored.object_quiet [OF own gets_served(1) [OF srv]]) (use objects in simp_all)
  have q5: "quiet (reconcileService cl m d) w ()" if "service_done cl m d (svView sv w)" for d
    unfolding reconcileService_eq
    by (rule svc_stored.object_quiet [OF own gets_served(2) [OF srv]]) (use that in simp_all)
  obtain d where d: "BuildStatefulSet (libKube lib) m \<lparr>ReloaderImage = rcReloaderImage r\<rparr> = Inr d"
    "object_done cl m stsMeta (\<lambda>mt d. d\<lparr>stsMeta := mt\<rparr>) StatefulSetHasChanged d
       (stStatefulSets (svView sv w) (object_key (stsMeta d)))"
    using objects(5) by blast
  have q6: "quiet (reconcileStatefulSet r (libKube lib) cl m) w ()"
    unfolding reconcileStatefulSet_eq [OF d(1)]
    by (rule sts_stored.object_quiet [OF own gets_served(3) [OF srv]]) (use d(2) in simp_all)
  show ?thesis
    unfolding reconcileResources_def pass(1)
    by (rule quiet_bind [OF rendering_quiet [OF srv api pass(2) live(1,2) data]] quiet_bind [OF q2] quiet_bind [OF q3]
        quiet_bind [OF q4] quiet_bind [OF q5 [OF objects(3)]] quiet_bind [OF q5 [OF objects(4)]] quiet_bind [OF q6] quiet_ret)+
qed

lemma resources_stored_left:
  assumes srv: "serves cl sv" and own: "ownership_ok cl" and cond: "conditions_ok cl" and api: "rcHasAPIReader r"
    and pb: "pbkdf2_ok (libRuntime lib)"
    and ok: "store_ok (svView sv (rnWorld s))" and un: "auth_secret_unnamed m (svView sv (rnWorld s))"
    and run: "reconcileResources lib r cl m s = (Inr n, s')"
  shows "resources_left lib r cl sv m (svView sv (rnWorld s')) n"
    and "other_secrets (auth_key m) (svView sv (rnWorld s')) = other_secrets (auth_key m) (svView sv (rnWorld s))"
    and "stBrokers (svView sv (rnWorld s')) = stBrokers (svView sv (rnWorld s))" and "store_ok (svView sv (rnWorld s'))"
proof -
  let ?S = "svView sv (rnWorld s)" and ?S' = "svView sv (rnWorld s')"
  obtain pass s1 where pass: "renderUsers (libRuntime lib) r cl m s = (Inr pass, s1)" "n = upAccepted pass"
    "resources_done lib r cl m pass ?S ?S'" "stBrokers ?S' = stBrokers ?S" "store_ok ?S'"
    by (rule resources_stored [OF srv own cond api ok un run])
  obtain \<phi> where \<phi>: "status_change \<phi>" "stUsers ?S' = map \<phi> (stUsers ?S)"
    "\<forall>u \<in> set (bound_users m ?S). user_done (go_get (upUsernames pass) (uName u))
       (verdict_of (upVerdicts pass) (uName u)) (\<phi> u)"
    using pass(3) unfolding resources_done_def by blast
  note objects = pass(3) [unfolded resources_done_def, THEN conjunct2]
  let ?pass = "pass\<lparr>upUsers := bound_users m ?S'\<rparr>"
  have us: "bound_users m ?S' = map \<phi> (bound_users m ?S)" by (simp add: \<phi>(2) bound_status [OF \<phi>(1)])
  have "rendered (libRuntime lib) r sv m ?S' ?pass"
    by (rule rendering_left [OF srv api pb pass(1) un _ \<phi>(1,2)]) (use objects in \<open>simp_all add: same_object_def\<close>)
  moreover have "\<forall>u \<in> set (bound_users m ?S'). user_done (go_get (upUsernames ?pass) (uName u))
      (verdict_of (upVerdicts ?pass) (uName u)) u"
    using \<phi>(3) by (auto simp: us status_changeD [OF \<phi>(1)])
  ultimately show "resources_left lib r cl sv m ?S' n"
    unfolding resources_left_def using objects by (intro exI [of _ ?pass]) (simp add: pass(2))
  show "other_secrets (auth_key m) ?S' = other_secrets (auth_key m) ?S" using objects by blast
  show "stBrokers ?S' = stBrokers ?S" "store_ok ?S'" by (fact pass(4), fact pass(5))
qed

text \<open>The status of a broker says nothing about its resources.\<close>

lemma resources_left_same:
  assumes same: "same_object m m'" and left: "resources_left lib r cl sv m S n"
    and S: "stSecrets S' = stSecrets S" "stUsers S' = stUsers S" "stConfigMaps S' = stConfigMaps S"
      "stServices S' = stServices S" "stStatefulSets S' = stStatefulSets S"
  shows "resources_left lib r cl sv m' S' n"
proof -
  note eqs = same_objectD [OF same] same_builds [OF same] S
  have i: "inputs_at rt r sv S' us names verdicts = inputs_at rt r sv S us names verdicts" for rt us names verdicts
    using inputs_at_same [OF status_change_id, of us S' S] by (simp add: S)
  have rw: "render_with rt m' users names verdicts inputs previous = render_with rt m users names verdicts inputs previous"
    for rt users names verdicts inputs previous
    by (simp only: render_with_def IsMetricsEnabled_def eqs)
  have rd: "rendered rt r sv m' S' pass = rendered rt r sv m S pass" for rt pass
    by (simp only: rendered_def eqs i rw)
  have od: "object_done cl m' meta with_meta changed d x = object_done cl m meta with_meta changed d x"
    for meta with_meta changed d x by (simp only: object_done_def eqs)
  show ?thesis
    using left by (simp only: resources_left_def eqs AuthSecretName_def rd od)
qed

subsection \<open>The status\<close>

text \<open>The status says what a pass over these resources reports.\<close>

definition report_left :: "mosquitto \<Rightarrow> nat \<Rightarrow> store \<Rightarrow> bool" where
  "report_left m n S \<longleftrightarrow> statusUsers (mStatus m) = int32_of n \<and>
     holds_condition (statusConditions (mStatus m)) (users_condition m n) \<and>
     (case observation (specReplicas (mSpec m)) (stStatefulSets S (mNamespace m, StatefulSetName m)) of
        (k, ph, rd, rs, msg) \<Rightarrow> statusReadyReplicas (mStatus m) = k \<and> phase_done m ph rd rs msg)"

lemma report_left_quiet:
  assumes srv: "serves cl sv" and kept: "condition_kept cl" and b: "stBrokers (svView sv w) (broker_key m) = Some m"
    and left: "report_left m n (svView sv w)"
  shows "quiet (finish_pass cl m (Inr (Some n))) w ()"
proof (rule finish_quiet [OF srv b])
  show "setUsersCondition cl w m n = m"
    using left unfolding report_left_def by (intro setUsersCondition_again [OF kept]) simp_all
  let ?live = "stStatefulSets (svView sv w) (mNamespace m, StatefulSetName m)"
  obtain k ph rd rs msg where o: "observation (specReplicas (mSpec m)) ?live = (k, ph, rd, rs, msg)"
    by (cases "observation (specReplicas (mSpec m)) ?live") auto
  then have l: "statusReadyReplicas (mStatus m) = k" "phase_done m ph rd rs msg"
    using left by (simp_all add: report_left_def)
  have "m\<lparr>mStatus := (mStatus m)\<lparr>statusReadyReplicas := k\<rparr>\<rparr> = m" by (simp flip: l(1))
  then show "observe cl w m ?live = m" by (simp add: observe_eq o setPhase_again [OF kept l(2)])
qed

lemma report_stored_left:
  assumes srv: "serves cl sv" and cond: "conditions_ok cl" and ok: "store_ok (svView sv (rnWorld s))"
    and b: "stBrokers (svView sv (rnWorld s)) (broker_key m) = Some m"
    and run: "finish_pass cl m (Inr (Some n)) s = (Inr (), s')"
  obtains m2 where "same_object m m2" and "stBrokers (svView sv (rnWorld s')) (broker_key m) = Some m2"
    and "stored_by 5 (svView sv (rnWorld s)) (svView sv (rnWorld s'))"
    and "report_left m2 n (svView sv (rnWorld s'))"
proof -
  let ?S = "svView sv (rnWorld s)" and ?key = "(mNamespace m, StatefulSetName m)" and ?w = "rnWorld s"
  define m1 where "m1 = setUsersCondition cl ?w m n"
  obtain k ph rd rs msg where o: "observation (specReplicas (mSpec m)) (stStatefulSets ?S ?key) = (k, ph, rd, rs, msg)"
    by (cases "observation (specReplicas (mSpec m)) (stStatefulSets ?S ?key)") auto
  define m2 where "m2 = setPhase cl ?w (m1\<lparr>mStatus := (mStatus m1)\<lparr>statusReadyReplicas := k\<rparr>\<rparr>) ph rd rs msg"
  have m1: "mMeta m1 = mMeta m" "mSpec m1 = mSpec m" "StatefulSetName m1 = StatefulSetName m"
    by (simp_all add: m1_def setUsersCondition_eq StatefulSetName_def)
  have obs: "observe cl ?w m1 (stStatefulSets ?S ?key) = m2" by (simp add: observe_eq m1 o m2_def)
  have same: "same_object m m2" by (simp add: m2_def setPhase_def m1 same_object_def)
  note meta = same_objectD [OF same]
  let ?s = "s\<lparr>rnTrace := rnTrace s @ [GetObject KStatefulSet ?key]\<rparr>"
  have p: "persistStatus cl m2 ?s = (Inr (), s')"
    using run unfolding finish_pass_def updateStatus_served [OF srv]
    by (simp add: bindIO_def usersIO_def callIO_def observeIO_def m1_def [symmetric] m1 obs)
  have "m\<lparr>mStatus := mStatus m2\<rparr> = m2" using meta by (intro mosquitto.equality) simp_all
  then have stored: "stBrokers (svView sv (rnWorld s')) (broker_key m) = Some m2"
    using status_stored [OF srv p, of m] ok b meta by simp
  have by5: "stored_by 5 ?S (svView sv (rnWorld s'))"
    using storesD [OF stores_status [OF srv] p] by simp
  have "holds_condition (statusConditions (mStatus m1)) (users_condition m n)"
    using condition_set_holds [OF cond] by (simp add: m1_def setUsersCondition_eq)
  then have "holds_condition (statusConditions (mStatus m2)) (users_condition m2 n)"
    by (simp add: m2_def setPhase_def holds_other [OF cond] users_condition_def m1)
  moreover have "phase_done m2 ph rd rs msg" unfolding m2_def by (rule setPhase_done [OF cond])
  moreover have "statusUsers (mStatus m2) = int32_of n" "statusReadyReplicas (mStatus m2) = k"
    by (simp_all add: m2_def setPhase_def m1_def setUsersCondition_eq)
  ultimately have "report_left m2 n (svView sv (rnWorld s'))"
    using o by (simp add: report_left_def meta StatefulSetName_def stored_by_keeps(5) [OF by5])
  with same stored by5 show thesis by (rule that)
qed

subsection \<open>The whole pass\<close>

abbreviation missing_verdict :: "nsname \<Rightarrow> verdict" where
  "missing_verdict key \<equiv> refusal ReasonBrokerNotFound
     (''Mosquitto '' @ snd key @ '' does not exist in namespace '' @ fst key)"

definition refused_left :: "mosquitto \<Rightarrow> string \<times> string \<Rightarrow> bool" where
  "refused_left m why \<longleftrightarrow> phase_done m PhaseFailed ConditionFalse (fst why) (snd why)"

definition broker_done :: "library \<Rightarrow> reconciler \<Rightarrow> 'w client \<Rightarrow> 'w server \<Rightarrow> mosquitto \<Rightarrow> store \<Rightarrow> bool" where
  "broker_done lib r cl sv m S \<longleftrightarrow>
     (if \<not> namespaceGranted r (mNamespace m)
      then refused_left m (ungranted_why r m) \<and>
        reported (mNamespace m, mName m) (refusal (fst (ungranted_why r m)) (snd (ungranted_why r m))) S
      else (case check_of (libRuntime lib) r m S of
          Some why \<Rightarrow> refused_left m why
        | None \<Rightarrow> (\<exists>n. resources_left lib r cl sv m S n \<and> report_left m n S)))"

definition pass_done :: "library \<Rightarrow> reconciler \<Rightarrow> 'w client \<Rightarrow> 'w server \<Rightarrow> nsname \<Rightarrow> store \<Rightarrow> bool" where
  "pass_done lib r cl sv key S \<longleftrightarrow> (case stBrokers S key of
     None \<Rightarrow> reported key (missing_verdict key) S
   | Some m \<Rightarrow> metaDeletionTimestamp (mMeta m) \<noteq> None \<or> broker_done lib r cl sv m S)"

lemma refused_phase_left:
  "conditions_ok cl \<Longrightarrow> refused_left (refused_phase cl w m why) why"
  "condition_kept cl \<Longrightarrow> refused_left m why \<Longrightarrow> refused_phase cl w m why = m"
  unfolding refused_left_def refused_phase_def by (auto intro: setPhase_done setPhase_again)

text \<open>A pass over what is done is quiet.\<close>

lemma broker_done_quiet:
  assumes srv: "serves cl sv" and own: "ownership_ok cl" and kept: "condition_kept cl" and api: "rcHasAPIReader r"
    and b: "stBrokers (svView sv w) (broker_key m) = Some m" and left: "broker_done lib r cl sv m (svView sv w)"
  shows "quiet (pass_body lib r cl m) w ()"
proof (cases "namespaceGranted r (mNamespace m)")
  case False
  let ?why = "ungranted_why r m"
  have l: "refused_left m ?why" "reported (mNamespace m, mName m) (refusal (fst ?why) (snd ?why)) (svView sv w)"
    using left False by (simp_all add: broker_done_def)
  have "quiet (phaseIO cl m PhaseFailed ConditionFalse (fst ?why) (snd ?why)) w m"
    using quiet_pure(1) [of cl m PhaseFailed ConditionFalse "fst ?why" "snd ?why" w]
      refused_phase_left(2) [OF kept l(1), of w] by (simp add: refused_phase_def)
  moreover have "quiet (tryIO (ungranted_report r cl m)) w (Inr ())"
    by (intro quiet_try report_quiet [OF srv kept l(2)])
  ultimately have "quiet (refusePass (libRuntime lib) r cl m) w (m, Inr True)"
    unfolding refusePass_ungranted [OF False] by (auto intro!: quiet_bind quiet_ret)
  then show ?thesis by (rule refused_body_quiet [OF srv b])
next
  case True
  show ?thesis
  proof (cases "check_of (libRuntime lib) r m (svView sv w)")
    case (Some why)
    then have "refused_phase cl w m why = m"
      using left True refused_phase_left(2) [OF kept] by (simp add: broker_done_def)
    then have "quiet (refusePass (libRuntime lib) r cl m) w (m, Inr True)"
      using checks_quiet [OF srv True, of "libRuntime lib" w] Some by simp
    then show ?thesis by (rule refused_body_quiet [OF srv b])
  next
    case None
    then obtain n where n: "resources_left lib r cl sv m (svView sv w) n" "report_left m n (svView sv w)"
      using left True by (auto simp: broker_done_def)
    have "quiet (run_pass lib r cl m (Inr False)) w (Inr (Some n))"
      unfolding run_pass_def
      by (auto intro!: quiet_bind [OF quiet_try [OF resources_quiet [OF srv own kept api n(1)]]] quiet_ret)
    then have "quiet (bindIO (run_pass lib r cl m (Inr False)) (finish_pass cl m)) w ()"
      by (rule quiet_bind) (rule report_left_quiet [OF srv kept b n(2)])
    moreover have "quiet (refusePass (libRuntime lib) r cl m) w (m, Inr False)"
      using checks_quiet [OF srv True, of "libRuntime lib" w] None by simp
    ultimately show ?thesis by (auto intro: quiet_bind)
  qed
qed

lemma pass_done_quiet:
  assumes srv: "serves cl sv" and own: "ownership_ok cl" and kept: "condition_kept cl" and api: "rcHasAPIReader r"
    and ok: "store_ok (svView sv w)" and left: "pass_done lib r cl sv key (svView sv w)"
  shows "quiet (Reconcile lib r cl key) w ()"
proof -
  let ?b = "stBrokers (svView sv w) key"
  have "quiet (pass_of lib r cl key (lookup_of (svMissing sv key) ?b)) w ()"
  proof (cases ?b)
    case None
    then have "reported (fst key, snd key) (missing_verdict key) (svView sv w)" using left by (simp add: pass_done_def)
    from report_quiet [OF srv kept this] show ?thesis
      by (simp add: None pass_of_def reportUsersOfMissingBroker_def split_beta)
  next
    case (Some m)
    have "broker_key m = key" using ok Some unfolding store_ok_def keyed_def by blast
    then show ?thesis
      using left Some broker_done_quiet [OF srv own kept api, of w m lib]
      by (cases "metaDeletionTimestamp (mMeta m)") (simp_all add: pass_done_def pass_of_def quiet_ret)
  qed
  then show ?thesis
    unfolding Reconcile_eq gets_served(5) [OF srv] by (rule quiet_bind [OF quiet_call, rotated -1]) simp_all
qed

text \<open>A pass that succeeds leaves it.\<close>

lemma refused_left_stored:
  assumes srv: "serves cl sv" and cond: "conditions_ok cl" and ok: "store_ok (svView sv (rnWorld s))"
    and b: "stBrokers (svView sv (rnWorld s)) (broker_key m) = Some m"
    and run: "persistStatus cl (refused_phase cl w m why) s = (Inr (), s')"
  obtains m2 where "same_object m m2" "stBrokers (svView sv (rnWorld s')) (broker_key m) = Some m2" "refused_left m2 why"
    "stored_by 5 (svView sv (rnWorld s)) (svView sv (rnWorld s'))"
  using refused_stored [OF srv ok b run] refused_phase_left(1) [OF cond] by (intro that [of "refused_phase cl w m why"])
    (simp_all add: refused_phase_same)

lemma body_leaves_done:
  assumes srv: "serves cl sv" and own: "ownership_ok cl" and cond: "conditions_ok cl"
    and api: "rcHasAPIReader r" and pb: "pbkdf2_ok (libRuntime lib)"
    and ok: "store_ok (svView sv (rnWorld s))" and un: "auth_secret_unnamed m (svView sv (rnWorld s))"
    and b: "stBrokers (svView sv (rnWorld s)) (broker_key m) = Some m"
    and granted: "namespaceGranted r (mNamespace m)"
    and run: "pass_body lib r cl m s = (Inr (), s')"
  obtains m2 where "same_object m m2" "stBrokers (svView sv (rnWorld s')) (broker_key m) = Some m2"
    "broker_done lib r cl sv m2 (svView sv (rnWorld s'))"
proof -
  let ?S = "svView sv (rnWorld s)" and ?S' = "svView sv (rnWorld s')"
  obtain a s1 where c: "refusePass (libRuntime lib) r cl m s = (Inr a, s1)"
    and rest: "(case a of (m, checked) \<Rightarrow> bindIO (run_pass lib r cl m checked) (finish_pass cl m)) s1 = (Inr (), s')"
    using run by (rule bind_Inr)
  have a: "a = (case check_of (libRuntime lib) r m ?S of None \<Rightarrow> (m, Inr False)
      | Some why \<Rightarrow> (refused_phase cl (rnWorld s) m why, Inr True))" "rnWorld s1 = rnWorld s"
    using quiet_run [OF checks_quiet [OF srv granted] c] by simp_all
  have checked: "check_of (libRuntime lib) r m2 ?S' = check_of (libRuntime lib) r m ?S"
    if "same_object m m2" "other_secrets (auth_key m) ?S' = other_secrets (auth_key m) ?S" for m2
    by (rule check_of_same [OF that]) (use un in \<open>simp add: auth_secret_unnamed_def\<close>)
  show thesis
  proof (cases "check_of (libRuntime lib) r m ?S")
    case (Some why)
    have "persistStatus cl (refused_phase cl (rnWorld s) m why) s1 = (Inr (), s')"
      using rest unfolding a Some by (simp add: run_pass_def finish_pass_def)
    then obtain m2 where m2: "same_object m m2" "stBrokers ?S' (broker_key m) = Some m2" "refused_left m2 why"
      "stored_by 5 ?S ?S'"
      using refused_left_stored [OF srv cond, of s1 m _ why s'] ok b a(2) by metis
    have "check_of (libRuntime lib) r m2 ?S' = Some why"
      using checked [OF m2(1)] stored_by_keeps(1) [OF m2(4)] Some by (simp add: other_secrets_def)
    then show ?thesis
      using m2(3) granted by (intro that [OF m2(1,2)]) (simp add: broker_done_def same_objectD [OF m2(1)])
  next
    case None
    then obtain n s2 where n: "reconcileResources lib r cl m s1 = (Inr n, s2)"
      and f: "finish_pass cl m (Inr (Some n)) s2 = (Inr (), s')"
      using rest unfolding a
      by (auto simp: run_pass_def bindIO_def tryIO_def retIO_def finish_pass_def failIO_def
        split: prod.splits sum.splits)
    note left = resources_stored_left [OF srv own cond api pb _ _ n, unfolded a(2), OF ok un]
    obtain m2 where m2: "same_object m m2" "stBrokers ?S' (broker_key m) = Some m2"
      "stored_by 5 (svView sv (rnWorld s2)) ?S'" "report_left m2 n ?S'"
      using report_stored_left [OF srv cond left(4) _ f] b left(3) by metis
    note keeps = stored_by_keeps [OF m2(3)]
    have "resources_left lib r cl sv m2 ?S' n"
      by (rule resources_left_same [OF m2(1) left(1)]) (use keeps in simp_all)
    moreover have "check_of (libRuntime lib) r m2 ?S' = None"
      using checked [OF m2(1)] left(2) keeps(1) None by (simp add: other_secrets_def)
    ultimately show ?thesis
      using m2(4) granted by (intro that [OF m2(1,2)]) (auto simp: broker_done_def same_objectD [OF m2(1)])
  qed
qed

lemma ungranted_leaves_done:
  assumes srv: "serves cl sv" and cond: "conditions_ok cl"
    and ok: "store_ok (svView sv (rnWorld s))" and b: "stBrokers (svView sv (rnWorld s)) (broker_key m) = Some m"
    and granted: "\<not> namespaceGranted r (mNamespace m)"
    and run: "pass_body lib r cl m s = (Inr (), s')"
  obtains m2 where "same_object m m2" "stBrokers (svView sv (rnWorld s')) (broker_key m) = Some m2"
    "broker_done lib r cl sv m2 (svView sv (rnWorld s'))"
proof -
  let ?v = "\<lambda>s. svView sv (rnWorld s)" and ?why = "ungranted_why r m"
  obtain s1 where rep: "ungranted_report r cl m s = (Inr (), s1)"
    and p: "persistStatus cl (refused_phase cl (rnWorld s) m ?why) s1 = (Inr (), s')"
    using run unfolding refusePass_ungranted [OF granted]
    by (auto simp: bindIO_def phaseIO_def tryIO_def retIO_def refused_phase_def run_pass_def finish_pass_def failIO_def
        split: prod.splits sum.splits)
  note r1 = report_stored [OF srv cond ok rep]
  have "stBrokers (?v s1) (broker_key m) = Some m" using stored_by_keeps(6) [OF r1(2)] b by simp
  then obtain m2 where m2: "same_object m m2" "stBrokers (?v s') (broker_key m) = Some m2" "refused_left m2 ?why"
    "stored_by 5 (?v s1) (?v s')"
    by (rule refused_left_stored [OF srv cond stored_by_ok [OF r1(2) ok] _ p])
  have "reported (mNamespace m, mName m) (refusal (fst ?why) (snd ?why)) (?v s')"
    using r1(1) stored_by_keeps(2) [OF m2(4)] by (simp add: reported_def)
  then show thesis
    using m2(3) granted ungranted_why_meta [OF same_objectD(1) [OF m2(1)], of r]
    by (intro that [OF m2(1,2)]) (simp add: broker_done_def same_objectD [OF m2(1)])
qed

lemma pass_leaves_done:
  assumes srv: "serves cl sv" and own: "ownership_ok cl" and cond: "conditions_ok cl"
    and pb: "pbkdf2_ok (libRuntime lib)" and api: "rcHasAPIReader r"
    and ok: "store_ok (svView sv (rnWorld s))"
    and un: "\<And>m. stBrokers (svView sv (rnWorld s)) key = Some m \<Longrightarrow> auth_secret_unnamed m (svView sv (rnWorld s))"
    and run: "Reconcile lib r cl key s = (Inr (), s')"
  shows "pass_done lib r cl sv key (svView sv (rnWorld s'))"
proof -
  let ?S = "svView sv (rnWorld s)" and ?S' = "svView sv (rnWorld s')"
  let ?s = "s\<lparr>rnTrace := rnTrace s @ [GetObject KMosquitto key]\<rparr>"
  have body: "pass_of lib r cl key (lookup_of (svMissing sv key) (stBrokers ?S key)) ?s = (Inr (), s')"
    using run by (simp add: Reconcile_eq gets_served(5) [OF srv] bindIO_def callIO_def)
  show ?thesis
  proof (cases "stBrokers ?S key")
    case None
    then have rep: "reportUsers cl (fst key) (snd key) (missing_verdict key) ?s = (Inr (), s')"
      using body by (simp add: pass_of_def reportUsersOfMissingBroker_def split_beta)
    have "stBrokers ?S' key = None"
      using stored_by_keeps(6) [OF report_stored(2) [OF srv cond _ rep]] ok None by simp
    then show ?thesis using report_stored(1) [OF srv cond _ rep] ok by (simp add: pass_done_def)
  next
    case (Some m)
    have key: "broker_key m = key" using ok Some unfolding store_ok_def keyed_def by blast
    show ?thesis
    proof (cases "metaDeletionTimestamp (mMeta m) = None")
      case True
      then have b: "pass_body lib r cl m ?s = (Inr (), s')" using body Some by (simp add: pass_of_def)
      obtain m2 where m2: "same_object m m2" "stBrokers ?S' (broker_key m) = Some m2" "broker_done lib r cl sv m2 ?S'"
      proof (cases "namespaceGranted r (mNamespace m)")
        case True
        show ?thesis
          by (rule body_leaves_done [OF srv own cond api pb _ _ _ True b that]) (use ok un Some key in simp_all)
      next
        case False
        show ?thesis by (rule ungranted_leaves_done [OF srv cond _ _ False b that]) (use ok Some key in simp_all)
      qed
      then show ?thesis by (simp add: pass_done_def key)
    next
      case False
      then have "?S' = ?S" using body Some by (auto simp: pass_of_def retIO_def)
      then show ?thesis using Some False by (simp add: pass_done_def)
    qed
  qed
qed

lemma Reconcile_again:
  assumes srv: "serves cl sv" and own: "ownership_ok cl" and cond: "conditions_ok cl" "condition_kept cl"
    and pb: "pbkdf2_ok (libRuntime lib)" and api: "rcHasAPIReader r"
    and ok: "store_ok (svView sv (rnWorld s))"
    and un: "\<And>m. stBrokers (svView sv (rnWorld s)) key = Some m \<Longrightarrow> auth_secret_unnamed m (svView sv (rnWorld s))"
    and run: "Reconcile lib r cl key s = (Inr (), s')"
  shows "quiet (Reconcile lib r cl key) (rnWorld s') ()"
  by (rule pass_done_quiet [OF srv own cond(2) api sparedD(1) [OF Reconcile_spares [OF srv own api ok run]]
      pass_leaves_done [OF srv own cond(1) pb api ok un run]])

text \<open>C9: the operator converges. When a pass succeeded, the next one succeeds, draws no random byte and writes
  nothing at all: no object, no status of a user, no status of the broker. This holds for every kind
  of pass, refused ones and those over a broker that is gone included, as long as the specs and the Secrets the
  broker and its users name did not change, and none of these names the rendered Secret itself.\<close>

theorem next_pass_writes_nothing:
  assumes srv: "serves cl sv" and own: "ownership_ok cl" and cond: "conditions_ok cl" "condition_kept cl"
    and pb: "pbkdf2_ok (libRuntime lib)" and api: "rcHasAPIReader r"
    and ok: "store_ok (svView sv (rnWorld s))"
    and un: "\<And>m. stBrokers (svView sv (rnWorld s)) key = Some m \<Longrightarrow> auth_secret_unnamed m (svView sv (rnWorld s))"
    and run: "Reconcile lib r cl key s = (Inr (), s')"
    and later: "rnWorld t = rnWorld s'"
  shows "\<exists>cs. Reconcile lib r cl key t = (Inr (), t\<lparr>rnTrace := rnTrace t @ cs\<rparr>) \<and> list_all no_write cs"
  using Reconcile_again [OF srv own cond pb api ok un run] later unfolding quiet_def by blast

end
