(* ===== verification/Progress.thy ===== *)
theory Progress
  imports Done
begin

section \<open>A pass that succeeds\<close>

text \<open>
  Over a server that accepts every write, nothing but a foreign object under one of the broker's names, a
  spec the StatefulSet cannot be built from, or a random source that runs dry makes a pass fail. Together
  with the convergence of passes that succeeded this gives that one pass is enough.
\<close>

definition accepts :: "'w client \<Rightarrow> bool" where
  "accepts cl \<longleftrightarrow> (\<forall>x w. fst (clWrite cl x w) = None) \<and>
     (\<forall>own obj. isInr (clSetControllerReference cl own obj))"

definition controlled :: "'w client \<Rightarrow> mosquitto \<Rightarrow> ('o \<Rightarrow> object_meta) \<Rightarrow> 'o option \<Rightarrow> bool" where
  "controlled cl m meta x \<longleftrightarrow> (case x of None \<Rightarrow> True | Some y \<Rightarrow> clIsControlledBy cl (meta y) (mMeta m))"

definition unobstructed :: "library \<Rightarrow> reconciler \<Rightarrow> 'w client \<Rightarrow> mosquitto \<Rightarrow> store \<Rightarrow> bool" where
  "unobstructed lib r cl m S \<longleftrightarrow>
     controlled cl m secMeta (stSecrets S (auth_key m)) \<and>
     controlled cl m cmMeta (stConfigMaps S (object_key (cmMeta (BuildConfigMap m)))) \<and>
     controlled cl m svcMeta (stServices S (object_key (svcMeta (BuildHeadlessService m)))) \<and>
     controlled cl m svcMeta (stServices S (object_key (svcMeta (BuildClientService m)))) \<and>
     (case BuildStatefulSet (libKube lib) m \<lparr>ReloaderImage = rcReloaderImage r\<rparr> of
        Inl _ \<Rightarrow> False
      | Inr d \<Rightarrow> controlled cl m stsMeta (stStatefulSets S (object_key (stsMeta d))))"

definition succeeds :: "('w, 'a) io \<Rightarrow> 'w run \<Rightarrow> bool" where
  "succeeds m s \<longleftrightarrow> (\<exists>a s'. m s = (Inr a, s'))"

lemma succeeds_bind:
  "succeeds m s \<Longrightarrow> (\<And>a s'. m s = (Inr a, s') \<Longrightarrow> succeeds (f a) s') \<Longrightarrow> succeeds (bindIO m f) s"
  unfolding succeeds_def bindIO_def by (auto split: prod.split sum.split)

lemma succeeds_ret [simp]: "succeeds (retIO a) s"
  by (simp add: succeeds_def retIO_def)

lemma succeeds_call: "succeeds (callIO c f) s"
  by (simp add: succeeds_def callIO_def split: prod.split)

lemma succeeds_wrap: "succeeds m s \<Longrightarrow> succeeds (wrapIO what m) s"
  by (auto simp: succeeds_def wrapIO_def wrap_err_def)

lemma succeeds_quiet: "quiet m (rnWorld s) a \<Longrightarrow> succeeds m s"
  unfolding quiet_def succeeds_def by blast

lemma succeeds_pure:
  "succeeds (phaseIO cl m ph rd rs msg) s" "succeeds (usersIO cl m n) s" "succeeds (observeIO cl m x) s"
  "succeeds (conditionIO cl cs c) s" "succeeds (liftIO (Inr a)) s"
  by (simp_all add: succeeds_def phaseIO_def usersIO_def observeIO_def conditionIO_def liftIO_def)

lemma succeeds_try: "succeeds (tryIO m) s"
  by (simp add: succeeds_def tryIO_def split: prod.split)

lemma succeeds_write: "accepts cl \<Longrightarrow> succeeds (write_object cl x) s"
  unfolding accepts_def succeeds_def write_object_def bindIO_def callIO_def
  by (auto simp: retIO_def split: prod.split option.split) (metis fst_conv option.distinct(1))+

subsection \<open>Writes\<close>

context stored
begin

lemma object_succeeds:
  assumes "ownership_ok cl" and "accepts cl"
    and get: "\<And>key. get key = callIO (c key) (\<lambda>w. (lookup_of (svMissing sv key) (sel (svView sv w) key), w))"
    and free: "controlled cl m meta (sel (svView sv (rnWorld s)) (object_key (meta d)))"
  shows "succeeds (reconcile_object cl m knd meta with_meta get changed merge create update d) s"
proof -
  let ?S = "svView sv (rnWorld s)" and ?key = "object_key (meta d)"
  obtain mt where mt: "clSetControllerReference cl (mMeta m) (meta d) = Inr mt"
    using assms(2) unfolding accepts_def isInr_iff by blast
  note key = set_owner_key(2) [OF assms(1) mt]
  let ?s = "s\<lparr>rnTrace := rnTrace s @ [c ?key]\<rparr>"
  have "reconcile_object cl m knd meta with_meta get changed merge create update d s =
    (case sel ?S ?key of
      None \<Rightarrow> write_object cl (create (with_meta mt d)) ?s
    | Some cur \<Rightarrow> (if \<not> changed (with_meta mt d) cur then (Inr (), ?s)
        else write_object cl (update (merge cur (with_meta mt d))) ?s))"
    using free mt key get
    by (cases "sel ?S ?key")
      (simp_all add: reconcile_object_def setOwner_def wrapIO_def liftIO_def bindIO_def callIO_def
        ensureOwned_def retIO_def wrap_err_def Let_def controlled_def)
  then show ?thesis
    using succeeds_write [OF assms(2)] by (auto simp: succeeds_def split: option.split)
qed

end

lemma paths_succeed:
  assumes "serves cl sv" and "ownership_ok cl" and "accepts cl"
  shows "rcHasAPIReader r \<Longrightarrow> controlled cl m secMeta (stSecrets (svView sv (rnWorld s)) (auth_key m)) \<Longrightarrow>
      succeeds (reconcileAuthSecret r cl m data) s"
    and "controlled cl m cmMeta (stConfigMaps (svView sv (rnWorld s)) (object_key (cmMeta (BuildConfigMap m)))) \<Longrightarrow>
      succeeds (reconcileConfigMap cl m) s"
    and "controlled cl m svcMeta (stServices (svView sv (rnWorld s)) (object_key (svcMeta d))) \<Longrightarrow>
      succeeds (reconcileService cl m d) s"
    and "BuildStatefulSet kl m \<lparr>ReloaderImage = rcReloaderImage r\<rparr> = Inr e \<Longrightarrow>
      controlled cl m stsMeta (stStatefulSets (svView sv (rnWorld s)) (object_key (stsMeta e))) \<Longrightarrow>
      succeeds (reconcileStatefulSet r kl cl m) s"
  unfolding reconcileConfigMap_eq reconcileService_eq reconcileAuthSecret_eq
  by (rule sec_stored.object_succeeds [OF assms(2,3) gets_served(4) [OF assms(1)]], assumption, simp add: built_keys)
    (rule cm_stored.object_succeeds [OF assms(2,3) gets_served(1) [OF assms(1)]], assumption,
     rule svc_stored.object_succeeds [OF assms(2,3) gets_served(2) [OF assms(1)]], assumption,
     simp only: reconcileStatefulSet_eq,
     rule sts_stored.object_succeeds [OF assms(2,3) gets_served(3) [OF assms(1)]], assumption)

lemma statuses_succeed: "accepts cl \<Longrightarrow> succeeds (write_statuses cl username vf us) s"
proof (induction us arbitrary: s)
  case (Cons u us)
  have "succeeds (persistUserStatus cl u x v) s" for x v s
    unfolding persistUserStatus_def Let_def
    by (rule succeeds_bind [OF succeeds_pure(4)]) (simp add: succeeds_wrap succeeds_write [OF Cons.prems])
  then show ?case using Cons by (auto intro: succeeds_bind)
qed simp

lemma report_succeeds: "serves cl sv \<Longrightarrow> accepts cl \<Longrightarrow> succeeds (reportUsers cl ns b v) s"
  unfolding reportUsers_def
  by (rule succeeds_bind [OF succeeds_quiet [OF list_quiet]]) (assumption, rule statuses_succeed)

lemma status_succeeds:
  assumes "serves cl sv" and "accepts cl" and "stBrokers (svView sv (rnWorld s)) (broker_key m) \<noteq> None"
  shows "succeeds (persistStatus cl m) s"
  unfolding persistStatus_def gets_served(5) [OF assms(1)]
  by (rule succeeds_bind [OF succeeds_call]) (use assms(3) in \<open>auto simp: callIO_def succeeds_write [OF assms(2)]\<close>)

subsection \<open>The rendering\<close>

lemma credentials_succeed:
  assumes "serves cl sv" and "rcHasAPIReader r"
  shows "succeeds (readCredentials rt r cl u) s"
proof -
  let ?key = "(uNamespace u, credName (userCredentialsSecret (uSpec u)))"
  have g: "get_secret cl ?key s = (Inr (lookup_of (svMissing sv ?key)
      (map_option (svCached sv) (stSecrets (svView sv (rnWorld s)) ?key))), s')" if
    "s' = s\<lparr>rnTrace := rnTrace s @ [GetObject KSecretMeta ?key]\<rparr>" for s'
    using that by (simp add: get_secret_def callIO_def serves_reads [OF assms(1)])
  show ?thesis
    unfolding readCredentials_def Let_def gets_served(4) [OF assms]
    by (rule succeeds_bind)
      (use g [OF refl] in \<open>auto simp: succeeds_def bindIO_def callIO_def retIO_def
        split: lookup.split option.split dest!: sym [of "lookup_of _ _"]\<close>)
qed

lemma credentials_loop_succeeds:
  assumes "serves cl sv" and "rcHasAPIReader r"
  shows "\<exists>names' verdicts' inputs s'. credentials_loop rt r cl us names verdicts s = (Inr (names', verdicts', inputs), s') \<and>
    length inputs \<le> length us"
proof (induction us arbitrary: names verdicts s)
  case (Cons u us)
  obtain res s1 where r: "readCredentials rt r cl u s = (Inr res, s1)"
    using credentials_succeed [OF assms] unfolding succeeds_def by blast
  show ?case
  proof (cases res)
    case (Inl v)
    obtain names' verdicts' inputs s' where
      "credentials_loop rt r cl us names (fmupd (uName u) v verdicts) s1 = (Inr (names', verdicts', inputs), s')"
      "length inputs \<le> length us"
      using Cons.IH by blast
    then show ?thesis using r Inl by (auto simp: bindIO_def)
  next
    case (Inr inp)
    obtain names' verdicts' inputs s' where
      "credentials_loop rt r cl us (fmupd (uName u) (inUsername inp) names) verdicts s1 = (Inr (names', verdicts', inputs), s')"
      "length inputs \<le> length us"
      using Cons.IH by blast
    then show ?thesis using r Inr by (auto simp: bindIO_def retIO_def)
  qed
qed (simp add: retIO_def)

lemma password_succeeds:
  assumes "32 + k \<le> length (rnRandom s)"
  obtains password s' where "exporterPassword previous s = (Inr password, s')" and "k \<le> length (rnRandom s')"
    and "password \<noteq> ''''"
proof (cases "go_get previous ExporterPasswordKey = ''''")
  case True
  then obtain p where "exporterPassword previous s = (Inr p, s\<lparr>rnRandom := drop 32 (rnRandom s)\<rparr>)" "length p = 43"
    using exporterPassword_kept_or_fresh [of previous s] assms by auto
  then show ?thesis by (intro that [of p]) (use assms in auto)
next
  case False
  then show ?thesis
    using exporterPassword_kept_or_fresh [of previous s] assms
    by (intro that [of "go_get previous ExporterPasswordKey" s]) auto
qed

lemma render_with_succeeds:
  assumes "pbkdf2_derives rt" and "32 + 64 * (length inputs + 1) \<le> length (rnRandom s)"
  shows "succeeds (render_with rt m users names verdicts inputs previous) s"
proof -
  obtain password s1 where p: "(if IsMetricsEnabled m then exporterPassword previous else retIO '''') s = (Inr password, s1)"
    "64 * (length inputs + 1) \<le> length (rnRandom s1)" "IsMetricsEnabled m \<longrightarrow> password \<noteq> ''''"
  proof (cases "IsMetricsEnabled m")
    case True
    show ?thesis by (rule password_succeeds [OF assms(2), of previous], rule that) (use True in simp_all)
  next
    case False
    then show ?thesis using assms(2) by (intro that [of "''''" s]) (simp_all add: retIO_def)
  qed
  let ?reserved = "if IsMetricsEnabled m then [ExporterPrincipal password] else []"
  have "isInr (RenderUsers rt FilePayload inputs ?reserved previous (rnRandom s1))"
    by (rule render_total [OF assms(1)])
      (use p(2,3) in \<open>auto simp: principals_served_def ExporterPrincipal_def ExporterUsername_def\<close>)
  then obtain res random' where "RenderUsers rt FilePayload inputs ?reserved previous (rnRandom s1) = Inr (res, random')"
    unfolding isInr_iff by auto
  then show ?thesis
    using p(1) by (simp add: render_with_def succeeds_def bindIO_def randomIO_def retIO_def)
qed

lemma rendering_succeeds:
  assumes "serves cl sv" and "rcHasAPIReader r" and "pbkdf2_derives rt"
    and "auth_secret_unnamed m (svView sv (rnWorld s))"
    and "32 + 64 * (length (bound_users m (svView sv (rnWorld s))) + 1) \<le> length (rnRandom s)"
  shows "succeeds (renderUsers rt r cl m) s"
proof -
  let ?us = "bound_users m (svView sv (rnWorld s))"
  obtain s1 where l: "listUsers cl (mNamespace m) (mName m) s = (Inr ?us, s1)"
    using succeeds_quiet [OF list_quiet [OF assms(1)]] quiet_run [OF list_quiet [OF assms(1)]]
    unfolding succeeds_def by metis
  obtain names verdicts inputs s2 where c:
    "credentials_loop rt r cl ?us fmempty fmempty s1 = (Inr (names, verdicts, inputs), s2)" "length inputs \<le> length ?us"
    using credentials_loop_succeeds [OF assms(1,2)] by blast
  have reads: "reads sv (other_secrets (auth_key m)) (credentials_loop rt r cl ?us fmempty fmempty)"
    by (rule reads_credentials_loop [OF assms(1) unnamed_credentials [OF assms(4)]])
  have "succeeds (currentAuthData r cl m) s2"
    unfolding currentAuthData_def gets_served(4) [OF assms(1,2)]
    by (rule succeeds_bind [OF succeeds_call]) (auto simp: callIO_def split: lookup.split)
  then obtain previous s3 where p: "currentAuthData r cl m s2 = (Inr previous, s3)"
    unfolding succeeds_def by blast
  have "rnRandom s3 = rnRandom s"
    using reads_world [OF reads_list [OF assms(1)] l] reads_world [OF reads c(1)]
      reads_world [OF reads_auth_data [OF assms(1,2)] p] by simp
  then have "succeeds (render_with rt m ?us names verdicts inputs previous) s3"
    using render_with_succeeds [OF assms(3), of inputs s3] assms(5) c(2) by simp
  then show ?thesis
    by (simp add: renderUsers_eq succeeds_def bindIO_def l c(1) p)
qed

subsection \<open>The pass\<close>

lemma succeeds_stage:
  assumes "succeeds m s" and "stores sv n m"
    and "\<And>a s'. m s = (Inr a, s') \<Longrightarrow> stored_by n (svView sv (rnWorld s)) (svView sv (rnWorld s')) \<Longrightarrow> succeeds (f a) s'"
  shows "succeeds (bindIO m f) s"
  using assms(1) by (rule succeeds_bind) (use assms(2,3) storesD in blast)

lemma services_succeed:
  assumes srv: "serves cl sv" and own: "ownership_ok cl" and acc: "accepts cl"
    and ok: "store_ok (svView sv (rnWorld s))"
    and free: "controlled cl m svcMeta (stServices (svView sv (rnWorld s)) (object_key (svcMeta (BuildHeadlessService m))))"
      "controlled cl m svcMeta (stServices (svView sv (rnWorld s)) (object_key (svcMeta (BuildClientService m))))"
    and rest: "\<And>s'. stored_by 3 (svView sv (rnWorld s)) (svView sv (rnWorld s')) \<Longrightarrow> succeeds k s'"
  shows "succeeds (bindIO (reconcileService cl m (BuildHeadlessService m)) (\<lambda>_.
    bindIO (reconcileService cl m (BuildClientService m)) (\<lambda>_. k))) s"
proof (rule succeeds_stage [OF _ stores_paths(3) [OF srv]])
  show "succeeds (reconcileService cl m (BuildHeadlessService m)) s"
    by (rule paths_succeed(3) [OF srv own acc free(1)])
  fix a s1 assume h: "reconcileService cl m (BuildHeadlessService m) s = (Inr a, s1)"
    and by3: "stored_by 3 (svView sv (rnWorld s)) (svView sv (rnWorld s1))"
  have "stServices (svView sv (rnWorld s1)) (object_key (svcMeta (BuildClientService m))) =
      stServices (svView sv (rnWorld s)) (object_key (svcMeta (BuildClientService m)))"
    using paths_done(3) [OF srv own ok, of m "BuildHeadlessService m" s1] h built_keys(2) [of m]
    by (simp del: split_paired_All)
  then have "succeeds (reconcileService cl m (BuildClientService m)) s1"
    using free(2) by (intro paths_succeed(3) [OF srv own acc]) simp
  then show "succeeds (bindIO (reconcileService cl m (BuildClientService m)) (\<lambda>_. k)) s1"
    by (rule succeeds_stage [OF _ stores_paths(3) [OF srv]]) (use rest stored_by_trans [OF _ by3] in blast)
qed

lemma resources_succeed:
  fixes cl :: "'w client"
  assumes srv: "serves cl sv" and own: "ownership_ok cl" and acc: "accepts cl" and api: "rcHasAPIReader r"
    and pb: "pbkdf2_derives (libRuntime lib)" and ok: "store_ok (svView sv (rnWorld s))"
    and un: "auth_secret_unnamed m (svView sv (rnWorld s))"
    and random: "32 + 64 * (length (bound_users m (svView sv (rnWorld s))) + 1) \<le> length (rnRandom s)"
    and free: "unobstructed lib r cl m (svView sv (rnWorld s))"
  shows "succeeds (reconcileResources lib r cl m) s"
  unfolding reconcileResources_def writeUserStatuses_def
proof (rule succeeds_bind [OF rendering_succeeds [OF srv api pb un random]],
    rule succeeds_stage [OF _ stores_paths(1) [OF srv]])
  let ?v = "\<lambda>s :: 'w run. svView sv (rnWorld s)"
  obtain d where d: "BuildStatefulSet (libKube lib) m \<lparr>ReloaderImage = rcReloaderImage r\<rparr> = Inr d"
    "controlled cl m stsMeta (stStatefulSets (?v s) (object_key (stsMeta d)))"
    using free by (auto simp: unobstructed_def split: sum.splits)
  fix pass and s1 :: "'w run" assume "renderUsers (libRuntime lib) r cl m s = (Inr pass, s1)"
  then have w1: "?v s1 = ?v s" using renderUsers_world(1) [OF srv api _ unnamed_credentials [OF un]] by simp
  then show "succeeds (reconcileAuthSecret r cl m (upData pass)) s1"
    by (intro paths_succeed(1) [OF srv own acc api]) (use free in \<open>simp add: unobstructed_def\<close>)
  let ?sts = "bindIO (reconcileStatefulSet r (libKube lib) cl m) (\<lambda>_. retIO (upAccepted pass))"
  let ?services = "bindIO (reconcileService cl m (BuildHeadlessService m)) (\<lambda>_.
    bindIO (reconcileService cl m (BuildClientService m)) (\<lambda>_. ?sts))"
  fix s2 :: "'w run" assume by0: "stored_by 0 (?v s1) (?v s2)"
  show "succeeds (bindIO (write_statuses cl (\<lambda>u. go_get (upUsernames pass) (uName u))
     (\<lambda>u. verdict_of (upVerdicts pass) (uName u)) (upUsers pass)) (\<lambda>_.
     bindIO (reconcileConfigMap cl m) (\<lambda>_. ?services))) s2"
  proof (rule succeeds_stage [OF statuses_succeed [OF acc] stores_write_statuses [OF srv]],
      rule succeeds_stage [OF _ stores_paths(2) [OF srv]])
    fix s3 :: "'w run" assume by1: "stored_by 1 (?v s2) (?v s3)"
    note keeps = stored_by_keeps [OF by0] stored_by_keeps [OF by1]
    show "succeeds (reconcileConfigMap cl m) s3"
      by (rule paths_succeed(2) [OF srv own acc]) (use free w1 keeps in \<open>simp add: unobstructed_def\<close>)
    fix s4 :: "'w run" assume by2: "stored_by 2 (?v s3) (?v s4)"
    note keeps = keeps stored_by_keeps [OF by2]
    show "succeeds ?services s4"
    proof (rule services_succeed [OF srv own acc])
      show "store_ok (?v s4)"
        using stored_by_ok [OF by2 stored_by_ok [OF by1 stored_by_ok [OF by0]]] ok w1 by simp
      fix s5 :: "'w run" assume by3: "stored_by 3 (?v s4) (?v s5)"
      have "succeeds (reconcileStatefulSet r (libKube lib) cl m) s5"
        using d(2) keeps w1 stored_by_keeps(5) [OF by3] by (intro paths_succeed(4) [OF srv own acc d(1)]) simp
      then show "succeeds ?sts s5" by (rule succeeds_bind) simp
    qed (use free w1 keeps in \<open>simp_all add: unobstructed_def\<close>)
  qed
qed

lemma finish_succeeds:
  assumes srv: "serves cl sv" and acc: "accepts cl" and b: "stBrokers (svView sv (rnWorld s)) (broker_key m) \<noteq> None"
  shows "succeeds (finish_pass cl m (Inr None)) s" and "succeeds (finish_pass cl m (Inr (Some n))) s"
proof -
  show "succeeds (finish_pass cl m (Inr None)) s"
    using status_succeeds [OF assms] by (simp add: finish_pass_def)
  have "succeeds (persistStatus cl m') s'" if "mMeta m' = mMeta m" "rnWorld s' = rnWorld s" for m' s'
    using status_succeeds [OF srv acc, of s' m'] b that by simp
  then show "succeeds (finish_pass cl m (Inr (Some n))) s"
    by (simp add: finish_pass_def updateStatus_served [OF srv] succeeds_def bindIO_def usersIO_def callIO_def observeIO_def
        observe_eq setUsersCondition_eq split: prod.split)
qed

lemma check_succeeds:
  assumes srv: "serves cl sv" and acc: "accepts cl" and granted: "namespaceGranted r (mNamespace m)"
    and b: "stBrokers (svView sv (rnWorld s)) (broker_key m) \<noteq> None"
    and why: "check_of (libRuntime lib) r m (svView sv (rnWorld s)) = Some why"
  shows "succeeds (pass_body lib r cl m) s"
proof (rule succeeds_bind [OF succeeds_quiet [OF checks_quiet [OF srv granted]]])
  fix a s1 assume "refusePass (libRuntime lib) r cl m s = (Inr a, s1)"
  then have a: "a = (refused_phase cl (rnWorld s) m why, Inr True)" "rnWorld s1 = rnWorld s"
    using quiet_run [OF checks_quiet [OF srv granted, of "libRuntime lib" "rnWorld s"]] why by fastforce+
  show "succeeds (case a of (m, checked) \<Rightarrow> bindIO (run_pass lib r cl m checked) (finish_pass cl m)) s1"
    using finish_succeeds(1) [OF srv acc, of s1 "refused_phase cl (rnWorld s) m why"] b a(2)
    by (simp add: a(1) run_pass_def refused_phase_def)
qed

lemma ungranted_succeeds:
  assumes srv: "serves cl sv" and acc: "accepts cl" and granted: "\<not> namespaceGranted r (mNamespace m)"
    and b: "stBrokers (svView sv (rnWorld s)) (broker_key m) \<noteq> None"
  shows "succeeds (pass_body lib r cl m) s"
proof -
  let ?m = "refused_phase cl (rnWorld s) m (ungranted_why r m)"
  obtain s1 where rep: "ungranted_report r cl m s = (Inr (), s1)"
    using report_succeeds [OF srv acc, of "mNamespace m" "mName m" _ s] unfolding succeeds_def by auto
  have "stores sv 1 (ungranted_report r cl m)"
    unfolding reportUsers_def
    by (intro stores_bind stores_reads [OF reads_list [OF srv]] stores_write_statuses [OF srv])
  from storesD [OF this rep] have "stBrokers (svView sv (rnWorld s1)) (broker_key ?m) \<noteq> None"
    using stored_by_keeps(6) b by (simp add: refused_phase_def)
  then have "succeeds (finish_pass cl ?m (Inr None)) s1" by (rule finish_succeeds(1) [OF srv acc])
  then show ?thesis
    using rep unfolding refusePass_ungranted [OF granted]
    by (simp add: succeeds_def bindIO_def phaseIO_def tryIO_def retIO_def run_pass_def refused_phase_def)
qed

lemma run_succeeds:
  assumes srv: "serves cl sv" and own: "ownership_ok cl" and acc: "accepts cl" and api: "rcHasAPIReader r"
    and pb: "pbkdf2_derives (libRuntime lib)" "pbkdf2_ok (libRuntime lib)" and cond: "conditions_ok cl"
    and ok: "store_ok (svView sv (rnWorld s))" and un: "auth_secret_unnamed m (svView sv (rnWorld s))"
    and random: "32 + 64 * (length (bound_users m (svView sv (rnWorld s))) + 1) \<le> length (rnRandom s)"
    and free: "unobstructed lib r cl m (svView sv (rnWorld s))"
    and b: "stBrokers (svView sv (rnWorld s)) (broker_key m) \<noteq> None"
    and granted: "namespaceGranted r (mNamespace m)"
    and pass: "check_of (libRuntime lib) r m (svView sv (rnWorld s)) = None"
  shows "succeeds (pass_body lib r cl m) s"
proof (rule succeeds_bind [OF succeeds_quiet [OF checks_quiet [OF srv granted]]])
  fix a s1 assume run: "refusePass (libRuntime lib) r cl m s = (Inr a, s1)"
  have a: "a = (m, Inr False)" "rnWorld s1 = rnWorld s"
    using quiet_run [OF checks_quiet [OF srv granted, of "libRuntime lib" "rnWorld s"] run] pass by auto
  have "rnRandom s1 = rnRandom s"
    using checks_quiet [OF srv granted, of "libRuntime lib" "rnWorld s"] run unfolding quiet_def by fastforce
  then have "succeeds (reconcileResources lib r cl m) s1"
    by (intro resources_succeed [OF srv own acc api pb(1)]) (use random in \<open>simp_all add: a(2) ok un free\<close>)
  then obtain n s2 where n: "reconcileResources lib r cl m s1 = (Inr n, s2)" unfolding succeeds_def by blast
  obtain up s3 where "stBrokers (svView sv (rnWorld s2)) = stBrokers (svView sv (rnWorld s1))"
    using resources_stored [OF srv own cond api _ _ n] ok un a(2) by metis
  then have "succeeds (finish_pass cl m (Inr (Some n))) s2"
    using b a(2) by (intro finish_succeeds(2) [OF srv acc]) simp
  then show "succeeds (case a of (m, checked) \<Rightarrow> bindIO (run_pass lib r cl m checked) (finish_pass cl m)) s1"
    using n by (simp add: a(1) run_pass_def succeeds_def bindIO_def tryIO_def retIO_def)
qed

lemma Reconcile_succeeds:
  assumes srv: "serves cl sv" and own: "ownership_ok cl" and acc: "accepts cl" and cond: "conditions_ok cl"
    and api: "rcHasAPIReader r" and pb: "pbkdf2_derives (libRuntime lib)" "pbkdf2_ok (libRuntime lib)"
    and ok: "store_ok (svView sv (rnWorld s))"
    and broker: "\<And>m. stBrokers (svView sv (rnWorld s)) key = Some m \<Longrightarrow>
      auth_secret_unnamed m (svView sv (rnWorld s)) \<and> unobstructed lib r cl m (svView sv (rnWorld s)) \<and>
      32 + 64 * (length (bound_users m (svView sv (rnWorld s))) + 1) \<le> length (rnRandom s)"
  shows "\<exists>s'. Reconcile lib r cl key s = (Inr (), s')"
proof -
  let ?b = "stBrokers (svView sv (rnWorld s)) key"
  have "succeeds (Reconcile lib r cl key) s"
    unfolding Reconcile_eq gets_served(5) [OF srv]
  proof (rule succeeds_bind [OF succeeds_call])
    fix a s1 assume "callIO (GetObject KMosquitto key)
      (\<lambda>w. (lookup_of (svMissing sv key) (stBrokers (svView sv w) key), w)) s = (Inr a, s1)"
    then have a: "a = lookup_of (svMissing sv key) ?b" "rnWorld s1 = rnWorld s" "rnRandom s1 = rnRandom s"
      by (auto simp: callIO_def)
    show "succeeds (pass_of lib r cl key a) s1"
    proof (cases ?b)
      case None
      then show ?thesis
        using report_succeeds [OF srv acc] by (simp add: a(1) pass_of_def reportUsersOfMissingBroker_def split_beta)
    next
      case (Some m)
      have key: "broker_key m = key" using ok Some unfolding store_ok_def keyed_def by blast
      have b: "stBrokers (svView sv (rnWorld s1)) (broker_key m) \<noteq> None" using Some by (simp add: a(2) key)
      have "succeeds (pass_body lib r cl m) s1"
      proof (cases "namespaceGranted r (mNamespace m)")
        case True
        show ?thesis
        proof (cases "check_of (libRuntime lib) r m (svView sv (rnWorld s1))")
          case None
          show ?thesis
            by (rule run_succeeds [OF srv own acc api pb cond _ _ _ _ b True None]) (use ok broker [OF Some] a in simp_all)
        qed (rule check_succeeds [OF srv acc True b])
      qed (rule ungranted_succeeds [OF srv acc _ b])
      then show ?thesis using Some by (simp add: a(1) pass_of_def)
    qed
  qed
  then show ?thesis by (simp add: succeeds_def)
qed

text \<open>C10: one pass is enough. Over a server that accepts every write, and with PBKDF2 deriving keys at the
  program's fixed parameters, a pass succeeds and nothing is left to do after it. It takes that no object of
  somebody else holds one of the broker's names, the StatefulSet can be built from the spec, the random bytes
  suffice for the salts and the password, and neither a user bound to the broker nor its TLS listener
  names the rendered Secret: a user may name it, and then the operator feeds on its own output.\<close>

theorem one_pass_is_enough:
  assumes "serves cl sv" and "ownership_ok cl" and "accepts cl" and "conditions_ok cl" and "condition_kept cl"
    and "rcHasAPIReader r" and "pbkdf2_derives (libRuntime lib)" and "pbkdf2_ok (libRuntime lib)"
    and "store_ok (svView sv (rnWorld s))"
    and "\<And>m. stBrokers (svView sv (rnWorld s)) key = Some m \<Longrightarrow>
      auth_secret_unnamed m (svView sv (rnWorld s)) \<and> unobstructed lib r cl m (svView sv (rnWorld s)) \<and>
      32 + 64 * (length (bound_users m (svView sv (rnWorld s))) + 1) \<le> length (rnRandom s)"
  shows "\<exists>s'. Reconcile lib r cl key s = (Inr (), s') \<and> quiet (Reconcile lib r cl key) (rnWorld s') ()"
proof -
  obtain s' where s': "Reconcile lib r cl key s = (Inr (), s')"
    using Reconcile_succeeds [OF assms(1-4,6-10)] by blast
  then show ?thesis using Reconcile_again [OF assms(1,2,4,5,8,6,9) _ s'] assms(10) by blast
qed

subsection \<open>A concrete server\<close>

text \<open>The store is the world. The broker has a user with its Secret, and a TLS Secret that may be mounted.\<close>

definition store_client :: "store client" where
  "store_client = \<lparr>
     clGetMosquitto = (\<lambda>key S. (lookup_of ''not found'' (stBrokers S key), S)),
     clGetConfigMap = (\<lambda>key S. (lookup_of ''not found'' (stConfigMaps S key), S)),
     clGetService = (\<lambda>key S. (lookup_of ''not found'' (stServices S key), S)),
     clGetStatefulSet = (\<lambda>key S. (lookup_of ''not found'' (stStatefulSets S key), S)),
     clGetSecret = (\<lambda>key S. (lookup_of ''not found'' (stSecrets S key), S)),
     clGetSecretMeta = (\<lambda>key S. (lookup_of ''not found'' (map_option secMeta (stSecrets S key)), S)),
     clReadSecret = (\<lambda>key S. (lookup_of ''not found'' (stSecrets S key), S)),
     clReadSecretMeta = (\<lambda>key S. (lookup_of ''not found'' (map_option secMeta (stSecrets S key)), S)),
     clListUsers = (\<lambda>key S. (Inr (filter (bound_to key) (stUsers S)), S)),
     clWrite = (\<lambda>x S. (None, store_write x S)),
     clIsControlledBy = clIsControlledBy sample_client,
     clSetControllerReference = clSetControllerReference sample_client,
     clSetStatusCondition = (\<lambda>w cs c. if holds_condition cs c then cs
       else c # filter (\<lambda>x. condType x \<noteq> condType c) cs)\<rparr>"

definition store_server :: "store server" where
  "store_server = \<lparr>svView = (\<lambda>S. S), svMissing = (\<lambda>_. ''not found''), svCached = (\<lambda>x. x)\<rparr>"

definition cert_secret :: secret where
  "cert_secret = sample_secret\<lparr>secMeta := (secMeta sample_secret)\<lparr>metaName := ''cert''\<rparr>\<rparr>"

definition sample_store :: store where
  "sample_store = \<lparr>stBrokers = [(''ns'', ''mq'') \<mapsto> sample_broker], stUsers = [sample_user],
     stSecrets = [(''ns'', ''ann-login'') \<mapsto> sample_secret, (''ns'', ''cert'') \<mapsto> cert_secret],
     stConfigMaps = Map.empty, stServices = Map.empty, stStatefulSets = Map.empty\<rparr>"

definition store_run :: "store run" where
  "store_run = \<lparr>rnWorld = sample_store, rnRandom = replicate 256 (CHR ''s''), rnTrace = []\<rparr>"

lemma store_client_ok:
  "serves store_client store_server" "ownership_ok store_client" "accepts store_client"
  "condition_kept store_client"
  using sample_client_ownership
  by (simp_all add: serves_def store_client_def store_server_def Let_def ownership_ok_def accepts_def
      sample_client_def condition_kept_def option.map_ident)

lemma store_client_conditions: "conditions_ok store_client"
  by (auto simp: conditions_ok_def store_client_def find_condition_def find_filter_other holds_condition_def
      split: option.splits)

lemma sample_keys:
  "object_key (mMeta sample_broker) = (''ns'', ''mq'')" "object_key (secMeta sample_secret) = (''ns'', ''ann-login'')"
  "object_key (secMeta cert_secret) = (''ns'', ''cert'')"
  by (simp_all add: object_key_def sample_broker_def sample_secret_def cert_secret_def empty_meta_def)

lemma sample_store_ok: "store_ok (svView store_server (rnWorld store_run))"
  by (simp add: store_ok_def keyed_def store_server_def store_run_def sample_store_def sample_keys)

lemma sample_unnamed:
  "stBrokers (svView store_server (rnWorld store_run)) (''ns'', ''mq'') = Some m \<Longrightarrow>
     auth_secret_unnamed m (svView store_server (rnWorld store_run))"
  by (auto simp: auth_secret_unnamed_def store_server_def store_run_def sample_store_def sample_user_def
      AuthSecretName_def tls_secret_def sample_broker_def empty_meta_def)

lemma sample_unobstructed:
  assumes "stBrokers (svView store_server (rnWorld store_run)) (''ns'', ''mq'') = Some m"
  shows "unobstructed sample_library (sample_reconciler []) store_client m (svView store_server (rnWorld store_run))"
    and "32 + 64 * (length (bound_users m (svView store_server (rnWorld store_run))) + 1) \<le> length (rnRandom store_run)"
proof -
  have m: "m = sample_broker" using assms by (simp add: store_server_def store_run_def sample_store_def)
  obtain d where "BuildStatefulSet sample_kube sample_broker sample_options = Inr d" by (rule sample_stateful_set)
  then have "BuildStatefulSet sample_kube sample_broker \<lparr>ReloaderImage = rcReloaderImage (sample_reconciler [])\<rparr> = Inr d"
    by (simp add: sample_options_def sample_reconciler_def)
  moreover have "stSecrets sample_store (auth_key sample_broker) = None"
    by (simp add: sample_store_def sample_broker_def AuthSecretName_def empty_meta_def)
  ultimately show "unobstructed sample_library (sample_reconciler []) store_client m (svView store_server (rnWorld store_run))"
    by (simp add: m unobstructed_def sample_library_def store_server_def store_run_def controlled_def)
      (simp add: sample_store_def)
  have "length (bound_users m sample_store) \<le> 1" by (simp add: sample_store_def)
  then show "32 + 64 * (length (bound_users m (svView store_server (rnWorld store_run))) + 1) \<le> length (rnRandom store_run)"
    by (simp add: store_server_def store_run_def)
qed

lemma sample_library_ok: "pbkdf2_ok (libRuntime sample_library)" "pbkdf2_derives (libRuntime sample_library)"
  "rcHasAPIReader (sample_reconciler [])"
  by (simp_all add: sample_library_def sample_runtime_ok sample_runtime_total sample_reconciler_def)

theorem one_pass_is_enough_witness:
  "\<exists>s'. Reconcile sample_library (sample_reconciler []) store_client (''ns'', ''mq'') store_run = (Inr (), s') \<and>
     quiet (Reconcile sample_library (sample_reconciler []) store_client (''ns'', ''mq'')) (rnWorld s') ()"
  by (rule one_pass_is_enough [OF store_client_ok(1-3) store_client_conditions store_client_ok(4)
      sample_library_ok(3,2,1) sample_store_ok]) (intro conjI sample_unnamed sample_unobstructed)

theorem next_pass_writes_nothing_witness:
  "\<exists>s' cs. Reconcile sample_library (sample_reconciler []) store_client (''ns'', ''mq'') store_run = (Inr (), s') \<and>
     Reconcile sample_library (sample_reconciler []) store_client (''ns'', ''mq'') s' =
       (Inr (), s'\<lparr>rnTrace := rnTrace s' @ cs\<rparr>) \<and> list_all no_write cs"
proof -
  obtain s' where "Reconcile sample_library (sample_reconciler []) store_client (''ns'', ''mq'') store_run = (Inr (), s')"
    using Reconcile_succeeds [OF store_client_ok(1-3) store_client_conditions sample_library_ok(3,2,1) sample_store_ok]
      sample_unnamed sample_unobstructed by blast
  then show ?thesis
    using next_pass_writes_nothing [OF store_client_ok(1,2) store_client_conditions store_client_ok(4)
        sample_library_ok(1,3) sample_store_ok sample_unnamed _ refl] by blast
qed

end
