(* ===== verification/GoFlags.thy ===== *)
theory GoFlags
  imports GoStrings
begin

section \<open>Command-line flags (the flag package of the Go library)\<close>

text \<open>
  \<open>FlagSet.Parse\<close> with \<open>ContinueOnError\<close>, for the types of flag the program declares. The result is the
  text each flag was last set to; a flag that is not set keeps its default. The two value parsers
  with rules of their own, \<open>time.ParseDuration\<close> and the base-0 \<open>strconv.ParseInt\<close>, are the fields of
  \<open>flag_lib\<close>.
\<close>

datatype flag_kind = StringFlag | BoolFlag | IntFlag | DurationFlag

record flag_lib =
  fgDuration :: "string \<Rightarrow> int option"
  fgInt :: "string \<Rightarrow> int option"

definition parse_bool :: "string \<Rightarrow> bool option" where
  "parse_bool s =
     (if s \<in> set [''1'', ''t'', ''T'', ''true'', ''TRUE'', ''True''] then Some True
      else if s \<in> set [''0'', ''f'', ''F'', ''false'', ''FALSE'', ''False''] then Some False else None)"

definition flag_value_ok :: "flag_lib \<Rightarrow> flag_kind \<Rightarrow> string \<Rightarrow> bool" where
  "flag_value_ok lib k v = (case k of
       StringFlag \<Rightarrow> True
     | BoolFlag \<Rightarrow> parse_bool v \<noteq> None
     | IntFlag \<Rightarrow> fgInt lib v \<noteq> None
     | DurationFlag \<Rightarrow> fgDuration lib v \<noteq> None)"

text \<open>The name of a flag and the value behind its first equals sign, if it has one.\<close>

definition flag_parts :: "string \<Rightarrow> string \<times> string option" where
  "flag_parts s = (case dropWhile (\<lambda>c. c \<noteq> CHR ''='') s of
       [] \<Rightarrow> (s, None)
     | _ # v \<Rightarrow> (takeWhile (\<lambda>c. c \<noteq> CHR ''='') s, Some v))"

fun parse_flags :: "flag_lib \<Rightarrow> (string \<times> flag_kind) list \<Rightarrow> string list \<Rightarrow> strmap \<Rightarrow> strmap result" where
  "parse_flags lib specs [] set_flags = Inr set_flags"
| "parse_flags lib specs (s # args) set_flags =
     (if length s < 2 \<or> hd s \<noteq> CHR ''-'' \<or> s = ''--'' then Inr set_flags
      else
        (let name = (if s ! 1 = CHR ''-'' then drop 2 s else drop 1 s)
         in if name = '''' \<or> hd name = CHR ''-'' \<or> hd name = CHR ''='' then Inl (''bad flag syntax: '' @ s)
         else (case flag_parts name of (name, value) \<Rightarrow>
           (case map_of specs name of
              None \<Rightarrow> Inl (if name = ''help'' \<or> name = ''h'' then ''flag: help requested''
                else ''flag provided but not defined: -'' @ name)
            | Some k \<Rightarrow>
                (case value of
                   Some v \<Rightarrow>
                     if flag_value_ok lib k v then parse_flags lib specs args (fmupd name v set_flags)
                     else Inl (''invalid value for flag -'' @ name)
                 | None \<Rightarrow>
                     if k = BoolFlag then parse_flags lib specs args (fmupd name ''true'' set_flags)
                     else (case args of
                         [] \<Rightarrow> Inl (''flag needs an argument: -'' @ name)
                       | v # args \<Rightarrow>
                           if flag_value_ok lib k v then parse_flags lib specs args (fmupd name v set_flags)
                           else Inl (''invalid value for flag -'' @ name)))))))"

definition flag_or :: "strmap \<Rightarrow> string \<Rightarrow> string \<Rightarrow> string" where
  "flag_or set_flags name dflt = (case fmlookup set_flags name of None \<Rightarrow> dflt | Some v \<Rightarrow> v)"

definition bool_flag :: "strmap \<Rightarrow> string \<Rightarrow> bool" where
  "bool_flag set_flags name =
     (case fmlookup set_flags name of None \<Rightarrow> False | Some v \<Rightarrow> parse_bool v = Some True)"

lemma flag_parts_plain: "CHR ''='' \<notin> set name \<Longrightarrow> flag_parts name = (name, None)"
proof -
  assume "CHR ''='' \<notin> set name"
  then have "dropWhile (\<lambda>c. c \<noteq> CHR ''='') name = []" by (induction name) auto
  then show ?thesis by (simp only: flag_parts_def list.case)
qed

text \<open>A flag with its value as the next argument.\<close>

lemma parse_flag_pair:
  assumes "map_of specs name = Some k" and "k \<noteq> BoolFlag" and "flag_value_ok lib k v"
    and "name \<noteq> ''''" and "hd name \<noteq> CHR ''-''" and "CHR ''='' \<notin> set name"
  shows "parse_flags lib specs ((''--'' @ name) # v # args) set_flags =
    parse_flags lib specs args (fmupd name v set_flags)"
proof -
  have "hd name \<noteq> CHR ''=''" using assms(4,6) by (metis hd_in_set)
  then show ?thesis using assms by (simp add: flag_parts_plain)
qed

lemma parse_flag_bool:
  assumes "map_of specs name = Some BoolFlag"
    and "name \<noteq> ''''" and "hd name \<noteq> CHR ''-''" and "CHR ''='' \<notin> set name"
  shows "parse_flags lib specs ((''--'' @ name) # args) set_flags =
    parse_flags lib specs args (fmupd name ''true'' set_flags)"
proof -
  have "hd name \<noteq> CHR ''=''" using assms(2,4) by (metis hd_in_set)
  then show ?thesis using assms by (simp add: flag_parts_plain)
qed

end
