(* ===== verification/Watches.thy ===== *)
theory Watches
  imports Reconcile GoFlags
begin

section \<open>What wakes a pass (internal/controller/watches.go, cmd/main.go)\<close>

text \<open>
  The field indexes, the mapping of a changed Secret or user to the brokers concerned, the
  transform that strips Secrets before they are cached, and the options of the command line the
  reconciler and the cache are built from. The lists of objects an index returns come from the
  client library: \<open>index_ok\<close> states that they are the objects of the namespace the index function
  files under the name.
\<close>

definition DefaultMaxConcurrentReconciles :: int where "DefaultMaxConcurrentReconciles = 4"

definition maxConcurrentReconciles :: "int \<Rightarrow> int" where
  "maxConcurrentReconciles configured =
     (if configured \<le> 0 then DefaultMaxConcurrentReconciles else configured)"

subsection \<open>Indexes\<close>

definition indexUserBroker :: "mosquitto_user \<Rightarrow> string list" where
  "indexUserBroker u = [userBrokerRef (uSpec u)]"

definition indexUserSecret :: "mosquitto_user \<Rightarrow> string list" where
  "indexUserSecret u = [credName (userCredentialsSecret (uSpec u))]"

definition indexTLSSecret :: "mosquitto \<Rightarrow> string list" where
  "indexTLSSecret m = (if \<not> IsTLSEnabled m then [] else [tls_secret m])"

subsection \<open>Events\<close>

text \<open>What the cache reports of an object: it appeared, changed, went, or was reported by another source.\<close>

datatype 'o object_event =
    Created 'o
  | Updated 'o 'o
  | Deleted 'o
  | Generic 'o

definition enqueue :: "mosquitto_user \<Rightarrow> nsname" where
  "enqueue u = (metaNamespace (uMeta u), userBrokerRef (uSpec u))"

fun userBrokers :: "mosquitto_user object_event \<Rightarrow> nsname list" where
  "userBrokers (Created u) = [enqueue u]"
| "userBrokers (Updated old new) = [enqueue old, enqueue new]"
| "userBrokers (Deleted u) = [enqueue u]"
| "userBrokers (Generic u) = [enqueue u]"

text \<open>The closure \<open>add\<close>: a key is requested the first time it is seen.\<close>

definition add_request :: "string \<Rightarrow> nsname list \<Rightarrow> string \<Rightarrow> nsname list" where
  "add_request namespace requests name =
     (let key = (namespace, name) in if key \<notin> set requests then requests @ [key] else requests)"

record lister =
  lsUsersBySecret :: "string \<Rightarrow> string \<Rightarrow> mosquitto_user list result"
  lsBrokersByTLS :: "string \<Rightarrow> string \<Rightarrow> mosquitto list result"

definition brokersForSecret :: "lister \<Rightarrow> object_meta \<Rightarrow> nsname list" where
  "brokersForSecret ls secret =
     (let ns = metaNamespace secret;
          requests = (case lsUsersBySecret ls ns (metaName secret) of
              Inl _ \<Rightarrow> []
            | Inr users \<Rightarrow> foldl (add_request ns) [] (map (\<lambda>u. userBrokerRef (uSpec u)) users))
      in (case lsBrokersByTLS ls ns (metaName secret) of
            Inl _ \<Rightarrow> requests
          | Inr brokers \<Rightarrow> foldl (add_request ns) requests (map mName brokers)))"

datatype cached_object = CachedSecret secret | CachedOther string

fun StripSecret :: "cached_object \<Rightarrow> cached_object" where
  "StripSecret (CachedSecret s) = CachedSecret (s\<lparr>secData := fmempty, secStringData := fmempty,
     secMeta := (secMeta s)\<lparr>metaAnnotations := fmempty, metaManagedFields := []\<rparr>\<rparr>)"
| "StripSecret (CachedOther x) = CachedOther x"

subsection \<open>The command line\<close>

record operator_flags =
  ofMetricsAddr :: string
  ofProbeAddr :: string
  ofEnableLeaderElection :: bool
  ofMaxConcurrentReconciles :: int
  ofSecretSecurity :: bool
  ofReloaderImage :: string
  ofSecretNamespaces :: string

definition defaultReloaderImage :: string where "defaultReloaderImage = ''guidedtraffic/mosquitto-operator''"

text \<open>
  \<open>bindOperatorFlags\<close>: the flags it declares, and what the struct holds once they are parsed. The
  build's version is set at link time; the logging flags are declared by the logging library.
\<close>

definition operatorFlagSpecs :: "(string \<times> flag_kind) list" where
  "operatorFlagSpecs = [(''metrics-bind-address'', StringFlag), (''health-probe-bind-address'', StringFlag),
     (''leader-elect'', BoolFlag), (''max-concurrent-reconciles'', IntFlag), (''secret-security'', BoolFlag),
     (''reloader-image'', StringFlag), (''secret-namespaces'', StringFlag)]"

definition bindOperatorFlags :: "flag_lib \<Rightarrow> string \<Rightarrow> strmap \<Rightarrow> operator_flags" where
  "bindOperatorFlags lib version fs = \<lparr>
     ofMetricsAddr = flag_or fs ''metrics-bind-address'' '':8080'',
     ofProbeAddr = flag_or fs ''health-probe-bind-address'' '':8081'',
     ofEnableLeaderElection = bool_flag fs ''leader-elect'',
     ofMaxConcurrentReconciles = (case fmlookup fs ''max-concurrent-reconciles'' of
         None \<Rightarrow> DefaultMaxConcurrentReconciles
       | Some v \<Rightarrow> (case fgInt lib v of None \<Rightarrow> DefaultMaxConcurrentReconciles | Some i \<Rightarrow> i)),
     ofSecretSecurity = bool_flag fs ''secret-security'',
     ofReloaderImage = flag_or fs ''reloader-image'' (defaultReloaderImage @ '':'' @ version),
     ofSecretNamespaces = flag_or fs ''secret-namespaces'' ''''\<rparr>"

text \<open>The first lines of \<open>main\<close>: the arguments of the reload entry point, when it is the one asked for.\<close>

definition reload_entry :: "string list \<Rightarrow> string list option" where
  "reload_entry os_args =
     (if length os_args > 1 \<and> os_args ! 1 = ''reload'' then Some (drop 2 os_args) else None)"

definition namespaces :: "operator_flags \<Rightarrow> string list" where
  "namespaces f = filter (\<lambda>ns. ns \<noteq> '''') (map trim_space (go_split (CHR '','') (ofSecretNamespaces f)))"

definition newReconciler :: "operator_flags \<Rightarrow> reconciler" where
  "newReconciler f = \<lparr>rcMaxConcurrentReconciles = ofMaxConcurrentReconciles f,
     rcSecretSecurity = ofSecretSecurity f, rcHasAPIReader = True,
     rcReloaderImage = ofReloaderImage f, rcSecretNamespaces = namespaces f\<rparr>"

text \<open>
  \<open>managerOptions\<close>: the Secret cache is stripped by a transform, and limited to the listed namespaces,
  if any.
\<close>

record secret_cache =
  caTransform :: "cached_object \<Rightarrow> cached_object"
  caNamespaces :: "string fset option"

record manager_options =
  moMetricsAddr :: string
  moProbeAddr :: string
  moLeaderElection :: bool
  moLeaderElectionID :: string
  moSecrets :: secret_cache

definition managerOptions :: "operator_flags \<Rightarrow> manager_options" where
  "managerOptions f =
     (let secrets = \<lparr>caTransform = StripSecret, caNamespaces = None\<rparr>;
          secrets = (if length (namespaces f) > 0
            then secrets\<lparr>caNamespaces := Some (fset_of_list (namespaces f))\<rparr> else secrets)
      in \<lparr>moMetricsAddr = ofMetricsAddr f, moProbeAddr = ofProbeAddr f,
          moLeaderElection = ofEnableLeaderElection f,
          moLeaderElectionID = ''mosquitto-operator.mko.gtrfc.com'', moSecrets = secrets\<rparr>)"

subsection \<open>Properties\<close>

lemma foldl_add_request:
  "set (foldl (add_request ns) requests names) = set requests \<union> Pair ns ` set names"
  "distinct requests \<Longrightarrow> distinct (foldl (add_request ns) requests names)"
  by (induction names arbitrary: requests) (auto simp: add_request_def Let_def)

definition index_ok :: "lister \<Rightarrow> mosquitto_user list \<Rightarrow> mosquitto list \<Rightarrow> bool" where
  "index_ok ls users brokers \<longleftrightarrow> (\<forall>ns name.
     lsUsersBySecret ls ns name =
       Inr (filter (\<lambda>u. metaNamespace (uMeta u) = ns \<and> name \<in> set (indexUserSecret u)) users) \<and>
     lsBrokersByTLS ls ns name =
       Inr (filter (\<lambda>m. mNamespace m = ns \<and> name \<in> set (indexTLSSecret m)) brokers))"

text \<open>A changed Secret is mapped to exactly the brokers it matters to, each once: those one of whose users
  names it as credentials, and those whose TLS listener names it.\<close>

lemma brokersForSecret_exact:
  assumes "index_ok ls users brokers"
  shows "distinct (brokersForSecret ls sec) \<and>
    set (brokersForSecret ls sec) =
      {(metaNamespace sec, userBrokerRef (uSpec u)) | u. u \<in> set users \<and>
         metaNamespace (uMeta u) = metaNamespace sec \<and>
         credName (userCredentialsSecret (uSpec u)) = metaName sec} \<union>
      {(metaNamespace sec, mName m) | m. m \<in> set brokers \<and> mNamespace m = metaNamespace sec \<and>
         IsTLSEnabled m \<and> tls_secret m = metaName sec}"
proof -
  have "brokersForSecret ls sec = foldl (add_request (metaNamespace sec))
      (foldl (add_request (metaNamespace sec)) [] (map (\<lambda>u. userBrokerRef (uSpec u))
        (filter (\<lambda>u. metaNamespace (uMeta u) = metaNamespace sec \<and> metaName sec \<in> set (indexUserSecret u)) users)))
      (map mName (filter (\<lambda>m. mNamespace m = metaNamespace sec \<and> metaName sec \<in> set (indexTLSSecret m)) brokers))"
    using assms by (simp add: brokersForSecret_def index_ok_def Let_def)
  then show ?thesis
    by (simp add: foldl_add_request indexUserSecret_def indexTLSSecret_def) auto
qed

text \<open>The grant and the cache agree. A namespace is granted exactly when the Secret cache covers it.\<close>

lemma grant_matches_cache:
  "namespaceGranted (newReconciler f) ns \<longleftrightarrow>
     (case caNamespaces (moSecrets (managerOptions f)) of None \<Rightarrow> True | Some covered \<Rightarrow> ns |\<in>| covered)"
  by (simp add: namespaceGranted_def newReconciler_def managerOptions_def Let_def fset_of_list.rep_eq)

text \<open>The cache holds no credential and loses nothing the controller compares. A stripped Secret has no
  data, no annotation and no managed field, and keeps its name, labels and owners.\<close>

lemma StripSecret_keeps_metadata:
  "(case StripSecret (CachedSecret s) of
      CachedOther _ \<Rightarrow> False
    | CachedSecret s' \<Rightarrow> secData s' = fmempty \<and> secStringData s' = fmempty \<and>
        metaAnnotations (secMeta s') = fmempty \<and> metaManagedFields (secMeta s') = [] \<and>
        object_key (secMeta s') = object_key (secMeta s) \<and>
        metaLabels (secMeta s') = metaLabels (secMeta s) \<and>
        metaOwnerReferences (secMeta s') = metaOwnerReferences (secMeta s) \<and> secType s' = secType s)"
  by (simp add: object_key_def)

end
