(* ===== verification/Wiring.thy ===== *)
theory Wiring
  imports Watches
begin

section \<open>The registered watches and the start of the operator (watches.go, cmd/main.go)\<close>

text \<open>
  \<open>SetupWithManager\<close> and \<open>main\<close> are sequences of calls of the controller library, each of which may fail
  and then ends the sequence; the calls and what they are given are data, and which of them fails
  is a parameter. What the library does with the registered watches when an object changes is the
  record \<open>controller_lib\<close>, with \<open>controller_rules\<close> its documented behaviour.
\<close>

subsection \<open>Registration\<close>

definition userBrokerField :: string where "userBrokerField = ''spec.brokerRef.name''"
definition userSecretField :: string where "userSecretField = ''spec.credentialsSecret.name''"
definition tlsSecretField :: string where "tlsSecretField = ''spec.tls.secretName''"

datatype owned_type = StatefulSetType | ConfigMapType | ServiceType | SecretType

datatype event_predicate = GenerationChangedPredicate

datatype event_handler = UserBrokers | BrokersForSecret

datatype watch =
    ForMosquitto "event_predicate list"
  | Owns owned_type
  | WatchUsers event_handler "event_predicate list"
  | WatchSecrets event_handler

datatype field_index =
    UserIndex string "mosquitto_user \<Rightarrow> string list"
  | BrokerIndex string "mosquitto \<Rightarrow> string list"

record controller_setup =
  csMaxConcurrentReconciles :: int
  csWatches :: "watch list"

datatype start_call =
    NewManager manager_options
  | IndexField field_index
  | CompleteController controller_setup
  | AddHealthzCheck
  | AddReadyzCheck
  | StartManager

definition indexFields :: "start_call list" where
  "indexFields = [IndexField (UserIndex userBrokerField indexUserBroker),
     IndexField (UserIndex userSecretField indexUserSecret),
     IndexField (BrokerIndex tlsSecretField indexTLSSecret)]"

definition registered_watches :: "watch list" where
  "registered_watches = [ForMosquitto [GenerationChangedPredicate],
     Owns StatefulSetType, Owns ConfigMapType, Owns ServiceType, Owns SecretType,
     WatchUsers UserBrokers [GenerationChangedPredicate],
     WatchSecrets BrokersForSecret]"

definition SetupWithManager :: "reconciler \<Rightarrow> start_call list" where
  "SetupWithManager r = indexFields @ [CompleteController
     \<lparr>csMaxConcurrentReconciles = maxConcurrentReconciles (rcMaxConcurrentReconciles r),
      csWatches = registered_watches\<rparr>]"

subsection \<open>The start\<close>

text \<open>The calls made, and the error of the last one.\<close>

fun attempt :: "(start_call \<Rightarrow> go_error option) \<Rightarrow> start_call list \<Rightarrow> start_call list \<times> go_error option" where
  "attempt fails [] = ([], None)"
| "attempt fails (c # cs) = (case fails c of
       Some e \<Rightarrow> ([c], Some e)
     | None \<Rightarrow> (case attempt fails cs of (made, e) \<Rightarrow> (c # made, e)))"

definition start_calls :: "operator_flags \<Rightarrow> start_call list" where
  "start_calls f = NewManager (managerOptions f) # SetupWithManager (newReconciler f) @
     [AddHealthzCheck, AddReadyzCheck, StartManager]"

text \<open>
  \<open>main\<close> behind the parsing of its flags: the exit code, and the calls made. The command line holds flags
  that libraries declare as well, so the parsed flags are the argument.
\<close>

definition operator_main ::
  "flag_lib \<Rightarrow> string \<Rightarrow> strmap \<Rightarrow> (start_call \<Rightarrow> go_error option) \<Rightarrow> int \<times> start_call list" where
  "operator_main lib version fs fails =
     (case attempt fails (start_calls (bindOperatorFlags lib version fs)) of
        (made, err) \<Rightarrow> (if err \<noteq> None then 1 else 0, made))"

lemma attempt_ok: "attempt fails cs = (made, None) \<Longrightarrow> made = cs"
  by (induction cs arbitrary: made) (auto split: option.splits prod.splits)

lemma attempt_prefix: "attempt fails cs = (made, err) \<Longrightarrow> \<exists>rest. cs = made @ rest"
  by (induction cs arbitrary: made err) (auto split: option.splits prod.splits)

lemma attempt_before:
  "attempt fails (before @ c # after) = (made, err) \<Longrightarrow> c \<in> set made \<Longrightarrow> c \<notin> set before \<Longrightarrow>
     (\<forall>b \<in> set before. fails b = None)"
  by (induction before arbitrary: made) (auto split: option.splits prod.splits)

text \<open>The manager is started only when every index, the controller and both probes are registered.\<close>

lemma started_complete:
  assumes "operator_main lib version fs fails = (code, made)" and "StartManager \<in> set made"
  shows "\<forall>c \<in> set (start_calls (bindOperatorFlags lib version fs)) - {StartManager}. fails c = None"
proof -
  let ?f = "bindOperatorFlags lib version fs"
  let ?before = "NewManager (managerOptions ?f) # SetupWithManager (newReconciler ?f) @ [AddHealthzCheck, AddReadyzCheck]"
  have calls: "start_calls ?f = ?before @ StartManager # []" by (simp add: start_calls_def)
  obtain err where "attempt fails (start_calls ?f) = (made, err)"
    using assms(1) by (auto simp: operator_main_def split: prod.splits)
  then have "attempt fails (?before @ StartManager # []) = (made, err)" unfolding calls .
  moreover note assms(2)
  moreover have "StartManager \<notin> set ?before" by (simp add: SetupWithManager_def indexFields_def)
  ultimately have "\<forall>b \<in> set ?before. fails b = None" by (rule attempt_before)
  moreover have "set (start_calls ?f) - {StartManager} \<subseteq> set ?before" unfolding calls by auto
  ultimately show ?thesis by blast
qed

subsection \<open>What an event wakes\<close>

datatype watched_event =
    MosquittoEvent "mosquitto object_event"
  | UserEvent "mosquitto_user object_event"
  | OwnedEvent owned_type "object_meta object_event"

record controller_lib =
  ctPredicate :: "event_predicate \<Rightarrow> watched_event \<Rightarrow> bool"
  ctRequestForObject :: "watched_event \<Rightarrow> nsname list"
  ctRequestForOwner :: "watched_event \<Rightarrow> nsname list"
  ctMapFunc :: "(object_meta \<Rightarrow> nsname list) \<Rightarrow> object_meta object_event \<Rightarrow> nsname list"

fun requests_of :: "controller_lib \<Rightarrow> lister \<Rightarrow> watch \<Rightarrow> watched_event \<Rightarrow> nsname list" where
  "requests_of ct ls (ForMosquitto ps) (MosquittoEvent e) =
     (if list_all (\<lambda>p. ctPredicate ct p (MosquittoEvent e)) ps then ctRequestForObject ct (MosquittoEvent e) else [])"
| "requests_of ct ls (Owns t) (OwnedEvent t' e) =
     (if t = t' then ctRequestForOwner ct (OwnedEvent t' e) else [])"
| "requests_of ct ls (WatchUsers UserBrokers ps) (UserEvent e) =
     (if list_all (\<lambda>p. ctPredicate ct p (UserEvent e)) ps then userBrokers e else [])"
| "requests_of ct ls (WatchSecrets BrokersForSecret) (OwnedEvent SecretType e) =
     ctMapFunc ct (brokersForSecret ls) e"
| "requests_of ct ls _ _ = []"

definition woken :: "controller_lib \<Rightarrow> lister \<Rightarrow> watched_event \<Rightarrow> nsname list" where
  "woken ct ls e = concat (map (\<lambda>w. requests_of ct ls w e) registered_watches)"

text \<open>
  The documented behaviour of the library. \<open>GenerationChangedPredicate\<close> drops an update between objects
  of one generation and nothing else; the handlers request what their function gives for every
  object of an event.
\<close>

fun event_objects :: "'o object_event \<Rightarrow> 'o list" where
  "event_objects (Created x) = [x]"
| "event_objects (Updated old new) = [old, new]"
| "event_objects (Deleted x) = [x]"
| "event_objects (Generic x) = [x]"

fun generation_changed :: "('o \<Rightarrow> object_meta) \<Rightarrow> 'o object_event \<Rightarrow> bool" where
  "generation_changed mt (Updated old new) \<longleftrightarrow> metaGeneration (mt old) \<noteq> metaGeneration (mt new)"
| "generation_changed mt _ \<longleftrightarrow> True"

definition controller_rules :: "controller_lib \<Rightarrow> bool" where
  "controller_rules ct \<longleftrightarrow>
     (\<forall>e. ctPredicate ct GenerationChangedPredicate (MosquittoEvent e) = generation_changed mMeta e) \<and>
     (\<forall>e. ctPredicate ct GenerationChangedPredicate (UserEvent e) = generation_changed uMeta e) \<and>
     (\<forall>e. set (ctRequestForObject ct (MosquittoEvent e)) = (object_key \<circ> mMeta) ` set (event_objects e)) \<and>
     (\<forall>f e. set (ctMapFunc ct f e) = (\<Union>x \<in> set (event_objects e). set (f x)))"

lemma set_userBrokers: "set (userBrokers e) = enqueue ` set (event_objects e)"
  by (cases e) auto

text \<open>The brokers to which a Secret matters.\<close>

definition secret_brokers :: "mosquitto_user list \<Rightarrow> mosquitto list \<Rightarrow> object_meta \<Rightarrow> nsname set" where
  "secret_brokers users brokers sec =
     {(metaNamespace sec, userBrokerRef (uSpec u)) | u. u \<in> set users \<and>
        metaNamespace (uMeta u) = metaNamespace sec \<and>
        credName (userCredentialsSecret (uSpec u)) = metaName sec} \<union>
     {(metaNamespace sec, mName m) | m. m \<in> set brokers \<and> mNamespace m = metaNamespace sec \<and>
        IsTLSEnabled m \<and> tls_secret m = metaName sec}"

lemma set_brokersForSecret:
  "index_ok ls users brokers \<Longrightarrow> set (brokersForSecret ls sec) = secret_brokers users brokers sec"
  unfolding secret_brokers_def by (rule conjunct2 [OF brokersForSecret_exact])

lemma woken_cases:
  "woken ct ls (MosquittoEvent e) = requests_of ct ls (ForMosquitto [GenerationChangedPredicate]) (MosquittoEvent e)"
  "woken ct ls (UserEvent f) = requests_of ct ls (WatchUsers UserBrokers [GenerationChangedPredicate]) (UserEvent f)"
  "woken ct ls (OwnedEvent t d) = ctRequestForOwner ct (OwnedEvent t d) @
     (if t = SecretType then ctMapFunc ct (brokersForSecret ls) d else [])"
  by (simp_all add: woken_def registered_watches_def) (cases t; simp)

text \<open>C35: a pass is woken by exactly the events that concern its broker. A broker by a change of its own spec;
  by a change of the spec of a user that names it, before or after the change; by any change of an
  object it owns; and by any change of a Secret that one of its users or its listener names. A status
  write, which keeps the generation, wakes nobody, so the operator's own writes do not keep it running.\<close>

theorem wakes_exactly:
  assumes "controller_rules ct" and "index_ok ls users brokers"
  shows "set (woken ct ls (MosquittoEvent e)) =
      (if generation_changed mMeta e then (object_key \<circ> mMeta) ` set (event_objects e) else {}) \<and>
    set (woken ct ls (UserEvent f)) =
      (if generation_changed uMeta f then enqueue ` set (event_objects f) else {}) \<and>
    set (woken ct ls (OwnedEvent t d)) =
      set (ctRequestForOwner ct (OwnedEvent t d)) \<union>
      (if t = SecretType then (\<Union>sec \<in> set (event_objects d). secret_brokers users brokers sec) else {})"
  using assms(1) set_brokersForSecret [OF assms(2)] unfolding woken_cases
  by (simp add: controller_rules_def set_userBrokers) (simp add: UNION_eq)

subsection \<open>A concrete instance\<close>

definition sample_controller :: controller_lib where
  "sample_controller = \<lparr>
     ctPredicate = (\<lambda>p e. case e of
        MosquittoEvent x \<Rightarrow> generation_changed mMeta x
      | UserEvent x \<Rightarrow> generation_changed uMeta x
      | OwnedEvent _ _ \<Rightarrow> True),
     ctRequestForObject = (\<lambda>e. case e of
        MosquittoEvent x \<Rightarrow> map (object_key \<circ> mMeta) (event_objects x) | _ \<Rightarrow> []),
     ctRequestForOwner = (\<lambda>_. []),
     ctMapFunc = (\<lambda>f x. concat (map f (event_objects x)))\<rparr>"

lemma sample_controller_rules: "controller_rules sample_controller"
  by (simp add: controller_rules_def sample_controller_def)

definition sample_lister :: lister where
  "sample_lister = \<lparr>
     lsUsersBySecret = \<lambda>ns name. Inr (filter (\<lambda>u. metaNamespace (uMeta u) = ns \<and> name \<in> set (indexUserSecret u)) []),
     lsBrokersByTLS = \<lambda>ns name. Inr (filter (\<lambda>m. mNamespace m = ns \<and> name \<in> set (indexTLSSecret m)) [sample_broker])\<rparr>"

lemma sample_index_ok: "index_ok sample_lister [] [sample_broker]"
  by (simp add: index_ok_def sample_lister_def)

theorem wakes_exactly_witness:
  "set (woken sample_controller sample_lister (OwnedEvent SecretType
      (Created (empty_meta\<lparr>metaName := ''cert'', metaNamespace := ''ns''\<rparr>)))) = {(''ns'', ''mq'')} \<and>
   woken sample_controller sample_lister (MosquittoEvent (Updated sample_broker
      (sample_broker\<lparr>mStatus := (mStatus sample_broker)\<lparr>statusPhase := PhaseReady\<rparr>\<rparr>))) = []"
  using wakes_exactly [OF sample_controller_rules sample_index_ok, where t = SecretType
      and d = "Created (empty_meta\<lparr>metaName := ''cert'', metaNamespace := ''ns''\<rparr>)"
      and e = "Updated sample_broker (sample_broker\<lparr>mStatus := (mStatus sample_broker)\<lparr>statusPhase := PhaseReady\<rparr>\<rparr>)"]
  by (auto simp: secret_brokers_def sample_controller_def sample_broker_def IsTLSEnabled_def tls_secret_def
      empty_meta_def)

end
