(* ===== verification/Cluster.thy ===== *)
theory Cluster
  imports Progress Wiring
begin

section \<open>The operator over a changing cluster\<close>

text \<open>
  Users edit brokers, users and Secrets while the operator runs, other controllers change the status of
  its StatefulSets, passes fail and are retried, events arrive late. Here all of this interleaves:
  a step is an edit of the cluster, the delivery of an event, or a pass. What an edit wakes is what
  \<open>SetupWithManager\<close> registered. The operator misses nothing: whenever no event is on its way and no key
  is queued for a broker, a pass over it would find nothing to do.
\<close>

declare split_paired_All [simp del] split_paired_Ex [simp del]

subsection \<open>The events of a change\<close>

definition event_of :: "'o option \<Rightarrow> 'o option \<Rightarrow> 'o object_event option" where
  "event_of old new = (case old of
     None \<Rightarrow> map_option Created new
   | Some x \<Rightarrow> (case new of None \<Rightarrow> Some (Deleted x) | Some y \<Rightarrow> if x = y then None else Some (Updated x y)))"

definition user_at :: "store \<Rightarrow> nsname \<Rightarrow> mosquitto_user option" where
  "user_at S key = find (\<lambda>u. object_key (uMeta u) = key) (stUsers S)"

definition owned_events :: "owned_type \<Rightarrow> ('o \<Rightarrow> object_meta) \<Rightarrow> (nsname \<Rightarrow> 'o option) \<Rightarrow> (nsname \<Rightarrow> 'o option) \<Rightarrow>
    watched_event set" where
  "owned_events t meta f g = {OwnedEvent t (map_object_event meta e) | e k. event_of (f k) (g k) = Some e}"

definition events_between :: "store \<Rightarrow> store \<Rightarrow> watched_event set" where
  "events_between S S' =
     {MosquittoEvent e | e k. event_of (stBrokers S k) (stBrokers S' k) = Some e} \<union>
     {UserEvent e | e k. event_of (user_at S k) (user_at S' k) = Some e} \<union>
     owned_events SecretType secMeta (stSecrets S) (stSecrets S') \<union>
     owned_events ConfigMapType cmMeta (stConfigMaps S) (stConfigMaps S') \<union>
     owned_events ServiceType svcMeta (stServices S) (stServices S') \<union>
     owned_events StatefulSetType stsMeta (stStatefulSets S) (stStatefulSets S')"

definition woken_by :: "controller_lib \<Rightarrow> lister \<Rightarrow> store \<Rightarrow> store \<Rightarrow> nsname set" where
  "woken_by ct ls S S' = (\<Union>e \<in> events_between S S'. set (woken ct ls e))"

text \<open>The indexes are those of the store.\<close>

definition indexes :: "lister \<Rightarrow> store \<Rightarrow> bool" where
  "indexes ls S \<longleftrightarrow> (\<exists>bs. set bs = ran (stBrokers S) \<and> index_ok ls (stUsers S) bs)"

text \<open>
  The documented behaviour of the ownership helpers and of the watch on owned objects: both look at the
  one owner reference that is the controller, by its UID and by its kind and name.
\<close>

definition controller_ref :: "object_meta \<Rightarrow> owner_ref option" where
  "controller_ref mt = find refController (metaOwnerReferences mt)"

definition owner_rules :: "'w client \<Rightarrow> controller_lib \<Rightarrow> bool" where
  "owner_rules cl ct \<longleftrightarrow>
     (\<forall>mt own. clIsControlledBy cl mt own \<longleftrightarrow> (\<exists>ref. controller_ref mt = Some ref \<and> refUID ref = metaUID own)) \<and>
     (\<forall>own obj mt. clSetControllerReference cl own obj = Inr mt \<longrightarrow>
        (\<exists>ref. controller_ref mt = Some ref \<and> refUID ref = metaUID own \<and> refKind ref = ''Mosquitto'' \<and>
           refName ref = metaName own)) \<and>
     (\<forall>t e mt ref. mt \<in> set (event_objects e) \<longrightarrow> controller_ref mt = Some ref \<longrightarrow> refKind ref = ''Mosquitto'' \<longrightarrow>
        (metaNamespace mt, refName ref) \<in> set (ctRequestForOwner ct (OwnedEvent t e)))"

text \<open>
  What every cluster has: UIDs are unique, a controller reference with the UID of a broker names it, and
  here no broker's rendered Secret is named as credentials of its users or as its TLS Secret.
\<close>

definition owned_metas :: "store \<Rightarrow> object_meta set" where
  "owned_metas S = secMeta ` ran (stSecrets S) \<union> cmMeta ` ran (stConfigMaps S) \<union> svcMeta ` ran (stServices S) \<union>
     stsMeta ` ran (stStatefulSets S)"

definition unique_uids :: "store \<Rightarrow> bool" where
  "unique_uids S \<longleftrightarrow> (\<forall>k k' m m'. stBrokers S k = Some m \<longrightarrow> stBrokers S k' = Some m' \<longrightarrow>
     metaUID (mMeta m) = metaUID (mMeta m') \<longrightarrow> k = k')"

definition owners_named :: "store \<Rightarrow> bool" where
  "owners_named S \<longleftrightarrow> (\<forall>mt \<in> owned_metas S. \<forall>ref k m. controller_ref mt = Some ref \<longrightarrow> stBrokers S k = Some m \<longrightarrow>
     refUID ref = metaUID (mMeta m) \<longrightarrow> refKind ref = ''Mosquitto'' \<and> refName ref = mName m)"

definition secrets_unnamed :: "store \<Rightarrow> bool" where
  "secrets_unnamed S \<longleftrightarrow> (\<forall>k m. stBrokers S k = Some m \<longrightarrow> auth_secret_unnamed m S)"

definition cluster_ok :: "store \<Rightarrow> bool" where
  "cluster_ok S \<longleftrightarrow> store_ok S \<and> unique_uids S \<and> owners_named S \<and> secrets_unnamed S"

text \<open>
  What nobody does behind the operator's back: between two stores, an object that keeps its generation keeps
  its metadata and spec, and its status too, except for what a pass over a broker of \<open>K\<close> may write; and the
  list of users keeps the order of those that stay.
\<close>

definition keys_of :: "mosquitto_user list \<Rightarrow> nsname set" where
  "keys_of us = (object_key \<circ> uMeta) ` set us"

definition edited :: "nsname set \<Rightarrow> store \<Rightarrow> store \<Rightarrow> bool" where
  "edited K S S' \<longleftrightarrow>
     (\<forall>k m m'. k \<notin> K \<longrightarrow> stBrokers S k = Some m \<longrightarrow> stBrokers S' k = Some m' \<longrightarrow>
        metaGeneration (mMeta m) = metaGeneration (mMeta m') \<longrightarrow> m' = m) \<and>
     (\<forall>u \<in> set (stUsers S). \<forall>u' \<in> set (stUsers S'). object_key (uMeta u) = object_key (uMeta u') \<longrightarrow>
        metaGeneration (uMeta u) = metaGeneration (uMeta u') \<longrightarrow>
        uMeta u' = uMeta u \<and> uSpec u' = uSpec u \<and> ((\<forall>k \<in> K. \<not> bound_to k u) \<longrightarrow> u' = u)) \<and>
     map (object_key \<circ> uMeta) (filter (\<lambda>u. object_key (uMeta u) \<in> keys_of (stUsers S')) (stUsers S)) =
       map (object_key \<circ> uMeta) (filter (\<lambda>u. object_key (uMeta u) \<in> keys_of (stUsers S)) (stUsers S'))"

subsection \<open>What a pass over a broker reads\<close>

definition keeps_owned :: "'w client \<Rightarrow> mosquitto \<Rightarrow> ('o \<Rightarrow> object_meta) \<Rightarrow> (nsname \<Rightarrow> 'o option) \<Rightarrow> (nsname \<Rightarrow> 'o option) \<Rightarrow> bool" where
  "keeps_owned cl m meta f g \<longleftrightarrow> (\<forall>k x. fst k = mNamespace m \<longrightarrow> f k = Some x \<longrightarrow>
     clIsControlledBy cl (meta x) (mMeta m) \<longrightarrow> g k = Some x)"

definition agrees :: "'w client \<Rightarrow> nsname \<Rightarrow> store \<Rightarrow> store \<Rightarrow> bool" where
  "agrees cl key S S' \<longleftrightarrow> stBrokers S' key = stBrokers S key \<and>
     filter (bound_to key) (stUsers S') = filter (bound_to key) (stUsers S) \<and>
     (\<forall>m. stBrokers S key = Some m \<longrightarrow>
       (\<forall>u \<in> set (bound_users m S). stSecrets S' (uNamespace u, credName (userCredentialsSecret (uSpec u))) =
          stSecrets S (uNamespace u, credName (userCredentialsSecret (uSpec u)))) \<and>
       (IsTLSEnabled m \<longrightarrow> stSecrets S' (mNamespace m, tls_secret m) = stSecrets S (mNamespace m, tls_secret m)) \<and>
       keeps_owned cl m secMeta (stSecrets S) (stSecrets S') \<and>
       keeps_owned cl m cmMeta (stConfigMaps S) (stConfigMaps S') \<and>
       keeps_owned cl m svcMeta (stServices S) (stServices S') \<and>
       keeps_owned cl m stsMeta (stStatefulSets S) (stStatefulSets S'))"

lemma built_namespaces:
  "fst (auth_key m) = mNamespace m"
  "fst (object_key (cmMeta (BuildConfigMap m))) = mNamespace m"
  "fst (object_key (svcMeta (BuildHeadlessService m))) = mNamespace m"
  "fst (object_key (svcMeta (BuildClientService m))) = mNamespace m"
  by (simp_all add: BuildConfigMap_def BuildHeadlessService_def BuildClientService_def object_key_def)

lemma built_stateful_set_key:
  "BuildStatefulSet kl m opts = Inr d \<Longrightarrow> object_key (stsMeta d) = (mNamespace m, StatefulSetName m)"
  by (auto simp: BuildStatefulSet_def Let_def object_key_def bindR_def split: if_splits sum.splits)

lemma object_done_kept:
  "keeps_owned cl m meta f g \<Longrightarrow> fst k = mNamespace m \<Longrightarrow> object_done cl m meta with_meta changed d (f k) \<Longrightarrow>
     object_done cl m meta with_meta changed d (g k)"
  unfolding object_done_def keeps_owned_def by blast

lemma resources_left_kept:
  assumes us: "bound_users m S' = bound_users m S" and rendered: "\<And>pass. rendered (libRuntime lib) r sv m S' pass = rendered (libRuntime lib) r sv m S pass"
    and a: "keeps_owned cl m secMeta (stSecrets S) (stSecrets S')" "keeps_owned cl m cmMeta (stConfigMaps S) (stConfigMaps S')"
      "keeps_owned cl m svcMeta (stServices S) (stServices S')" "keeps_owned cl m stsMeta (stStatefulSets S) (stStatefulSets S')"
    and left: "resources_left lib r cl sv m S n"
  shows "resources_left lib r cl sv m S' n"
    and "stStatefulSets S' (mNamespace m, StatefulSetName m) = stStatefulSets S (mNamespace m, StatefulSetName m)"
proof -
  obtain pass where pass: "n = upAccepted pass" "rendered (libRuntime lib) r sv m S pass"
    "\<forall>u \<in> set (bound_users m S). user_done (go_get (upUsernames pass) (uName u)) (verdict_of (upVerdicts pass) (uName u)) u"
    and objects: "secret_done cl m (upData pass) S" "config_map_done cl m S"
      "service_done cl m (BuildHeadlessService m) S" "service_done cl m (BuildClientService m) S"
      "stateful_set_done r (libKube lib) cl m S"
    using left unfolding resources_left_def by blast
  obtain d where d: "BuildStatefulSet (libKube lib) m \<lparr>ReloaderImage = rcReloaderImage r\<rparr> = Inr d"
    "object_done cl m stsMeta (\<lambda>mt d. d\<lparr>stsMeta := mt\<rparr>) StatefulSetHasChanged d (stStatefulSets S (object_key (stsMeta d)))"
    using objects(5) by blast
  note dk = built_stateful_set_key [OF d(1)]
  have sts: "object_done cl m stsMeta (\<lambda>mt d. d\<lparr>stsMeta := mt\<rparr>) StatefulSetHasChanged d (stStatefulSets S' (object_key (stsMeta d)))"
    by (rule object_done_kept [OF a(4) _ d(2)]) (simp add: dk)
  show "stStatefulSets S' (mNamespace m, StatefulSetName m) = stStatefulSets S (mNamespace m, StatefulSetName m)"
    using d(2) a(4) unfolding object_done_def keeps_owned_def dk by fastforce
  show "resources_left lib r cl sv m S' n"
    unfolding resources_left_def rendered us
    using pass object_done_kept [OF a(1) built_namespaces(1) objects(1)] object_done_kept [OF a(2) built_namespaces(2) objects(2)]
      object_done_kept [OF a(3) built_namespaces(3) objects(3)] object_done_kept [OF a(3) built_namespaces(4) objects(4)]
      d(1) sts by blast
qed

lemma broker_done_agrees:
  assumes ok: "store_ok S" and b: "stBrokers S key = Some m" and agree: "agrees cl key S S'"
    and left: "broker_done lib r cl sv m S"
  shows "broker_done lib r cl sv m S'"
proof -
  have key: "(mNamespace m, mName m) = key" using store_ok_broker [OF ok b] by (simp add: object_key_def)
  have us: "bound_users m S' = bound_users m S" using agree by (simp add: agrees_def key)
  have a: "\<And>u. u \<in> set (bound_users m S) \<Longrightarrow> stSecrets S' (uNamespace u, credName (userCredentialsSecret (uSpec u))) =
      stSecrets S (uNamespace u, credName (userCredentialsSecret (uSpec u)))"
    "IsTLSEnabled m \<Longrightarrow> stSecrets S' (mNamespace m, tls_secret m) = stSecrets S (mNamespace m, tls_secret m)"
    "keeps_owned cl m secMeta (stSecrets S) (stSecrets S')" "keeps_owned cl m cmMeta (stConfigMaps S) (stConfigMaps S')"
    "keeps_owned cl m svcMeta (stServices S) (stServices S')" "keeps_owned cl m stsMeta (stStatefulSets S) (stStatefulSets S')"
    using agree b unfolding agrees_def by blast+
  have reported: "reported (mNamespace m, mName m) v S' = reported (mNamespace m, mName m) v S" for v
    by (simp add: reported_def us)
  have check: "check_of (libRuntime lib) r m S' = check_of (libRuntime lib) r m S"
  proof (cases "IsTLSEnabled m")
    case True
    show ?thesis unfolding check_of_def a(2) [OF True] by (rule refl)
  qed (simp add: check_of_def)
  have i: "inputs_at rt r sv S' (bound_users m S) names verdicts = inputs_at rt r sv S (bound_users m S) names verdicts"
    for rt names verdicts
    using inputs_at_same [OF status_change_id a(1), of "bound_users m S"] by simp
  have rendered: "rendered rt r sv m S' pass = rendered rt r sv m S pass" for rt pass
    by (simp only: rendered_def i us)
  have "resources_left lib r cl sv m S' n \<and> report_left m n S'"
    if "resources_left lib r cl sv m S n" and "report_left m n S" for n
    using that resources_left_kept [OF us rendered a(3-6) that(1)] by (simp add: report_left_def)
  then show ?thesis using left unfolding broker_done_def reported check by (auto split: if_splits option.splits)
qed

lemma pass_done_agrees:
  assumes "store_ok S" and "agrees cl key S S'" and "pass_done lib r cl sv key S"
  shows "pass_done lib r cl sv key S'"
proof -
  have b: "stBrokers S' key = stBrokers S key" and us: "filter (bound_to key) (stUsers S') = filter (bound_to key) (stUsers S)"
    using assms(2) by (simp_all add: agrees_def)
  show ?thesis
  proof (cases "stBrokers S key")
    case None
    then show ?thesis using assms(3) by (simp add: pass_done_def b reported_def us)
  next
    case (Some m)
    then show ?thesis using assms(3) broker_done_agrees [OF assms(1) Some assms(2)] by (auto simp: pass_done_def b)
  qed
qed

subsection \<open>What is not woken has not changed\<close>

lemma event_of_simps [simp]:
  "event_of None None = None" "event_of (Some x) None = Some (Deleted x)" "event_of None (Some y) = Some (Created y)"
  "event_of (Some x) (Some y) = (if x = y then None else Some (Updated x y))"
  by (simp_all add: event_of_def)

lemma event_of_None: "event_of x y = None \<longleftrightarrow> y = x"
  by (cases x; cases y) auto

lemma event_of_objects:
  "event_of x y = Some e \<Longrightarrow> set (event_objects e) = set_option x \<union> set_option y"
  by (cases x; cases y) (auto split: if_splits)

lemma event_objects_map [simp]: "event_objects (map_object_event f e) = map f (event_objects e)"
  by (cases e) simp_all

lemma woken_byI: "e \<in> events_between S S' \<Longrightarrow> k \<in> set (woken ct ls e) \<Longrightarrow> k \<in> woken_by ct ls S S'"
  unfolding woken_by_def by blast

lemma woken_broker:
  assumes "controller_rules ct" and "event_of (stBrokers S k) (stBrokers S' k) = Some e" and "generation_changed mMeta e"
    and "m \<in> set (event_objects e)"
  shows "broker_key m \<in> woken_by ct ls S S'"
proof (rule woken_byI)
  show "MosquittoEvent e \<in> events_between S S'" using assms(2) by (auto simp: events_between_def)
  show "broker_key m \<in> set (woken ct ls (MosquittoEvent e))"
    using assms(1,3,4) unfolding woken_cases by (auto simp: controller_rules_def)
qed

lemma woken_user:
  assumes "controller_rules ct" and "event_of (user_at S k) (user_at S' k) = Some e" and "generation_changed uMeta e"
    and "u \<in> set (event_objects e)"
  shows "enqueue u \<in> woken_by ct ls S S'"
proof (rule woken_byI)
  show "UserEvent e \<in> events_between S S'" using assms(2) by (auto simp: events_between_def)
  show "enqueue u \<in> set (woken ct ls (UserEvent e))"
    using assms(1,3,4) unfolding woken_cases by (auto simp: controller_rules_def set_userBrokers)
qed

lemma woken_owned:
  assumes "OwnedEvent t e \<in> events_between S S'" and "k \<in> set (ctRequestForOwner ct (OwnedEvent t e))"
  shows "k \<in> woken_by ct ls S S'"
  by (rule woken_byI [OF assms(1)]) (use assms(2) in \<open>simp add: woken_cases\<close>)

lemma woken_secret:
  assumes "controller_rules ct" and "indexes ls S'" and "event_of (stSecrets S k) (stSecrets S' k) = Some e"
    and "sec \<in> set (event_objects e)"
    and "key \<in> secret_brokers (stUsers S') bs (secMeta sec)" and "set bs = ran (stBrokers S')"
  shows "key \<in> woken_by ct ls S S'"
proof (rule woken_byI)
  let ?e = "map_object_event secMeta e"
  show "OwnedEvent SecretType ?e \<in> events_between S S'"
    using assms(3) by (auto simp: events_between_def owned_events_def)
  obtain bs' where bs': "set bs' = ran (stBrokers S')" "index_ok ls (stUsers S') bs'"
    using assms(2) unfolding indexes_def by blast
  have "secret_brokers (stUsers S') bs' = secret_brokers (stUsers S') bs"
    by (simp add: fun_eq_iff secret_brokers_def bs'(1) assms(6))
  then have "key \<in> set (brokersForSecret ls (secMeta sec))"
    using assms(5) set_brokersForSecret [OF bs'(2)] by simp
  then show "key \<in> set (woken ct ls (OwnedEvent SecretType ?e))"
    using assms(1,4) unfolding woken_cases by (auto simp: controller_rules_def)
qed

lemma find_unique: "distinct (map f xs) \<Longrightarrow> x \<in> set xs \<Longrightarrow> find (\<lambda>y. f y = f x) xs = Some x"
  by (induction xs) (auto simp: image_iff)

lemma user_at_Some: "store_ok S \<Longrightarrow> u \<in> set (stUsers S) \<Longrightarrow> user_at S (object_key (uMeta u)) = Some u"
  using find_unique [of "object_key \<circ> uMeta" "stUsers S" u] by (simp add: user_at_def store_ok_def)

lemma user_at_in: "user_at S k = Some u \<Longrightarrow> u \<in> set (stUsers S) \<and> object_key (uMeta u) = k"
  by (auto simp: user_at_def find_Some_iff)

lemma broker_unwoken:
  assumes ct: "controller_rules ct" and ok: "store_ok S" "store_ok S'" and ed: "edited K S S'" and key: "key \<notin> K"
    and un: "key \<notin> woken_by ct ls S S'"
  shows "stBrokers S' key = stBrokers S key"
proof (cases "event_of (stBrokers S key) (stBrokers S' key)")
  case None
  then show ?thesis by (simp add: event_of_None)
next
  case (Some e)
  have "broker_key m = key" if "m \<in> set (event_objects e)" for m
    using that event_of_objects [OF Some] store_ok_broker [OF ok(1), of key] store_ok_broker [OF ok(2), of key]
    by (cases "stBrokers S key"; cases "stBrokers S' key") auto
  then have same: "\<not> generation_changed mMeta e"
    using woken_broker [OF ct Some] un by (cases e) fastforce+
  then obtain m m' where m: "e = Updated m m'" "metaGeneration (mMeta m) = metaGeneration (mMeta m')"
    by (cases e) auto
  then have "stBrokers S key = Some m" "stBrokers S' key = Some m'"
    using Some by (cases "stBrokers S key"; cases "stBrokers S' key"; simp split: if_splits)+
  then show ?thesis using ed key m(2) unfolding edited_def by fastforce
qed

lemma bound_enqueue: "bound_to key u \<longleftrightarrow> enqueue u = key"
  by (simp add: bound_to_def enqueue_def uNamespace_def)

text \<open>A user bound to an unwoken broker, in either store, is in both.\<close>

lemma user_unwoken:
  assumes ct: "controller_rules ct" and ok: "store_ok S" "store_ok S'" and ed: "edited K S S'" and key: "key \<notin> K"
    and un: "key \<notin> woken_by ct ls S S'"
  shows "u \<in> set (stUsers S) \<Longrightarrow> bound_to key u \<Longrightarrow> u \<in> set (stUsers S')"
    and "u \<in> set (stUsers S') \<Longrightarrow> bound_to key u \<Longrightarrow> u \<in> set (stUsers S)"
proof -
  have same: "u = u'" if u: "u \<in> set (stUsers S)" and u': "u' \<in> set (stUsers S')"
    and k: "object_key (uMeta u) = object_key (uMeta u')" and b: "bound_to key u \<or> bound_to key u'" for u u'
  proof (rule ccontr)
    assume "u \<noteq> u'"
    then have e: "event_of (user_at S (object_key (uMeta u))) (user_at S' (object_key (uMeta u))) = Some (Updated u u')"
      using user_at_Some [OF ok(1) u] user_at_Some [OF ok(2) u'] k by simp
    have "\<not> generation_changed uMeta (Updated u u')"
      using woken_user [OF ct e] un b unfolding bound_enqueue by auto
    then have g: "uMeta u' = uMeta u" "uSpec u' = uSpec u" "(\<forall>k \<in> K. \<not> bound_to k u) \<longrightarrow> u' = u"
      using ed u u' k unfolding edited_def by fastforce+
    then have "bound_to key u" using b by (simp add: bound_to_def uNamespace_def)
    then have "\<forall>k \<in> K. \<not> bound_to k u" using key by (auto simp: bound_enqueue)
    then show False using g(3) \<open>u \<noteq> u'\<close> by simp
  qed
  show "u \<in> set (stUsers S')" if u: "u \<in> set (stUsers S)" and b: "bound_to key u"
  proof (cases "user_at S' (object_key (uMeta u))")
    case None
    then have "event_of (user_at S (object_key (uMeta u))) (user_at S' (object_key (uMeta u))) = Some (Deleted u)"
      using user_at_Some [OF ok(1) u] by simp
    from woken_user [OF ct this] un b show ?thesis by (simp add: bound_enqueue)
  next
    case (Some u')
    then have "u = u'" using user_at_in [OF Some] b by (intro same [OF u]) simp_all
    then show ?thesis using user_at_in [OF Some] by simp
  qed
  show "u \<in> set (stUsers S)" if u: "u \<in> set (stUsers S')" and b: "bound_to key u"
  proof (cases "user_at S (object_key (uMeta u))")
    case None
    then have "event_of (user_at S (object_key (uMeta u))) (user_at S' (object_key (uMeta u))) = Some (Created u)"
      using user_at_Some [OF ok(2) u] by simp
    from woken_user [OF ct this] un b show ?thesis by (simp add: bound_enqueue)
  next
    case (Some u')
    then have "u' = u" using user_at_in [OF Some] b by (intro same [OF _ u]) simp_all
    then show ?thesis using user_at_in [OF Some] by simp
  qed
qed

lemma filter_paired:
  assumes "map k xs = map k ys"
    and "\<And>x y. x \<in> set xs \<Longrightarrow> y \<in> set ys \<Longrightarrow> k x = k y \<Longrightarrow> P x = P y \<and> (P x \<longrightarrow> x = y)"
  shows "filter P xs = filter P ys"
  using assms
proof (induction xs arbitrary: ys)
  case (Cons x xs)
  then obtain y ys' where ys: "ys = y # ys'" "k x = k y" "map k xs = map k ys'" by (cases ys) auto
  have "P x = P y \<and> (P x \<longrightarrow> x = y)" by (rule Cons.prems(2)) (simp_all add: ys(1,2))
  then have "P x = P y" "P y \<Longrightarrow> x = y" by blast+
  moreover have "filter P xs = filter P ys'"
  proof (rule Cons.IH [OF ys(3)])
    fix a b assume "a \<in> set xs" "b \<in> set ys'" "k a = k b"
    then show "P a = P b \<and> (P a \<longrightarrow> a = b)" by (intro Cons.prems(2)) (simp_all add: ys(1))
  qed
  ultimately show ?case unfolding ys(1) by (cases "P y") simp_all
qed simp

lemma users_unwoken:
  assumes ct: "controller_rules ct" and ok: "store_ok S" "store_ok S'" and ed: "edited K S S'" and key: "key \<notin> K"
    and un: "key \<notin> woken_by ct ls S S'"
  shows "filter (bound_to key) (stUsers S') = filter (bound_to key) (stUsers S)"
proof -
  note both = user_unwoken [OF assms]
  let ?k = "object_key \<circ> uMeta"
  let ?us = "filter (\<lambda>u. ?k u \<in> keys_of (stUsers S')) (stUsers S)" and ?us' = "filter (\<lambda>u. ?k u \<in> keys_of (stUsers S)) (stUsers S')"
  have keys: "map ?k ?us = map ?k ?us'" using ed by (simp add: edited_def)
  have inj: "inj_on ?k (set (stUsers S))" "inj_on ?k (set (stUsers S'))"
    using ok unfolding store_ok_def distinct_map by blast+
  have step: "bound_to key u = bound_to key u' \<and> (bound_to key u \<longrightarrow> u = u')"
    if "u \<in> set ?us" "u' \<in> set ?us'" "?k u = ?k u'" for u u'
  proof -
    have m: "u \<in> set (stUsers S)" "u' \<in> set (stUsers S')" using that by simp_all
    have "u = u'" if "bound_to key u" using inj_onD [OF inj(2) \<open>?k u = ?k u'\<close> both(1) [OF m(1) that] m(2)] .
    moreover have "u = u'" if "bound_to key u'" using inj_onD [OF inj(1) \<open>?k u = ?k u'\<close> m(1) both(2) [OF m(2) that]] .
    ultimately show ?thesis by blast
  qed
  have "filter (bound_to key) ?us = filter (bound_to key) ?us'" by (rule filter_paired [OF keys step])
  moreover have "filter (bound_to key) ?us = filter (bound_to key) (stUsers S)"
    unfolding filter_filter
  proof (rule filter_cong [OF refl])
    fix u assume "u \<in> set (stUsers S)"
    then show "(?k u \<in> keys_of (stUsers S') \<and> bound_to key u) = bound_to key u"
      using both(1) [of u] unfolding keys_of_def by blast
  qed
  moreover have "filter (bound_to key) ?us' = filter (bound_to key) (stUsers S')"
    unfolding filter_filter
  proof (rule filter_cong [OF refl])
    fix u assume "u \<in> set (stUsers S')"
    then show "(?k u \<in> keys_of (stUsers S) \<and> bound_to key u) = bound_to key u"
      using both(2) [of u] unfolding keys_of_def by blast
  qed
  ultimately show ?thesis by simp
qed

lemma secret_unwoken:
  assumes ct: "controller_rules ct" and ix: "indexes ls S'" and ok: "store_ok S" "store_ok S'"
    and un: "key \<notin> woken_by ct ls S S'"
    and named: "(\<exists>u \<in> set (stUsers S'). bound_to key u \<and> k = (uNamespace u, credName (userCredentialsSecret (uSpec u)))) \<or>
      (\<exists>m. stBrokers S' key = Some m \<and> IsTLSEnabled m \<and> k = (mNamespace m, tls_secret m))"
  shows "stSecrets S' k = stSecrets S k"
proof (cases "event_of (stSecrets S k) (stSecrets S' k)")
  case None
  then show ?thesis by (simp add: event_of_None)
next
  case (Some e)
  then obtain sec where sec: "sec \<in> set (event_objects e)" by (cases e) auto
  then have k: "object_key (secMeta sec) = k"
    using event_of_objects [OF Some] ok unfolding store_ok_def keyed_def
    by (cases "stSecrets S k"; cases "stSecrets S' k") auto
  obtain bs where bs: "set bs = ran (stBrokers S')" using ix unfolding indexes_def by blast
  have "key \<in> secret_brokers (stUsers S') bs (secMeta sec)"
    using named
  proof
    assume "\<exists>u \<in> set (stUsers S'). bound_to key u \<and> k = (uNamespace u, credName (userCredentialsSecret (uSpec u)))"
    then obtain u where "u \<in> set (stUsers S')" "bound_to key u" "k = (uNamespace u, credName (userCredentialsSecret (uSpec u)))"
      by blast
    then show ?thesis using k by (auto simp: secret_brokers_def object_key_def bound_to_def uNamespace_def)
  next
    assume "\<exists>m. stBrokers S' key = Some m \<and> IsTLSEnabled m \<and> k = (mNamespace m, tls_secret m)"
    then obtain m where m: "stBrokers S' key = Some m" "IsTLSEnabled m" "k = (mNamespace m, tls_secret m)" by blast
    have "key = (mNamespace m, mName m)" using store_ok_broker [OF ok(2) m(1)] by (simp add: object_key_def)
    moreover have "m \<in> set bs" using m(1) by (auto simp: bs ran_def)
    ultimately show ?thesis using k m(2,3) by (auto simp: secret_brokers_def object_key_def)
  qed
  from woken_secret [OF ct ix Some sec this bs] un show ?thesis by simp
qed

lemma owned_unwoken:
  assumes own: "owner_rules cl ct" and named: "owners_named S" and b: "stBrokers S key = Some m" and ok: "store_ok S"
    and un: "key \<notin> woken_by ct ls S S'"
    and metas: "\<And>x k. f k = Some x \<Longrightarrow> meta x \<in> owned_metas S" and keyed: "keyed meta f"
    and events: "owned_events t meta f g \<subseteq> events_between S S'"
  shows "keeps_owned cl m meta f g"
  unfolding keeps_owned_def
proof (intro allI impI)
  fix k x assume k: "fst k = mNamespace m" and x: "f k = Some x" and c: "clIsControlledBy cl (meta x) (mMeta m)"
  show "g k = Some x"
  proof (cases "event_of (f k) (g k)")
    case None
    then show ?thesis using x by (simp add: event_of_None)
  next
    case (Some e)
    obtain ref where ref: "controller_ref (meta x) = Some ref" "refUID ref = metaUID (mMeta m)"
      using own c unfolding owner_rules_def by blast
    have n: "refKind ref = ''Mosquitto''" "refName ref = mName m"
      using named metas [OF x] ref b unfolding owners_named_def by blast+
    have "meta x \<in> set (event_objects (map_object_event meta e))"
      using event_of_objects [OF Some] x by auto
    then have "(metaNamespace (meta x), refName ref) \<in> set (ctRequestForOwner ct (OwnedEvent t (map_object_event meta e)))"
      using own ref(1) n(1) unfolding owner_rules_def by blast
    moreover have "(metaNamespace (meta x), refName ref) = key"
      using keyed x k n(2) store_ok_broker [OF ok b] unfolding keyed_def object_key_def by (metis fst_conv)
    moreover have "OwnedEvent t (map_object_event meta e) \<in> events_between S S'"
      using events Some unfolding owned_events_def by blast
    ultimately show ?thesis using woken_owned un by metis
  qed
qed

lemma unwoken_agrees:
  assumes ct: "controller_rules ct" "owner_rules cl ct" and ix: "indexes ls S'" and ok: "cluster_ok S" "cluster_ok S'"
    and ed: "edited K S S'" and key: "key \<notin> K" and un: "key \<notin> woken_by ct ls S S'"
  shows "agrees cl key S S'"
proof -
  have sok: "store_ok S" "store_ok S'" and named: "owners_named S" using ok by (simp_all add: cluster_ok_def)
  note b = broker_unwoken [OF ct(1) sok ed key un] and us = users_unwoken [OF ct(1) sok ed key un]
  note secret = secret_unwoken [OF ct(1) ix sok un]
  have "(\<forall>u \<in> set (bound_users m S). stSecrets S' (uNamespace u, credName (userCredentialsSecret (uSpec u))) =
          stSecrets S (uNamespace u, credName (userCredentialsSecret (uSpec u)))) \<and>
       (IsTLSEnabled m \<longrightarrow> stSecrets S' (mNamespace m, tls_secret m) = stSecrets S (mNamespace m, tls_secret m)) \<and>
       keeps_owned cl m secMeta (stSecrets S) (stSecrets S') \<and>
       keeps_owned cl m cmMeta (stConfigMaps S) (stConfigMaps S') \<and>
       keeps_owned cl m svcMeta (stServices S) (stServices S') \<and>
       keeps_owned cl m stsMeta (stStatefulSets S) (stStatefulSets S')" if m: "stBrokers S key = Some m" for m
  proof (intro conjI ballI impI)
    have k: "(mNamespace m, mName m) = key" using store_ok_broker [OF sok(1) m] by (simp add: object_key_def)
    show "stSecrets S' (uNamespace u, credName (userCredentialsSecret (uSpec u))) =
          stSecrets S (uNamespace u, credName (userCredentialsSecret (uSpec u)))" if "u \<in> set (bound_users m S)" for u
    proof (rule secret)
      have "u \<in> set (filter (bound_to key) (stUsers S'))" using that us by (simp add: k)
      then show "(\<exists>v \<in> set (stUsers S'). bound_to key v \<and> (uNamespace u, credName (userCredentialsSecret (uSpec u))) =
          (uNamespace v, credName (userCredentialsSecret (uSpec v)))) \<or> (\<exists>m. stBrokers S' key = Some m \<and> IsTLSEnabled m \<and>
          (uNamespace u, credName (userCredentialsSecret (uSpec u))) = (mNamespace m, tls_secret m))" by auto
    qed
    show "stSecrets S' (mNamespace m, tls_secret m) = stSecrets S (mNamespace m, tls_secret m)" if "IsTLSEnabled m"
      by (rule secret) (use that m b in auto)
    note owned = owned_unwoken [OF ct(2) named m sok(1) un]
    show "keeps_owned cl m secMeta (stSecrets S) (stSecrets S')"
      by (rule owned [where t = SecretType]) (use sok in \<open>auto simp: owned_metas_def ran_def store_ok_def events_between_def\<close>)
    show "keeps_owned cl m cmMeta (stConfigMaps S) (stConfigMaps S')"
      by (rule owned [where t = ConfigMapType]) (use sok in \<open>auto simp: owned_metas_def ran_def store_ok_def events_between_def\<close>)
    show "keeps_owned cl m svcMeta (stServices S) (stServices S')"
      by (rule owned [where t = ServiceType]) (use sok in \<open>auto simp: owned_metas_def ran_def store_ok_def events_between_def\<close>)
    show "keeps_owned cl m stsMeta (stStatefulSets S) (stStatefulSets S')"
      by (rule owned [where t = StatefulSetType]) (use sok in \<open>auto simp: owned_metas_def ran_def store_ok_def events_between_def\<close>)
  qed
  then show ?thesis unfolding agrees_def using b us by blast
qed

end
