(* ===== verification/Operator.thy ===== *)
theory Operator
  imports Cluster
begin

section \<open>The operator as a state machine\<close>

text \<open>
  The state is the world, the keys in the work queue, and the events that are on their way. A step is an
  edit of the cluster by somebody else, the delivery of an event in any order, or a pass over a queued key, which may
  fail and then stays queued. An event is mapped to keys with the indexes of the store at its delivery.
\<close>

record 'w operator =
  opWorld :: 'w
  opQueue :: "nsname set"
  opEvents :: "watched_event list"

definition empty_store :: store where
  "empty_store = \<lparr>stBrokers = Map.empty, stUsers = [], stSecrets = Map.empty, stConfigMaps = Map.empty,
     stServices = Map.empty, stStatefulSets = Map.empty\<rparr>"

datatype operator_move = Edit | Deliver | Passed nsname | Failed nsname

inductive operator_step :: "library \<Rightarrow> reconciler \<Rightarrow> 'w client \<Rightarrow> 'w server \<Rightarrow> controller_lib \<Rightarrow>
    operator_move \<Rightarrow> 'w operator \<Rightarrow> 'w operator \<Rightarrow> bool"
  for lib r cl sv ct where
  step_edit: "cluster_ok (svView sv w') \<Longrightarrow> edited {} (svView sv w) (svView sv w') \<Longrightarrow> indexes ls (svView sv w') \<Longrightarrow>
     set es = events_between (svView sv w) (svView sv w') \<Longrightarrow>
     operator_step lib r cl sv ct Edit \<lparr>opWorld = w, opQueue = Q, opEvents = E\<rparr>
       \<lparr>opWorld = w', opQueue = Q, opEvents = E @ es\<rparr>"
| step_deliver: "indexes ls (svView sv w) \<Longrightarrow>
     operator_step lib r cl sv ct Deliver \<lparr>opWorld = w, opQueue = Q, opEvents = E @ e # E'\<rparr>
       \<lparr>opWorld = w, opQueue = Q \<union> set (woken ct ls e), opEvents = E @ E'\<rparr>"
| step_pass: "key \<in> Q \<Longrightarrow> Reconcile lib r cl key s = (res, s') \<Longrightarrow> rnWorld s = w \<Longrightarrow> rnWorld s' = w' \<Longrightarrow>
     indexes ls (svView sv w') \<Longrightarrow> set es = events_between (svView sv w) (svView sv w') \<Longrightarrow>
     operator_step lib r cl sv ct (if isInr res then Passed key else Failed key)
       \<lparr>opWorld = w, opQueue = Q, opEvents = E\<rparr>
       \<lparr>opWorld = w', opQueue = (if isInr res then Q - {key} else Q), opEvents = E @ es\<rparr>"

text \<open>It starts with an empty queue, and its informers report every object of the cluster as created.\<close>

inductive operates :: "library \<Rightarrow> reconciler \<Rightarrow> 'w client \<Rightarrow> 'w server \<Rightarrow> controller_lib \<Rightarrow> 'w operator \<Rightarrow> bool"
  for lib r cl sv ct where
  operates_start: "cluster_ok (svView sv w) \<Longrightarrow> indexes ls (svView sv w) \<Longrightarrow>
     set es = events_between empty_store (svView sv w) \<Longrightarrow>
     operates lib r cl sv ct \<lparr>opWorld = w, opQueue = {}, opEvents = es\<rparr>"
| operates_step: "operates lib r cl sv ct st \<Longrightarrow> operator_step lib r cl sv ct mv st st' \<Longrightarrow> operates lib r cl sv ct st'"

text \<open>A key is awaited when it is queued, or when an event on its way would queue it.\<close>

definition awaited :: "controller_lib \<Rightarrow> store \<Rightarrow> nsname set \<Rightarrow> watched_event list \<Rightarrow> nsname \<Rightarrow> bool" where
  "awaited ct S Q E key \<longleftrightarrow> key \<in> Q \<or> (\<exists>e \<in> set E. \<exists>ls. indexes ls S \<and> key \<in> set (woken ct ls e))"

subsection \<open>A pass as a change of the cluster\<close>

lemma users_sparedE:
  assumes "users_spared key us us'"
  obtains \<phi> where "\<And>u. uMeta (\<phi> u) = uMeta u" "\<And>u. uSpec (\<phi> u) = uSpec u" "us' = map \<phi> us"
    "\<And>u. u \<in> set us \<Longrightarrow> \<not> bound_to key u \<Longrightarrow> \<phi> u = u"
  using assms status_changeD unfolding users_spared_def by metis

lemma spared_users:
  assumes "users_spared key us us'"
  shows "keys_of us' = keys_of us" and "map (object_key \<circ> uMeta) us' = map (object_key \<circ> uMeta) us"
proof -
  obtain \<phi> where \<phi>: "\<And>u. uMeta (\<phi> u) = uMeta u" "us' = map \<phi> us" using users_sparedE [OF assms] by blast
  show "keys_of us' = keys_of us" by (simp add: keys_of_def \<phi> image_image)
  show "map (object_key \<circ> uMeta) us' = map (object_key \<circ> uMeta) us" by (simp add: \<phi>)
qed

lemma spared_edited:
  assumes ok: "store_ok S" and sp: "spared cl key S S'"
  shows "edited {key} S S'"
proof -
  note d = sparedD [OF sp]
  obtain \<phi> where \<phi>: "\<And>u. uMeta (\<phi> u) = uMeta u" "\<And>u. uSpec (\<phi> u) = uSpec u" "stUsers S' = map \<phi> (stUsers S)"
    "\<And>u. u \<in> set (stUsers S) \<Longrightarrow> \<not> bound_to key u \<Longrightarrow> \<phi> u = u"
    using users_sparedE [OF d(4)] by blast
  have inj: "inj_on (object_key \<circ> uMeta) (set (stUsers S))" using ok by (simp add: store_ok_def distinct_map)
  have u: "u' = \<phi> u" if u: "u \<in> set (stUsers S)" and u': "u' \<in> set (stUsers S')"
    and k: "object_key (uMeta u) = object_key (uMeta u')" for u u'
  proof -
    obtain v where v: "v \<in> set (stUsers S)" "u' = \<phi> v" using u' \<phi>(3) by auto
    then have "u = v" using inj_onD [OF inj _ u v(1)] k \<phi>(1) by simp
    then show ?thesis using v(2) by simp
  qed
  have all: "filter (\<lambda>u. object_key (uMeta u) \<in> keys_of us) us = us" for us
    by (rule filter_True) (simp add: keys_of_def)
  show ?thesis
    unfolding edited_def spared_users [OF d(4)]
  proof (intro conjI allI impI ballI)
    show "m' = m" if "k \<notin> {key}" "stBrokers S k = Some m" "stBrokers S' k = Some m'" for k m m'
      using d(2) [of k] that by simp
    show "uMeta v = uMeta u" "uSpec v = uSpec u"
      if "u \<in> set (stUsers S)" "v \<in> set (stUsers S')" "object_key (uMeta u) = object_key (uMeta v)" for u v
      using u [OF that] \<phi> by simp_all
    show "v = u" if "u \<in> set (stUsers S)" "v \<in> set (stUsers S')" "object_key (uMeta u) = object_key (uMeta v)"
      "\<forall>k \<in> {key}. \<not> bound_to k u" for u v
      using u [OF that(1-3)] \<phi>(4) [OF that(1)] that(4) by simp
    have "map (object_key \<circ> uMeta) (filter (\<lambda>u. object_key (uMeta u) \<in> keys_of (stUsers S')) (stUsers S')) =
        map (object_key \<circ> uMeta) (filter (\<lambda>u. object_key (uMeta u) \<in> keys_of (stUsers S)) (stUsers S))"
      unfolding all by (rule spared_users(2) [OF d(4)])
    then show "map (object_key \<circ> uMeta) (filter (\<lambda>u. object_key (uMeta u) \<in> keys_of (stUsers S)) (stUsers S)) =
        map (object_key \<circ> uMeta) (filter (\<lambda>u. object_key (uMeta u) \<in> keys_of (stUsers S)) (stUsers S'))"
      by (simp add: spared_users(1) [OF d(4)])
  qed
qed

text \<open>The brokers of two stores, one by one.\<close>

lemma spared_broker:
  "spared cl key S S' \<Longrightarrow> stBrokers S' k = Some m' \<Longrightarrow> \<exists>m. stBrokers S k = Some m \<and> same_object m m'"
  using sparedD(3) [of cl key S S' k] by (auto simp: option_rel_Some2)

lemma owned_meta_named:
  assumes own: "owner_rules cl ct" and named: "owners_named S" and uids: "unique_uids S" and b: "stBrokers S key = Some m"
    and change: "owned_change cl (mMeta m) meta f g" and metas: "\<And>x k. f k = Some x \<Longrightarrow> meta x \<in> owned_metas S"
    and y: "g k = Some y"
    and ref: "controller_ref (meta y) = Some ref" and b': "stBrokers S k' = Some m'" and uid: "refUID ref = metaUID (mMeta m')"
  shows "refKind ref = ''Mosquitto'' \<and> refName ref = mName m'"
proof -
  consider "f k = Some y" | (new) "f k = None" "own_object cl (mMeta m) meta None y"
    | (old) x where "f k = Some x" "own_object cl (mMeta m) meta (Some x) y"
    using owned_changeD [OF change, of k] y by (cases "f k") auto
  then show ?thesis
  proof cases
    case 1
    then show ?thesis using named metas ref b' uid unfolding owners_named_def by blast
  next
    case new
    then obtain obj mt where mt: "clSetControllerReference cl (mMeta m) obj = Inr mt"
      "metaOwnerReferences (meta y) = metaOwnerReferences mt"
      by (auto simp: own_object_def)
    then have "controller_ref mt = Some ref" using ref by (simp add: controller_ref_def)
    moreover obtain ref' where "controller_ref mt = Some ref'" "refUID ref' = metaUID (mMeta m)"
      "refKind ref' = ''Mosquitto''" "refName ref' = mName m"
      using own mt(1) unfolding owner_rules_def by blast
    ultimately have r: "refUID ref = metaUID (mMeta m)" "refKind ref = ''Mosquitto''" "refName ref = mName m" by simp_all
    then have "k' = key" using uids b b' uid unfolding unique_uids_def by metis
    then show ?thesis using r b b' by simp
  next
    case old
    then have "controller_ref (meta x) = Some ref" using ref by (simp add: own_object_def controller_ref_def)
    then show ?thesis using named metas [OF old(1)] b' uid unfolding owners_named_def by blast
  qed
qed

lemma spared_meta_named:
  assumes own: "owner_rules cl ct" and S: "owners_named S" "unique_uids S" and sp: "spared cl key S S'"
    and mt: "mt \<in> owned_metas S'" and ref: "controller_ref mt = Some ref" and b': "stBrokers S k = Some m'"
    and uid: "refUID ref = metaUID (mMeta m')"
  shows "refKind ref = ''Mosquitto'' \<and> refName ref = mName m'"
proof (cases "stBrokers S key")
  case None
  then have "owned_metas S' = owned_metas S" using sparedD(6) [OF sp] by (simp add: owned_metas_def)
  then show ?thesis using S mt ref b' uid unfolding owners_named_def by blast
next
  case (Some m)
  note change = sparedD(5) [OF sp Some, unfolded owned_changes_def]
  note named = owned_meta_named [OF own S Some _ _ _ _ b']
  consider x i where "mt = secMeta x" "stSecrets S' i = Some x" | x i where "mt = cmMeta x" "stConfigMaps S' i = Some x"
    | x i where "mt = svcMeta x" "stServices S' i = Some x" | x i where "mt = stsMeta x" "stStatefulSets S' i = Some x"
    using mt unfolding owned_metas_def ran_def by blast
  then show ?thesis
  proof cases
    case 1
    then show ?thesis
      using ref uid change by (intro named [of secMeta "stSecrets S" "stSecrets S'"]) (auto simp: owned_metas_def intro: ranI)
  next
    case 2
    then show ?thesis
      using ref uid change by (intro named [of cmMeta "stConfigMaps S" "stConfigMaps S'"]) (auto simp: owned_metas_def intro: ranI)
  next
    case 3
    then show ?thesis
      using ref uid change by (intro named [of svcMeta "stServices S" "stServices S'"]) (auto simp: owned_metas_def intro: ranI)
  next
    case 4
    then show ?thesis
      using ref uid change by (intro named [of stsMeta "stStatefulSets S" "stStatefulSets S'"]) (auto simp: owned_metas_def intro: ranI)
  qed
qed

lemma spared_owners_named:
  assumes own: "owner_rules cl ct" and ok: "cluster_ok S" and sp: "spared cl key S S'"
  shows "owners_named S'"
proof -
  have S: "owners_named S" "unique_uids S" using ok by (simp_all add: cluster_ok_def)
  show ?thesis
    unfolding owners_named_def
  proof (intro ballI allI impI)
    fix mt ref k m' assume mt: "mt \<in> owned_metas S'" "controller_ref mt = Some ref" and m': "stBrokers S' k = Some m'"
      and uid: "refUID ref = metaUID (mMeta m')"
    obtain m where m: "stBrokers S k = Some m" "same_object m m'" using spared_broker [OF sp m'] by blast
    have "refUID ref = metaUID (mMeta m)" using uid same_objectD(1) [OF m(2)] by simp
    from spared_meta_named [OF own S sp mt m(1) this] show "refKind ref = ''Mosquitto'' \<and> refName ref = mName m'"
      using same_objectD(1) [OF m(2)] by simp
  qed
qed

lemma spared_cluster:
  assumes own: "owner_rules cl ct" and ok: "cluster_ok S" and sp: "spared cl key S S'"
  shows "cluster_ok S'"
proof -
  note d = sparedD [OF sp]
  have S: "store_ok S" "unique_uids S" "secrets_unnamed S" using ok by (simp_all add: cluster_ok_def)
  have "k = k'" if b: "stBrokers S' k = Some m" "stBrokers S' k' = Some m'" and uid: "metaUID (mMeta m) = metaUID (mMeta m')" for k k' m m'
  proof -
    obtain m1 m2 where "stBrokers S k = Some m1" "same_object m1 m" "stBrokers S k' = Some m2" "same_object m2 m'"
      using spared_broker [OF sp b(1)] spared_broker [OF sp b(2)] by blast
    then show ?thesis using S(2) uid unfolding unique_uids_def same_object_def by metis
  qed
  then have "unique_uids S'" unfolding unique_uids_def by blast
  moreover have "auth_secret_unnamed m' S'" if m': "stBrokers S' k = Some m'" for k m'
  proof -
    obtain m where m: "stBrokers S k = Some m" "same_object m m'" using spared_broker [OF sp m'] by blast
    obtain \<phi> where \<phi>: "\<And>u. uMeta (\<phi> u) = uMeta u" "\<And>u. uSpec (\<phi> u) = uSpec u" "stUsers S' = map \<phi> (stUsers S)"
      using users_sparedE [OF d(4)] by metis
    have "auth_secret_unnamed m S" using S(3) m(1) unfolding secrets_unnamed_def by blast
    then show ?thesis
      using \<phi>(1,2) same_objectD [OF m(2)]
      by (auto simp: auth_secret_unnamed_def \<phi>(3) IsTLSEnabled_def tls_secret_def AuthSecretName_def bound_to_def uNamespace_def)
  qed
  ultimately show ?thesis
    using d(1) spared_owners_named [OF own ok sp] unfolding cluster_ok_def secrets_unnamed_def by blast
qed

subsection \<open>Nothing is missed\<close>

lemma key_in_secret_brokers:
  assumes ok: "store_ok S" and bs: "set bs = ran (stBrokers S)"
  shows "key \<in> secret_brokers (stUsers S) bs sec \<longleftrightarrow>
    (\<exists>u \<in> set (filter (bound_to key) (stUsers S)). (uNamespace u, credName (userCredentialsSecret (uSpec u))) = object_key sec) \<or>
    (\<exists>m. stBrokers S key = Some m \<and> IsTLSEnabled m \<and> (mNamespace m, tls_secret m) = object_key sec)" (is "?L = (?U \<or> ?T)")
proof -
  have "?T \<longleftrightarrow> (\<exists>m \<in> set bs. mNamespace m = metaNamespace sec \<and> IsTLSEnabled m \<and> tls_secret m = metaName sec \<and>
      key = (metaNamespace sec, mName m))" (is "_ \<longleftrightarrow> ?T'")
  proof
    assume ?T
    then obtain m where m: "stBrokers S key = Some m" "IsTLSEnabled m" "(mNamespace m, tls_secret m) = object_key sec" by blast
    have "object_key (mMeta m) = key" by (rule store_ok_broker [OF ok m(1)])
    moreover have "m \<in> set bs" unfolding bs by (rule ranI) (rule m(1))
    ultimately show ?T' using m(2,3) by (auto simp: object_key_def)
  next
    assume ?T'
    then obtain m k where m: "stBrokers S k = Some m" "mNamespace m = metaNamespace sec" "IsTLSEnabled m"
      "tls_secret m = metaName sec" "key = (metaNamespace sec, mName m)"
      unfolding bs ran_def by blast
    have "k = key" using store_ok_broker [OF ok m(1)] m(2,5) by (simp add: object_key_def)
    then show ?T using m by (auto simp: object_key_def)
  qed
  then show ?thesis by (auto simp: secret_brokers_def bound_to_def uNamespace_def object_key_def)
qed

text \<open>What concerns a broker is the same in two stores that agree on what a pass over it reads.\<close>

lemma woken_agrees:
  assumes ct: "controller_rules ct" and ok: "store_ok S" "store_ok S'" and ix: "indexes ls S" "indexes ls' S'"
    and agree: "agrees cl key S S'" and woken: "key \<in> set (woken ct ls e)"
  shows "key \<in> set (woken ct ls' e)"
proof (cases e)
  case (OwnedEvent t d)
  obtain bs bs' where bs: "set bs = ran (stBrokers S)" "index_ok ls (stUsers S) bs"
    "set bs' = ran (stBrokers S')" "index_ok ls' (stUsers S') bs'"
    using ix unfolding indexes_def by blast
  have "key \<in> secret_brokers (stUsers S') bs' x \<longleftrightarrow> key \<in> secret_brokers (stUsers S) bs x" for x
    using agree unfolding key_in_secret_brokers [OF ok(1) bs(1)] key_in_secret_brokers [OF ok(2) bs(3)]
    by (simp add: agrees_def)
  then show ?thesis
    using woken ct unfolding OwnedEvent woken_cases
    by (auto simp: controller_rules_def set_brokersForSecret [OF bs(2)] set_brokersForSecret [OF bs(4)] split: if_splits)
qed (use woken in \<open>simp_all add: woken_cases\<close>)

lemma agrees_refl: "agrees cl key S S"
  by (simp add: agrees_def keeps_owned_def)

lemma awaited_agrees:
  "controller_rules ct \<Longrightarrow> store_ok S \<Longrightarrow> store_ok S' \<Longrightarrow> indexes ls' S' \<Longrightarrow> agrees cl key S S' \<Longrightarrow>
     awaited ct S Q E key \<Longrightarrow> awaited ct S' Q E key"
  unfolding awaited_def using woken_agrees by blast

text \<open>The invariant: a broker that is not awaited is done.\<close>

definition in_hand :: "library \<Rightarrow> reconciler \<Rightarrow> 'w client \<Rightarrow> 'w server \<Rightarrow> controller_lib \<Rightarrow> 'w operator \<Rightarrow> bool" where
  "in_hand lib r cl sv ct st \<longleftrightarrow> (let S = svView sv (opWorld st) in
     cluster_ok S \<and> (\<exists>ls. indexes ls S) \<and>
     (\<forall>key. \<not> awaited ct S (opQueue st) (opEvents st) key \<longrightarrow> pass_done lib r cl sv key S))"

lemma change_in_hand:
  assumes ct: "controller_rules ct" "owner_rules cl ct" and ok: "cluster_ok S" "cluster_ok S'" and ix: "indexes ls S'"
    and ed: "edited K S S'" and key: "key \<notin> K" and es: "set es = events_between S S'"
    and un: "\<not> awaited ct S' Q (E @ es) key"
    and was: "\<not> awaited ct S Q E key \<Longrightarrow> pass_done lib r cl sv key S"
  shows "pass_done lib r cl sv key S'"
proof -
  have "key \<notin> woken_by ct ls S S'" using un ix unfolding awaited_def woken_by_def es [symmetric] by auto
  then have agree: "agrees cl key S S'" by (rule unwoken_agrees [OF ct ix ok ed key])
  have sok: "store_ok S" "store_ok S'" using ok by (simp_all add: cluster_ok_def)
  have "\<not> awaited ct S' Q E key" using un unfolding awaited_def by auto
  then have "\<not> awaited ct S Q E key" using awaited_agrees [OF ct(1) sok ix agree] by blast
  from was [OF this] show ?thesis by (rule pass_done_agrees [OF sok(1) agree])
qed

lemma empty_cluster: "cluster_ok empty_store" "\<exists>ls. indexes ls empty_store" "edited {} empty_store S"
  "pass_done lib r cl sv key empty_store"
proof -
  show "cluster_ok empty_store"
    by (simp add: cluster_ok_def store_ok_def keyed_def unique_uids_def owners_named_def owned_metas_def secrets_unnamed_def
        empty_store_def)
  have "index_ok \<lparr>lsUsersBySecret = \<lambda>_ _. Inr [], lsBrokersByTLS = \<lambda>_ _. Inr []\<rparr> [] []" by (simp add: index_ok_def)
  then show "\<exists>ls. indexes ls empty_store" unfolding indexes_def by (force simp: empty_store_def)
  show "edited {} empty_store S" by (simp add: edited_def empty_store_def keys_of_def)
  show "pass_done lib r cl sv key empty_store" by (simp add: pass_done_def reported_def empty_store_def)
qed

inductive_cases operator_stepE: "operator_step lib r cl sv ct mv st st'"

lemma step_in_hand:
  assumes srv: "serves cl sv" and own: "ownership_ok cl" and cond: "conditions_ok cl"
    and pb: "pbkdf2_ok (libRuntime lib)" and api: "rcHasAPIReader r"
    and ct: "controller_rules ct" "owner_rules cl ct"
    and hand: "in_hand lib r cl sv ct st" and step: "operator_step lib r cl sv ct mv st st'"
  shows "in_hand lib r cl sv ct st'"
  using step
proof cases
  case (step_edit w' w ls es Q E)
  then show ?thesis
    using hand change_in_hand [OF ct, where K = "{}" and S = "svView sv w" and S' = "svView sv w'" and ls = ls]
    by (auto simp: in_hand_def Let_def)
next
  case (step_deliver ls w Q E e E')
  have sok: "store_ok (svView sv w)" using hand step_deliver(2) by (simp add: in_hand_def Let_def cluster_ok_def)
  have "awaited ct (svView sv w) (Q \<union> set (woken ct ls e)) (E @ E') key" if "awaited ct (svView sv w) Q (E @ e # E') key" for key
    using that woken_agrees [OF ct(1) sok sok _ step_deliver(4) agrees_refl, where e = e and key = key]
    unfolding awaited_def set_append list.set by blast
  then show ?thesis using hand step_deliver(2,3) by (auto simp: in_hand_def Let_def)
next
  case (step_pass key Q s res s' w w' ls es E)
  let ?S = "svView sv w" and ?S' = "svView sv w'"
  have ok: "cluster_ok ?S" and was: "\<And>k. \<not> awaited ct ?S Q E k \<Longrightarrow> pass_done lib r cl sv k ?S"
    using hand step_pass(2) by (simp_all add: in_hand_def Let_def)
  have sok: "store_ok (svView sv (rnWorld s))" using ok step_pass(6) by (simp add: cluster_ok_def)
  have sp: "spared cl key ?S ?S'" using Reconcile_spares [OF srv own api sok step_pass(5)] step_pass(6,7) by simp
  have ok': "cluster_ok ?S'" by (rule spared_cluster [OF ct(2) ok sp])
  have "pass_done lib r cl sv k ?S'" if un: "\<not> awaited ct ?S' (if isInr res then Q - {key} else Q) (E @ es) k" for k
  proof (cases "k = key")
    case False
    then have "\<not> awaited ct ?S' Q (E @ es) k" using un unfolding awaited_def by (auto split: if_splits)
    then show ?thesis
      using change_in_hand [OF ct ok ok' step_pass(8) spared_edited [OF _ sp] _ step_pass(9) _ was] False ok
      by (simp add: cluster_ok_def)
  next
    case True
    then have "isInr res" using un step_pass(4) unfolding awaited_def by (auto split: if_splits)
    then have run: "Reconcile lib r cl key s = (Inr (), s')" using step_pass(5) by (cases res) auto
    show ?thesis unfolding True step_pass(7) [symmetric]
      by (rule pass_leaves_done [OF srv own cond pb api sok _ run])
        (use ok step_pass(6) in \<open>simp add: cluster_ok_def secrets_unnamed_def\<close>)
  qed
  then show ?thesis using ok' step_pass(3,8) by (auto simp: in_hand_def Let_def)
qed

lemma operates_in_hand:
  assumes hyps: "serves cl sv" "ownership_ok cl" "conditions_ok cl" "pbkdf2_ok (libRuntime lib)" "rcHasAPIReader r"
    "controller_rules ct" "owner_rules cl ct"
    and op: "operates lib r cl sv ct st"
  shows "in_hand lib r cl sv ct st"
  using op
proof induction
  case (operates_start w ls es)
  have "pass_done lib r cl sv key (svView sv w)" if "\<not> awaited ct (svView sv w) {} es key" for key
    by (rule change_in_hand [OF hyps(6,7) empty_cluster(1) operates_start(1,2) empty_cluster(3) _ operates_start(3)
        _ empty_cluster(4), where Q = "{}" and E = "[]"]) (use that in simp_all)
  then show ?case using operates_start(1,2) by (auto simp: in_hand_def Let_def)
next
  case (operates_step st st')
  show ?case by (rule step_in_hand [OF hyps operates_step(3,2)])
qed

text \<open>C7: no change is missed. However edits of brokers, users, Secrets and owned objects, late events in any order, and
  passes that succeed or fail are interleaved, a broker for which no key is queued and no event is on its
  way needs nothing: a pass over it would succeed without a write and without drawing a random byte. In
  particular every change that could matter to a broker is watched.\<close>

theorem no_change_is_missed:
  assumes "serves cl sv" and "ownership_ok cl" and "conditions_ok cl" and "condition_kept cl"
    and "pbkdf2_ok (libRuntime lib)" and "rcHasAPIReader r"
    and "controller_rules ct" and "owner_rules cl ct"
    and "operates lib r cl sv ct st"
    and "\<not> awaited ct (svView sv (opWorld st)) (opQueue st) (opEvents st) key"
  shows "quiet (Reconcile lib r cl key) (opWorld st) ()"
proof (rule pass_done_quiet [OF assms(1,2,4,6)])
  have hand: "in_hand lib r cl sv ct st" by (rule operates_in_hand [OF assms(1,2,3,5,6,7,8,9)])
  show "store_ok (svView sv (opWorld st))" using hand by (simp add: in_hand_def Let_def cluster_ok_def)
  show "pass_done lib r cl sv key (svView sv (opWorld st))" using hand assms(10) by (simp add: in_hand_def Let_def)
qed

end
