(* ===== verification/Tended.thy ===== *)
theory Tended
  imports Operator
begin

section \<open>The pods that run\<close>

text \<open>
  The operator recognises an outdated StatefulSet by the digest on its pod template, never by the pod spec itself. So
  the digest has to be true: it is where the operator wrote both, and stays so as long as nobody
  else touches the pod spec of a StatefulSet that belongs to a broker, or its digest: the operations guide says that such an edit survives. Under this
  rely condition on the edits of others, every such StatefulSet of a reachable state is intact.
\<close>

definition pod_digest :: "stateful_set \<Rightarrow> string" where
  "pod_digest x = go_get (ptAnnotations (stsTemplate x)) AnnotationPodSpecHash"

definition intact :: "kube_lib \<Rightarrow> stateful_set \<Rightarrow> bool" where
  "intact kl x \<longleftrightarrow> stsReplicas x \<noteq> None \<and> pod_digest x = hashOf (klMarshalPodSpec kl (ptSpec (stsTemplate x)))"

definition owned_sts :: "'w client \<Rightarrow> store \<Rightarrow> stateful_set \<Rightarrow> bool" where
  "owned_sts cl S x \<longleftrightarrow> (\<exists>k m. stBrokers S k = Some m \<and> clIsControlledBy cl (stsMeta x) (mMeta m))"

definition all_intact :: "kube_lib \<Rightarrow> 'w client \<Rightarrow> store \<Rightarrow> bool" where
  "all_intact kl cl S \<longleftrightarrow> (\<forall>k x. stStatefulSets S k = Some x \<longrightarrow> owned_sts cl S x \<longrightarrow> intact kl x)"

text \<open>What others may do to the StatefulSets of brokers: anything but to the pod spec and its digest. They may scale
  one, but not unset its replicas, which the API server never leaves unset; and they create none.\<close>

definition pods_left :: "'w client \<Rightarrow> store \<Rightarrow> store \<Rightarrow> bool" where
  "pods_left cl S S' \<longleftrightarrow> (\<forall>k x'. stStatefulSets S' k = Some x' \<longrightarrow> owned_sts cl S' x' \<longrightarrow>
     (\<exists>x. stStatefulSets S k = Some x \<and> owned_sts cl S x \<and> pod_digest x' = pod_digest x \<and>
        ptSpec (stsTemplate x') = ptSpec (stsTemplate x) \<and> (stsReplicas x' = None \<longrightarrow> stsReplicas x = None)))"

lemma pods_left_intact: "all_intact kl cl S \<Longrightarrow> pods_left cl S S' \<Longrightarrow> all_intact kl cl S'"
  unfolding all_intact_def pods_left_def intact_def by (metis (no_types))

text \<open>The runs of the operator in which others keep to it.\<close>

inductive tended :: "library \<Rightarrow> reconciler \<Rightarrow> 'w client \<Rightarrow> 'w server \<Rightarrow> controller_lib \<Rightarrow> 'w operator \<Rightarrow> bool"
  for lib r cl sv ct where
  tended_start: "cluster_ok (svView sv w) \<Longrightarrow> indexes ls (svView sv w) \<Longrightarrow>
     set es = events_between empty_store (svView sv w) \<Longrightarrow> all_intact (libKube lib) cl (svView sv w) \<Longrightarrow>
     tended lib r cl sv ct \<lparr>opWorld = w, opQueue = {}, opEvents = es\<rparr>"
| tended_step: "tended lib r cl sv ct st \<Longrightarrow> operator_step lib r cl sv ct mv st st' \<Longrightarrow>
     (mv = Edit \<Longrightarrow> pods_left cl (svView sv (opWorld st)) (svView sv (opWorld st'))) \<Longrightarrow> tended lib r cl sv ct st'"

lemma tended_operates: "tended lib r cl sv ct st \<Longrightarrow> operates lib r cl sv ct st"
  by (induction rule: tended.induct) (auto intro: operates.intros)

lemma tended_move: "tended lib r cl sv ct st \<Longrightarrow> operator_step lib r cl sv ct mv st st' \<Longrightarrow> mv \<noteq> Edit \<Longrightarrow> tended lib r cl sv ct st'"
  by (rule tended_step) blast+

subsection \<open>A pass writes intact StatefulSets only\<close>

definition seals_store :: "kube_lib \<Rightarrow> store \<Rightarrow> store \<Rightarrow> bool" where
  "seals_store kl S S' \<longleftrightarrow> (\<forall>k. stStatefulSets S' k = stStatefulSets S k \<or> (\<exists>x. stStatefulSets S' k = Some x \<and> intact kl x))"

definition seals :: "kube_lib \<Rightarrow> 'w server \<Rightarrow> ('w, 'a) io \<Rightarrow> bool" where
  "seals kl sv m \<longleftrightarrow> (\<forall>s. seals_store kl (svView sv (rnWorld s)) (svView sv (rnWorld (snd (m s)))))"

lemma seals_store_refl: "stStatefulSets S' = stStatefulSets S \<Longrightarrow> seals_store kl S S'"
  by (simp add: seals_store_def)

lemma seals_store_trans: "seals_store kl S S' \<Longrightarrow> seals_store kl S' S'' \<Longrightarrow> seals_store kl S S''"
  unfolding seals_store_def by metis

lemma seals_still: "still m \<Longrightarrow> seals kl sv m"
  by (simp add: seals_def still_def seals_store_refl)

lemma seals_stores: "stores sv n m \<Longrightarrow> n \<noteq> 4 \<Longrightarrow> seals kl sv m"
  unfolding seals_def stores_def by (auto intro: seals_store_refl stored_by_keeps(5))

lemma seals_bind:
  assumes "seals kl sv m" and "\<And>a. seals kl sv (f a)"
  shows "seals kl sv (bindIO m f)"
  unfolding seals_def
proof
  fix s :: "'a run"
  obtain res s1 where m: "m s = (res, s1)" by (cases "m s")
  have "seals_store kl (svView sv (rnWorld s)) (svView sv (rnWorld s1))" using assms(1) m unfolding seals_def by (metis snd_conv)
  moreover have "seals_store kl (svView sv (rnWorld s1)) (svView sv (rnWorld (snd (f a s1))))" for a
    using assms(2) unfolding seals_def by blast
  ultimately show "seals_store kl (svView sv (rnWorld s)) (svView sv (rnWorld (snd (bindIO m f s))))"
    using m seals_store_trans by (cases res) (auto simp: bindIO_def)
qed

lemma seals_parts: "seals kl sv m \<Longrightarrow> seals kl sv (wrapIO what m)" "seals kl sv m \<Longrightarrow> seals kl sv (tryIO m)"
  by (simp_all add: seals_def wrapIO_parts(2) tryIO_def split_beta)

lemma seals_cases:
  "(\<And>x. seals kl sv (f x)) \<Longrightarrow> (\<And>e. seals kl sv (h e)) \<Longrightarrow> (\<And>e. seals kl sv (k e)) \<Longrightarrow>
     seals kl sv (case r of Found x \<Rightarrow> f x | Missing e \<Rightarrow> h e | Unreadable e \<Rightarrow> k e)"
  "(\<And>x. seals kl sv (p x)) \<Longrightarrow> (\<And>y. seals kl sv (q y)) \<Longrightarrow> seals kl sv (case z of Inl x \<Rightarrow> p x | Inr y \<Rightarrow> q y)"
  "(b \<Longrightarrow> seals kl sv m) \<Longrightarrow> (\<not> b \<Longrightarrow> seals kl sv n) \<Longrightarrow> seals kl sv (if b then m else n)"
  "(\<And>a b. seals kl sv (g a b)) \<Longrightarrow> seals kl sv (case ab of (a, b) \<Rightarrow> g a b)"
  "seals kl sv y \<Longrightarrow> (\<And>x. seals kl sv (o' x)) \<Longrightarrow> seals kl sv (case v of None \<Rightarrow> y | Some x \<Rightarrow> o' x)"
  by (simp_all split: lookup.split sum.split prod.split option.split)

lemmas seals_rules = seals_bind seals_parts seals_cases

lemma seals_write:
  assumes srv: "serves cl sv" and "\<And>S. seals_store kl S (store_write x S)"
  shows "seals kl sv (write_object cl x)"
  unfolding seals_def
proof
  fix s
  show "seals_store kl (svView sv (rnWorld s)) (svView sv (rnWorld (snd (write_object cl x s))))"
    using write_effect(2) [OF srv, of x s] assms(2) by (metis prod.collapse seals_store_refl)
qed

text \<open>Both writes of a StatefulSet bring the pod spec of the desired one together with its digest.\<close>

lemma built_intact:
  assumes "BuildStatefulSet kl m opts = Inr d"
  shows "intact kl (d\<lparr>stsMeta := mt\<rparr>)" "intact kl (MergeStatefulSet c (d\<lparr>stsMeta := mt\<rparr>))"
proof -
  have digest: "fmlookup (ptAnnotations (stsTemplate d)) AnnotationPodSpecHash =
      Some (hashOf (klMarshalPodSpec kl (ptSpec (stsTemplate d))))"
    using hash_annotations(1) [OF assms] by (simp add: BuildStatefulSet_Inr(4) [OF assms])
  then show "intact kl (d\<lparr>stsMeta := mt\<rparr>)"
    by (simp add: intact_def pod_digest_def go_get_def BuildStatefulSet_Inr(2) [OF assms])
  show "intact kl (MergeStatefulSet c (d\<lparr>stsMeta := mt\<rparr>))"
    using digest BuildStatefulSet_Inr(2) [OF assms]
    by (simp add: intact_def pod_digest_def go_get_def MergeStatefulSet_def Let_def MergeLabels_lookup del: MergeStatefulSet_simps)
qed

lemma seals_stateful_set:
  assumes srv: "serves cl sv"
  shows "seals kl sv (reconcileStatefulSet r kl cl m)"
proof (cases "BuildStatefulSet kl m \<lparr>ReloaderImage = rcReloaderImage r\<rparr>")
  case (Inl e)
  then show ?thesis by (intro seals_still) (simp add: reconcileStatefulSet_def still_def liftIO_def bindIO_def)
next
  case (Inr d)
  have put: "seals_store kl S (S\<lparr>stStatefulSets := put stsMeta x (stStatefulSets S)\<rparr>)" if "intact kl x" for S x
    using that by (simp add: seals_store_def put_def)
  have w: "seals kl sv (write_object cl (CreateStatefulSet (d\<lparr>stsMeta := mt\<rparr>)))"
    "seals kl sv (write_object cl (UpdateStatefulSet (MergeStatefulSet c (d\<lparr>stsMeta := mt\<rparr>))))" for mt c
    by (rule seals_write [OF srv]; simp add: put built_intact [OF Inr])+
  have lift: "bindIO (liftIO (Inr d)) f = f d" for f :: "stateful_set \<Rightarrow> ('a, unit) io"
    by (simp add: fun_eq_iff liftIO_def bindIO_def)
  show ?thesis
    unfolding reconcileStatefulSet_def Inr lift setOwner_def ensureOwned_def Let_def
    by (intro seals_bind seals_cases w; (intro seals_still stills still_gets [OF srv])?)
qed

lemma seals_resources:
  assumes srv: "serves cl sv"
  shows "seals (libKube lib) sv (reconcileResources lib r cl m)"
proof -
  note paths = stores_paths [OF srv]
  have "seals (libKube lib) sv (reconcileAuthSecret r cl m data)" "seals (libKube lib) sv (reconcileConfigMap cl m)"
    "seals (libKube lib) sv (reconcileService cl m d)" for data d
    by (rule seals_stores [OF paths(1)] seals_stores [OF paths(2)] seals_stores [OF paths(3)]; simp)+
  moreover have "seals (libKube lib) sv (writeUserStatuses cl pass)" for pass
    unfolding writeUserStatuses_def by (rule seals_stores [OF stores_write_statuses [OF srv]]) simp
  ultimately show ?thesis
    unfolding reconcileResources_def
    by (intro seals_bind seals_stateful_set [OF srv] seals_still [OF still_render [OF srv]] seals_still [OF still_rules(1)])
qed

lemma seals_report: "serves cl sv \<Longrightarrow> seals kl sv (reportUsers cl ns b v)"
  unfolding reportUsers_def listUsers_def
  by (intro seals_bind seals_stores [OF stores_write_statuses] seals_still stills still_gets) simp_all

lemma Reconcile_seals:
  assumes srv: "serves cl sv"
  shows "seals (libKube lib) sv (Reconcile lib r cl key)"
proof -
  have status: "seals (libKube lib) sv (persistStatus cl m)" for m
    by (rule seals_stores [OF stores_status [OF srv]]) simp
  have refuse: "seals (libKube lib) sv (refusePass rt r cl m)" for rt m
    unfolding refusePass_def refuseTLSSecret_def Let_def
    by (intro seals_rules seals_report [OF srv]; (intro seals_still stills still_gets [OF srv])?)
  have tried: "seals (libKube lib) sv (bindIO (tryIO (reconcileResources lib r cl m)) (\<lambda>res. retIO (g res)))"
    and ret: "seals (libKube lib) sv (retIO x)" for m x and g :: "nat result \<Rightarrow> nat option result"
    by (intro seals_bind seals_parts seals_resources [OF srv] seals_still still_rules(1))+
  have run: "seals (libKube lib) sv (run_pass lib r cl m checked)" for m checked
    unfolding run_pass_def by (simp add: tried ret split: sum.split bool.split)
  have finish: "seals (libKube lib) sv (finish_pass cl m outcome)" for m outcome
    unfolding finish_pass_def updateStatus_served [OF srv]
    by (intro seals_rules status; (intro seals_still stills still_gets [OF srv])?) simp_all
  show ?thesis
    unfolding Reconcile_def reportUsersOfMissingBroker_def
    by (intro seals_rules seals_report [OF srv] refuse run finish; (intro seals_still stills still_gets [OF srv])?)
qed

subsection \<open>The invariant\<close>

lemma pass_intact:
  assumes srv: "serves cl sv" and own: "ownership_ok cl" and api: "rcHasAPIReader r" and ok: "store_ok (svView sv (rnWorld s))"
    and run: "Reconcile lib r cl key s = (res, s')" and all: "all_intact (libKube lib) cl (svView sv (rnWorld s))"
  shows "all_intact (libKube lib) cl (svView sv (rnWorld s'))"
  unfolding all_intact_def
proof (intro allI impI)
  let ?S = "svView sv (rnWorld s)" and ?S' = "svView sv (rnWorld s')"
  fix k x assume x: "stStatefulSets ?S' k = Some x" and o: "owned_sts cl ?S' x"
  have sp: "spared cl key ?S ?S'" by (rule Reconcile_spares [OF srv own api ok run])
  have "owned_sts cl ?S x" using o spared_broker [OF sp] unfolding owned_sts_def same_object_def by metis
  moreover have "stStatefulSets ?S' k = stStatefulSets ?S k \<or> intact (libKube lib) x"
    using Reconcile_seals [OF srv, of lib r key] run x unfolding seals_def seals_store_def by (metis option.inject snd_conv)
  ultimately show "intact (libKube lib) x" using all x unfolding all_intact_def by metis
qed

lemma tended_intact:
  assumes hyps: "serves cl sv" "ownership_ok cl" "conditions_ok cl" "pbkdf2_ok (libRuntime lib)" "rcHasAPIReader r"
    "controller_rules ct" "owner_rules cl ct"
    and "tended lib r cl sv ct st"
  shows "all_intact (libKube lib) cl (svView sv (opWorld st))"
  using assms(8)
proof induction
  case (tended_step st mv st')
  have ok: "store_ok (svView sv (opWorld st))"
    using operates_in_hand [OF hyps tended_operates [OF tended_step(1)]] by (simp add: in_hand_def Let_def cluster_ok_def)
  from tended_step(2) show ?case
  proof cases
    case (step_edit w' w ls es Q E)
    then show ?thesis using pods_left_intact tended_step(3,4) by simp
  next
    case (step_deliver ls w Q E e E')
    then show ?thesis using tended_step(4) by simp
  next
    case (step_pass key Q s res s' w w' ls es E)
    then show ?thesis using pass_intact [OF hyps(1,2,5) _ step_pass(5)] tended_step(4) ok by auto
  qed
qed simp

end
