(* ===== verification/Rest.thy ===== *)
theory Rest
  imports Tended
begin

section \<open>The operator comes to rest\<close>

text \<open>
  When nobody edits the cluster, the operator only delivers events and runs passes. Its own writes are events too
  and queue keys again; still it cannot go on for ever with passes that succeed: each of them finishes its broker
  for good, as no broker's pass reads what another's writes.
\<close>

definition settling :: "library \<Rightarrow> reconciler \<Rightarrow> 'w client \<Rightarrow> 'w server \<Rightarrow> controller_lib \<Rightarrow>
    'w operator \<Rightarrow> 'w operator \<Rightarrow> bool" where
  "settling lib r cl sv ct st st' \<longleftrightarrow> (\<exists>mv. operator_step lib r cl sv ct mv st st' \<and> mv \<noteq> Edit \<and> (\<forall>key. mv \<noteq> Failed key))"

text \<open>No user and no listener names a rendered Secret, its own broker's or another's.\<close>

definition secrets_apart :: "store \<Rightarrow> bool" where
  "secrets_apart S \<longleftrightarrow> (\<forall>k m. stBrokers S k = Some m \<longrightarrow>
     (\<forall>u \<in> set (stUsers S). (uNamespace u, credName (userCredentialsSecret (uSpec u))) \<noteq> auth_key m) \<and>
     (\<forall>k' m'. stBrokers S k' = Some m' \<longrightarrow> IsTLSEnabled m' \<longrightarrow> (mNamespace m', tls_secret m') \<noteq> auth_key m))"

subsection \<open>A pass leaves the other brokers done\<close>

lemma owned_change_keeps:
  assumes own: "owner_rules cl ct" and uids: "unique_uids S" and b: "stBrokers S key = Some m" "stBrokers S k = Some n"
    and k: "k \<noteq> key" and change: "owned_change cl (mMeta m) meta f g"
  shows "keeps_owned cl n meta f g"
  unfolding keeps_owned_def
proof (intro allI impI)
  fix i x assume x: "f i = Some x" and c: "clIsControlledBy cl (meta x) (mMeta n)"
  have "\<not> clIsControlledBy cl (meta x) (mMeta m)"
  proof
    assume "clIsControlledBy cl (meta x) (mMeta m)"
    then have "metaUID (mMeta m) = metaUID (mMeta n)" using own c unfolding owner_rules_def by fastforce
    then show False using uids b k unfolding unique_uids_def by metis
  qed
  then show "g i = Some x" using owned_changeD [OF change, of i] x by (auto simp: own_object_def)
qed

lemma pass_agrees:
  assumes own: "owner_rules cl ct" and ok: "cluster_ok S" and apart: "secrets_apart S" and sp: "spared cl key S S'" and k: "k \<noteq> key"
  shows "agrees cl k S S'"
proof -
  note d = sparedD [OF sp]
  have uids: "unique_uids S" using ok by (simp add: cluster_ok_def)
  have users: "filter (bound_to k) (stUsers S') = filter (bound_to k) (stUsers S)"
  proof -
    obtain \<phi> where \<phi>: "\<And>u. uMeta (\<phi> u) = uMeta u" "\<And>u. uSpec (\<phi> u) = uSpec u" "stUsers S' = map \<phi> (stUsers S)"
      "\<And>u. u \<in> set (stUsers S) \<Longrightarrow> \<not> bound_to key u \<Longrightarrow> \<phi> u = u"
      using users_sparedE [OF d(4)] by blast
    have bound: "bound_to k \<circ> \<phi> = bound_to k" using \<phi>(1,2) by (simp add: fun_eq_iff bound_to_def uNamespace_def)
    have "map \<phi> (filter (bound_to k) (stUsers S)) = filter (bound_to k) (stUsers S)"
    proof (rule map_idI)
      fix u assume u: "u \<in> set (filter (bound_to k) (stUsers S))"
      then have "\<not> bound_to key u" using k by (auto simp: bound_enqueue)
      then show "\<phi> u = u" using \<phi>(4) u by simp
    qed
    then show ?thesis by (simp add: \<phi>(3) filter_map bound)
  qed
  have "(\<forall>u \<in> set (bound_users n S). stSecrets S' (uNamespace u, credName (userCredentialsSecret (uSpec u))) =
          stSecrets S (uNamespace u, credName (userCredentialsSecret (uSpec u)))) \<and>
       (IsTLSEnabled n \<longrightarrow> stSecrets S' (mNamespace n, tls_secret n) = stSecrets S (mNamespace n, tls_secret n)) \<and>
       keeps_owned cl n secMeta (stSecrets S) (stSecrets S') \<and>
       keeps_owned cl n cmMeta (stConfigMaps S) (stConfigMaps S') \<and>
       keeps_owned cl n svcMeta (stServices S) (stServices S') \<and>
       keeps_owned cl n stsMeta (stStatefulSets S) (stStatefulSets S')" if n: "stBrokers S k = Some n" for n
  proof (cases "stBrokers S key")
    case None
    then show ?thesis using d(6) by (simp add: keeps_owned_def)
  next
    case (Some m)
    note change = d(5) [OF Some, unfolded owned_changes_def]
    have other: "stSecrets S' i = stSecrets S i" if "i \<noteq> auth_key m" for i
      using change that other_secretsD by metis
    have "stSecrets S' (uNamespace u, credName (userCredentialsSecret (uSpec u))) =
        stSecrets S (uNamespace u, credName (userCredentialsSecret (uSpec u)))" if "u \<in> set (stUsers S)" for u
      using apart Some that unfolding secrets_apart_def by (intro other) blast
    moreover have "stSecrets S' (mNamespace n, tls_secret n) = stSecrets S (mNamespace n, tls_secret n)" if "IsTLSEnabled n"
      using apart Some n that unfolding secrets_apart_def by (intro other) blast
    moreover note keeps = owned_change_keeps [OF own uids Some n k]
    ultimately show ?thesis using change by (auto intro: keeps)
  qed
  then show ?thesis unfolding agrees_def using d(2) [OF k] users by blast
qed

lemma spared_apart:
  assumes apart: "secrets_apart S" and sp: "spared cl key S S'"
  shows "secrets_apart S'"
  unfolding secrets_apart_def
proof (intro allI impI conjI ballI)
  note d = sparedD [OF sp]
  fix k m' assume m': "stBrokers S' k = Some m'"
  obtain m where m: "stBrokers S k = Some m" "same_object m m'" using spared_broker [OF sp m'] by blast
  obtain \<phi> where \<phi>: "\<And>u. uMeta (\<phi> u) = uMeta u" "\<And>u. uSpec (\<phi> u) = uSpec u" "stUsers S' = map \<phi> (stUsers S)"
    using users_sparedE [OF d(4)] by metis
  have key: "auth_key m' = auth_key m" using same_objectD(1) [OF m(2)] by (simp add: AuthSecretName_def)
  show "(uNamespace u, credName (userCredentialsSecret (uSpec u))) \<noteq> auth_key m'" if u: "u \<in> set (stUsers S')" for u
  proof -
    obtain v where v: "v \<in> set (stUsers S)" "u = \<phi> v" using u \<phi>(3) by auto
    have "(uNamespace v, credName (userCredentialsSecret (uSpec v))) \<noteq> auth_key m"
      using apart m(1) v(1) unfolding secrets_apart_def by blast
    then show ?thesis unfolding key by (simp add: v(2) \<phi>(1,2) uNamespace_def)
  qed
  fix k2 n' assume n': "stBrokers S' k2 = Some n'" and tls: "IsTLSEnabled n'"
  obtain n where n: "stBrokers S k2 = Some n" "same_object n n'" using spared_broker [OF sp n'] by blast
  have "IsTLSEnabled n" "mNamespace n' = mNamespace n" "tls_secret n' = tls_secret n"
    using tls same_objectD [OF n(2)] by (simp_all add: IsTLSEnabled_def tls_secret_def)
  then show "(mNamespace n', tls_secret n') \<noteq> auth_key m'"
    using apart m(1) n(1) unfolding key secrets_apart_def by metis
qed

subsection \<open>A pass has finitely many events, and the indexes follow it\<close>

lemma finite_events_of:
  assumes "finite (changed_keys f g)"
  shows "finite {h e | e k. event_of (f k) (g k) = Some e}"
proof (rule finite_subset)
  show "{h e | e k. event_of (f k) (g k) = Some e} \<subseteq> (\<lambda>k. h (the (event_of (f k) (g k)))) ` changed_keys f g"
  proof
    fix x assume "x \<in> {h e | e k. event_of (f k) (g k) = Some e}"
    then obtain e k where e: "x = h e" "event_of (f k) (g k) = Some e" by blast
    then have "k \<in> changed_keys f g" using event_of_None [of "f k" "g k"] by auto
    then show "x \<in> (\<lambda>k. h (the (event_of (f k) (g k)))) ` changed_keys f g"
      using e by (intro image_eqI [of _ _ k]) simp_all
  qed
qed (simp add: assms)

lemma finite_user_changes: "finite (changed_keys (user_at S) (user_at S'))"
proof (rule finite_subset)
  show "changed_keys (user_at S) (user_at S') \<subseteq> keys_of (stUsers S) \<union> keys_of (stUsers S')"
  proof
    fix k assume k: "k \<in> changed_keys (user_at S) (user_at S')"
    have "user_at T k = None" if "k \<notin> keys_of (stUsers T)" for T
      using that by (auto simp: user_at_def find_None_iff keys_of_def)
    then show "k \<in> keys_of (stUsers S) \<union> keys_of (stUsers S')" using k by (metis Un_iff changed_keys_simps(2))
  qed
qed (simp add: keys_of_def)

lemma events_finite:
  assumes "finite (changed_keys (stBrokers S) (stBrokers S'))" and "finite (changed_keys (stSecrets S) (stSecrets S'))"
    and "finite (changed_keys (stConfigMaps S) (stConfigMaps S'))" and "finite (changed_keys (stServices S) (stServices S'))"
    and "finite (changed_keys (stStatefulSets S) (stStatefulSets S'))"
  shows "finite (events_between S S')"
  unfolding events_between_def owned_events_def
  by (intro finite_UnI finite_events_of assms finite_user_changes)

lemma spared_events_finite:
  assumes sp: "spared cl key S S'"
  shows "finite (events_between S S')"
proof -
  note d = sparedD [OF sp]
  have "changed_keys (stBrokers S) (stBrokers S') \<subseteq> {key}" using d(2) by (auto simp: changed_keys_def)
  then have brokers: "finite (changed_keys (stBrokers S) (stBrokers S'))" by (rule finite_subset) simp
  have owned: "finite (changed_keys (stSecrets S) (stSecrets S'))" "finite (changed_keys (stConfigMaps S) (stConfigMaps S'))"
    "finite (changed_keys (stServices S) (stServices S'))" "finite (changed_keys (stStatefulSets S) (stStatefulSets S'))"
    using d(5,6) by (cases "stBrokers S key"; simp add: owned_changes_def owned_change_def)+
  show ?thesis by (intro events_finite brokers owned)
qed

lemma indexes_exist: "finite (ran (stBrokers S)) \<longleftrightarrow> (\<exists>ls. indexes ls S)"
proof
  assume "finite (ran (stBrokers S))"
  then obtain bs where bs: "set bs = ran (stBrokers S)" using finite_list by blast
  have "index_ok \<lparr>lsUsersBySecret = \<lambda>ns name. Inr (filter (\<lambda>u. metaNamespace (uMeta u) = ns \<and> name \<in> set (indexUserSecret u)) (stUsers S)),
      lsBrokersByTLS = \<lambda>ns name. Inr (filter (\<lambda>m. mNamespace m = ns \<and> name \<in> set (indexTLSSecret m)) bs)\<rparr> (stUsers S) bs"
    by (simp add: index_ok_def)
  then show "\<exists>ls. indexes ls S" using bs unfolding indexes_def by blast
next
  assume "\<exists>ls. indexes ls S"
  then obtain bs where "set bs = ran (stBrokers S)" unfolding indexes_def by blast
  then show "finite (ran (stBrokers S))" using finite_set [of bs] by simp
qed

lemma spared_indexes:
  assumes "spared cl key S S'" and "\<exists>ls. indexes ls S"
  shows "\<exists>ls. indexes ls S'"
proof -
  have "ran (stBrokers S') \<subseteq> ran (stBrokers S) \<union> set_option (stBrokers S' key)"
    using sparedD(2) [OF assms(1)] unfolding ran_def by fastforce
  moreover have "finite (ran (stBrokers S) \<union> set_option (stBrokers S' key))" using assms(2) indexes_exist by simp
  ultimately show ?thesis unfolding indexes_exist [symmetric] by (rule finite_subset)
qed

subsection \<open>Every settling step makes progress\<close>

definition undone :: "library \<Rightarrow> reconciler \<Rightarrow> 'w client \<Rightarrow> 'w server \<Rightarrow> 'w operator \<Rightarrow> nsname set" where
  "undone lib r cl sv st = {key. \<not> pass_done lib r cl sv key (svView sv (opWorld st))}"

lemma operates_finite: "operates lib r cl sv ct st \<Longrightarrow> finite (opQueue st)"
proof (induction rule: operates.induct)
  case (operates_step st mv st')
  from operates_step(2,3) show ?case by cases simp_all
qed simp

lemma undone_finite:
  assumes ct: "controller_rules ct" and hand: "in_hand lib r cl sv ct st" and fin: "finite (opQueue st)"
  shows "finite (undone lib r cl sv st)"
proof -
  let ?S = "svView sv (opWorld st)"
  obtain ls where ls: "indexes ls ?S" using hand unfolding in_hand_def Let_def by blast
  have sok: "store_ok ?S" using hand by (simp add: in_hand_def Let_def cluster_ok_def)
  have "undone lib r cl sv st \<subseteq> opQueue st \<union> (\<Union>e \<in> set (opEvents st). set (woken ct ls e))"
  proof
    fix key assume "key \<in> undone lib r cl sv st"
    then have "awaited ct ?S (opQueue st) (opEvents st) key"
      using hand unfolding in_hand_def Let_def undone_def by blast
    then show "key \<in> opQueue st \<union> (\<Union>e \<in> set (opEvents st). set (woken ct ls e))"
      using woken_agrees [OF ct sok sok _ ls agrees_refl] unfolding awaited_def by blast
  qed
  then show ?thesis by (rule finite_subset) (simp add: fin)
qed

definition settling_order :: "library \<Rightarrow> reconciler \<Rightarrow> 'w client \<Rightarrow> 'w server \<Rightarrow> ('w operator \<times> 'w operator) set" where
  "settling_order lib r cl sv =
     measures [\<lambda>st. card (undone lib r cl sv st), \<lambda>st. length (opEvents st), \<lambda>st. card (opQueue st)]"

lemma events_between_same [simp]: "events_between S S = {}"
  by (auto simp: events_between_def owned_events_def event_of_def split: option.splits)

text \<open>A settling step, as a delivery or a pass that succeeded.\<close>

lemma settling_cases:
  assumes "settling lib r cl sv ct st st'"
  obtains (deliver) ls w Q E e E' where "st = \<lparr>opWorld = w, opQueue = Q, opEvents = E @ e # E'\<rparr>"
      "st' = \<lparr>opWorld = w, opQueue = Q \<union> set (woken ct ls e), opEvents = E @ E'\<rparr>"
    | (pass) key Q s s' E es where "key \<in> Q" "Reconcile lib r cl key s = (Inr (), s')"
      "st = \<lparr>opWorld = rnWorld s, opQueue = Q, opEvents = E\<rparr>"
      "st' = \<lparr>opWorld = rnWorld s', opQueue = Q - {key}, opEvents = E @ es\<rparr>"
      "set es = events_between (svView sv (rnWorld s)) (svView sv (rnWorld s'))"
proof -
  obtain mv where mv: "operator_step lib r cl sv ct mv st st'" "mv \<noteq> Edit" "\<And>key. mv \<noteq> Failed key"
    using assms unfolding settling_def by blast
  from mv(1) show thesis
  proof cases
    case (step_edit w' w ls es Q E)
    then show thesis using mv(2) by simp
  next
    case (step_deliver ls w Q E e E')
    then show thesis using deliver by blast
  next
    case (step_pass key Q s res s' w w' ls es E)
    then have "res = Inr ()" using mv(3) [of key] by (cases res) (simp_all split: if_splits)
    then show thesis using pass [of key Q s s' E es] step_pass by simp
  qed
qed

lemma settling_progress:
  assumes hyps: "serves cl sv" "ownership_ok cl" "conditions_ok cl" "condition_kept cl" "pbkdf2_ok (libRuntime lib)"
      "rcHasAPIReader r" "controller_rules ct" "owner_rules cl ct"
    and hand: "in_hand lib r cl sv ct st" and fin: "finite (opQueue st)"
    and apart: "secrets_apart (svView sv (opWorld st))" and step: "settling lib r cl sv ct st st'"
  shows "(st', st) \<in> settling_order lib r cl sv" and "secrets_apart (svView sv (opWorld st'))"
proof -
  have ok: "cluster_ok (svView sv (opWorld st))" using hand by (simp add: in_hand_def Let_def)
  have fu: "finite (undone lib r cl sv st)" by (rule undone_finite [OF hyps(7) hand fin])
  from step have "(st', st) \<in> settling_order lib r cl sv \<and> secrets_apart (svView sv (opWorld st'))"
  proof (cases rule: settling_cases)
    case (deliver ls w Q E e E')
    then show ?thesis using apart by (simp add: settling_order_def undone_def)
  next
    case (pass key Q s s' E es)
    let ?S = "svView sv (rnWorld s)" and ?S' = "svView sv (rnWorld s')"
    have sok: "store_ok ?S" using ok pass(3) by (simp add: cluster_ok_def)
    have sp: "spared cl key ?S ?S'" by (rule Reconcile_spares [OF hyps(1,2,6) sok pass(2)])
    have apart': "secrets_apart ?S'" by (rule spared_apart [OF _ sp]) (use apart pass(3) in simp)
    show ?thesis
    proof (cases "key \<in> undone lib r cl sv st")
      case True
      have new: "pass_done lib r cl sv key ?S'"
        by (rule pass_leaves_done [OF hyps(1,2,3,5,6) sok _ pass(2)])
          (use ok pass(3) in \<open>simp add: cluster_ok_def secrets_unnamed_def\<close>)
      have "pass_done lib r cl sv k ?S'" if "k \<noteq> key" "pass_done lib r cl sv k ?S" for k
        by (rule pass_done_agrees [OF sok pass_agrees [OF hyps(8) _ _ sp that(1)] that(2)]) (use ok apart pass(3) in simp_all)
      then have "pass_done lib r cl sv k ?S'" if "pass_done lib r cl sv k ?S" for k
        using new that by (cases "k = key") simp_all
      then have "key \<notin> undone lib r cl sv st'" "undone lib r cl sv st' \<subseteq> undone lib r cl sv st"
        using new by (auto simp: undone_def pass(3,4))
      then have "undone lib r cl sv st' \<subset> undone lib r cl sv st" using True by blast
      then have "card (undone lib r cl sv st') < card (undone lib r cl sv st)" by (rule psubset_card_mono [OF fu])
      then show ?thesis using apart' pass(4) by (simp add: settling_order_def)
    next
      case False
      then have "quiet (Reconcile lib r cl key) (rnWorld s) ()"
        using pass_done_quiet [OF hyps(1,2,4,6) sok] pass(3) by (simp add: undone_def)
      then have w: "rnWorld s' = rnWorld s" using pass(2) unfolding quiet_def by force
      then have "es = []" using pass(5) by simp
      moreover have "card (Q - {key}) < card Q" using pass(1,3) fin by (intro card_Diff1_less) simp_all
      ultimately show ?thesis using apart' w pass(3,4) by (simp add: settling_order_def undone_def)
    qed
  qed
  then show "(st', st) \<in> settling_order lib r cl sv" and "secrets_apart (svView sv (opWorld st'))" by blast+
qed

lemma settling_operates: "operates lib r cl sv ct st \<Longrightarrow> settling lib r cl sv ct st st' \<Longrightarrow> operates lib r cl sv ct st'"
  unfolding settling_def by (blast intro: operates_step)

text \<open>The states of a run without edits.\<close>

lemma settles_fit:
  assumes hyps: "serves cl sv" "ownership_ok cl" "conditions_ok cl" "condition_kept cl" "pbkdf2_ok (libRuntime lib)"
      "rcHasAPIReader r" "controller_rules ct" "owner_rules cl ct"
    and st: "operates lib r cl sv ct st" "secrets_apart (svView sv (opWorld st))"
    and run: "(settling lib r cl sv ct)\<^sup>*\<^sup>* st st'"
  shows "operates lib r cl sv ct st' \<and> secrets_apart (svView sv (opWorld st'))"
  using run
proof induction
  case (step y z)
  then have y: "operates lib r cl sv ct y" "secrets_apart (svView sv (opWorld y))" by simp_all
  show ?case
    using settling_operates [OF y(1) step.hyps(2)]
      settling_progress(2) [OF hyps operates_in_hand [OF hyps(1-3,5-8) y(1)] operates_finite [OF y(1)] y(2) step.hyps(2)]
    by blast
qed (use st in blast)

text \<open>A pass that succeeds is a step.\<close>

lemma pass_made:
  assumes hyps: "serves cl sv" "ownership_ok cl" "rcHasAPIReader r"
    and hand: "in_hand lib r cl sv ct \<lparr>opWorld = w, opQueue = Q, opEvents = E\<rparr>"
    and key: "key \<in> Q" and s: "rnWorld s = w" and run: "Reconcile lib r cl key s = (Inr (), s')"
  shows "\<exists>es. operator_step lib r cl sv ct (Passed key) \<lparr>opWorld = w, opQueue = Q, opEvents = E\<rparr>
    \<lparr>opWorld = rnWorld s', opQueue = Q - {key}, opEvents = E @ es\<rparr> \<and>
    set es = events_between (svView sv w) (svView sv (rnWorld s'))"
proof -
  have ok: "store_ok (svView sv (rnWorld s))" and ix: "\<exists>ls. indexes ls (svView sv w)"
    using hand s by (simp_all add: in_hand_def Let_def cluster_ok_def)
  have sp: "spared cl key (svView sv w) (svView sv (rnWorld s'))" using Reconcile_spares [OF hyps ok run] s by simp
  obtain ls where ls: "indexes ls (svView sv (rnWorld s'))" using spared_indexes [OF sp ix] by blast
  obtain es where es: "set es = events_between (svView sv w) (svView sv (rnWorld s'))"
    using finite_list [OF spared_events_finite [OF sp]] by blast
  show ?thesis using step_pass [OF key run s refl ls es] es by (intro exI [of _ es]) simp
qed

text \<open>C8: the operator comes to rest. From any state it can be in, when nobody edits the cluster any more, it cannot
  deliver events and run passes that succeed for ever, though its own writes are events that wake it; and
  when it can do neither, no event is left, every broker that is not queued needs nothing, and no
  pass over a queued one can succeed. This holds unless a user or a listener names a rendered Secret.\<close>

theorem comes_to_rest:
  assumes hyps: "serves cl sv" "ownership_ok cl" "conditions_ok cl" "condition_kept cl" "pbkdf2_ok (libRuntime lib)"
      "rcHasAPIReader r" "controller_rules ct" "owner_rules cl ct"
    and st: "operates lib r cl sv ct st" "secrets_apart (svView sv (opWorld st))"
  shows "(\<nexists>f. f 0 = st \<and> (\<forall>i. settling lib r cl sv ct (f i) (f (Suc i)))) \<and>
    (\<forall>st'. (settling lib r cl sv ct)\<^sup>*\<^sup>* st st' \<longrightarrow> (\<nexists>st''. settling lib r cl sv ct st' st'') \<longrightarrow>
      opEvents st' = [] \<and>
      (\<forall>key. key \<notin> opQueue st' \<longrightarrow> quiet (Reconcile lib r cl key) (opWorld st') ()) \<and>
      (\<forall>key \<in> opQueue st'. \<forall>s. rnWorld s = opWorld st' \<longrightarrow> \<not> succeeds (Reconcile lib r cl key) s))"
proof (intro conjI allI impI ballI)
  show "\<nexists>f. f 0 = st \<and> (\<forall>i. settling lib r cl sv ct (f i) (f (Suc i)))"
  proof
  assume "\<exists>f. f 0 = st \<and> (\<forall>i. settling lib r cl sv ct (f i) (f (Suc i)))"
  then obtain f where f: "f 0 = st" "\<And>i. settling lib r cl sv ct (f i) (f (Suc i))" by blast
  have "(settling lib r cl sv ct)\<^sup>*\<^sup>* st (f i)" for i
    by (induction i) (use f in \<open>auto intro: rtranclp.rtrancl_into_rtrancl\<close>)
  note fit = settles_fit [OF hyps st this]
  have "(f (Suc i), f i) \<in> settling_order lib r cl sv" for i
    by (rule settling_progress(1) [OF hyps operates_in_hand [OF hyps(1-3,5-8)] operates_finite _ f(2)]) (use fit in blast)+
  moreover have "wf (settling_order lib r cl sv)" by (simp add: settling_order_def)
  ultimately show False unfolding wf_iff_no_infinite_down_chain by blast
  qed
next
  fix st' assume run: "(settling lib r cl sv ct)\<^sup>*\<^sup>* st st'" and stuck: "\<nexists>st''. settling lib r cl sv ct st' st''"
  note fit = settles_fit [OF hyps st run]
  have hand: "in_hand lib r cl sv ct st'" using operates_in_hand [OF hyps(1-3,5-8)] fit by blast
  obtain ls where ls: "indexes ls (svView sv (opWorld st'))" using hand unfolding in_hand_def Let_def by blast
  obtain w Q E where st': "st' = \<lparr>opWorld = w, opQueue = Q, opEvents = E\<rparr>" by (cases st')
  show none: "opEvents st' = []"
  proof (cases E)
    case (Cons e E')
    then show ?thesis
      using stuck step_deliver [of ls sv w lib r cl ct Q "[]" e E'] ls unfolding st' settling_def by force
  qed (simp add: st')
  show "quiet (Reconcile lib r cl key) (opWorld st') ()" if "key \<notin> opQueue st'" for key
    using hand that none unfolding in_hand_def Let_def awaited_def cluster_ok_def
    by (intro pass_done_quiet [OF hyps(1,2,4,6)]) simp_all
  show "\<not> succeeds (Reconcile lib r cl key) s" if "key \<in> opQueue st'" "rnWorld s = opWorld st'" for key s
  proof
    assume "succeeds (Reconcile lib r cl key) s"
    then obtain s' where "Reconcile lib r cl key s = (Inr (), s')" unfolding succeeds_def by auto
    from pass_made [OF hyps(1,2,6) hand [unfolded st'] _ _ this] that
    show False using stuck unfolding st' settling_def by fastforce
  qed
qed

subsection \<open>A concrete cluster\<close>

definition watching_controller :: controller_lib where
  "watching_controller = sample_controller\<lparr>ctRequestForOwner := (\<lambda>e. case e of
     OwnedEvent t x \<Rightarrow> concat (map (\<lambda>mt. case controller_ref mt of
         None \<Rightarrow> []
       | Some ref \<Rightarrow> if refKind ref = ''Mosquitto'' then [(metaNamespace mt, refName ref)] else []) (event_objects x))
   | _ \<Rightarrow> [])\<rparr>"

lemma watching_rules: "controller_rules watching_controller" "owner_rules store_client watching_controller"
proof -
  show "controller_rules watching_controller"
    using sample_controller_rules by (simp add: controller_rules_def watching_controller_def)
  have "(metaNamespace mt, refName ref) \<in> set (ctRequestForOwner watching_controller (OwnedEvent t e))"
    if "mt \<in> set (event_objects e)" "controller_ref mt = Some ref" "refKind ref = ''Mosquitto''" for t e mt ref
    using that by (auto simp: watching_controller_def intro!: bexI [of _ mt])
  then show "owner_rules store_client watching_controller"
    by (auto simp: owner_rules_def controller_ref_def store_client_def sample_client_def split: option.splits)
qed

lemma sample_cluster: "cluster_ok sample_store" "secrets_apart sample_store" "\<exists>ls. indexes ls sample_store"
  "finite (events_between empty_store sample_store)"
proof -
  note [simp] = sample_store_def sample_broker_def sample_user_def sample_secret_def cert_secret_def empty_meta_def
  have ok: "store_ok sample_store" using sample_store_ok by (simp only: store_server_def store_run_def server.simps run.simps)
  have un: "secrets_unnamed sample_store"
    unfolding secrets_unnamed_def by (auto simp: auth_secret_unnamed_def AuthSecretName_def tls_secret_def split: if_splits)
  have named: "owners_named sample_store"
    by (auto simp: owners_named_def owned_metas_def controller_ref_def ran_def split: if_splits)
  show "cluster_ok sample_store"
    using ok un named by (simp only: cluster_ok_def) (auto simp: unique_uids_def split: if_splits)
  show "secrets_apart sample_store"
    by (auto simp: secrets_apart_def AuthSecretName_def uNamespace_def tls_secret_def split: if_splits)
  show "\<exists>ls. indexes ls sample_store" unfolding indexes_exist [symmetric] by simp
  show "finite (events_between empty_store sample_store)"
    by (intro events_finite) (simp_all add: empty_store_def finite_changed_trans [OF finite_changed_upd finite_changed_upd]
        finite_changed_upd)
qed

text \<open>Every event on its way can be delivered.\<close>

lemma deliver_all:
  assumes "tended lib r cl sv ct \<lparr>opWorld = w, opQueue = Q, opEvents = E\<rparr>" and "indexes ls (svView sv w)"
  shows "\<exists>Q'. tended lib r cl sv ct \<lparr>opWorld = w, opQueue = Q', opEvents = []\<rparr> \<and> Q \<subseteq> Q' \<and>
    (\<forall>e \<in> set E. set (woken ct ls e) \<subseteq> Q')"
  using assms(1)
proof (induction E arbitrary: Q)
  case (Cons e E)
  have "tended lib r cl sv ct \<lparr>opWorld = w, opQueue = Q \<union> set (woken ct ls e), opEvents = E\<rparr>"
    using tended_move [OF Cons.prems step_deliver [of ls sv w lib r cl ct Q "[]" e E, simplified]] assms(2) by simp
  from Cons.IH [OF this] show ?case by auto
qed auto

text \<open>
  The operator starts over the sample cluster, delivers every event, passes over the broker, delivers the events of
  its own writes, and, if these woke it, passes once more.
\<close>

lemma sample_start:
  "\<exists>es. tended lib r store_client store_server ct \<lparr>opWorld = sample_store, opQueue = {}, opEvents = es\<rparr> \<and>
     set es = events_between empty_store sample_store"
proof -
  have view: "svView store_server S = S" for S by (simp add: store_server_def)
  obtain ls where ls: "indexes ls (svView store_server sample_store)"
    using sample_cluster(3) by (auto simp: view)
  obtain es where es: "set es = events_between empty_store (svView store_server sample_store)"
    using finite_list [OF sample_cluster(4)] by (auto simp: store_server_def)
  have "cluster_ok (svView store_server sample_store)" using sample_cluster(1) by (simp add: store_server_def)
  moreover have "all_intact (libKube lib) store_client (svView store_server sample_store)"
    by (simp add: all_intact_def store_server_def) (simp add: sample_store_def)
  ultimately have "tended lib r store_client store_server ct \<lparr>opWorld = sample_store, opQueue = {}, opEvents = es\<rparr>"
    by (rule tended_start [OF _ ls es])
  then show ?thesis using es unfolding view by blast
qed

lemmas sample_hyps = store_client_ok(1,2) store_client_conditions store_client_ok(4) sample_library_ok(1,3) watching_rules

text \<open>The operator over the sample, after a first pass and with all its events delivered.\<close>

lemma sample_first_pass:
  obtains s' Q where "Reconcile sample_library (sample_reconciler []) store_client (''ns'', ''mq'') store_run = (Inr (), s')"
    "tended sample_library (sample_reconciler []) store_client store_server watching_controller
       \<lparr>opWorld = rnWorld s', opQueue = Q, opEvents = []\<rparr>"
    "spared store_client (''ns'', ''mq'') sample_store (rnWorld s')"
proof -
  let ?op = "tended sample_library (sample_reconciler []) store_client store_server watching_controller"
  let ?key = "(''ns'', ''mq'')"
  have view: "svView store_server S = S" for S by (simp add: store_server_def)
  note hand = operates_in_hand [OF sample_hyps(1-3,5-8) tended_operates]
  obtain es where es: "?op \<lparr>opWorld = sample_store, opQueue = {}, opEvents = es\<rparr>" "set es = events_between empty_store sample_store"
    using sample_start by blast
  obtain ls where ls: "indexes ls (svView store_server sample_store)" using sample_cluster(3) by (auto simp: view)
  obtain Q where Q: "?op \<lparr>opWorld = sample_store, opQueue = Q, opEvents = []\<rparr>"
    "\<forall>e \<in> set es. set (woken watching_controller ls e) \<subseteq> Q"
    using deliver_all [OF es(1) ls] by blast
  have "MosquittoEvent (Created sample_broker) \<in> set es"
    unfolding es(2) events_between_def by (auto simp: empty_store_def sample_store_def intro!: exI [of _ ?key])
  moreover have "?key \<in> set (woken watching_controller ls (MosquittoEvent (Created sample_broker)))"
    using watching_rules(1) sample_keys(1) unfolding woken_cases by (simp add: controller_rules_def)
  ultimately have key: "?key \<in> Q" using Q(2) by blast
  obtain s' where run: "Reconcile sample_library (sample_reconciler []) store_client ?key store_run = (Inr (), s')"
    using Reconcile_succeeds [OF store_client_ok(1-3) store_client_conditions sample_library_ok(3,2,1) sample_store_ok]
      sample_unnamed sample_unobstructed by blast
  obtain es' where op: "?op \<lparr>opWorld = rnWorld s', opQueue = Q - {?key}, opEvents = [] @ es'\<rparr>"
    using pass_made [OF sample_hyps(1,2,6) hand [OF Q(1)] key _ run] tended_move [OF Q(1)] by (auto simp: store_run_def)
  obtain ls' where ls': "indexes ls' (svView store_server (rnWorld s'))" using hand [OF op] by (auto simp: in_hand_def Let_def)
  obtain Q' where Q': "?op \<lparr>opWorld = rnWorld s', opQueue = Q', opEvents = []\<rparr>"
    using deliver_all [OF op ls'] by blast
  have b: "spared store_client ?key sample_store (rnWorld s')"
    using Reconcile_spares [OF store_client_ok(1,2) sample_library_ok(3) sample_store_ok run] by (simp add: view store_run_def)
  show thesis by (rule that [OF run Q' b])
qed

lemma sample_operated:
  "\<exists>st. tended sample_library (sample_reconciler []) store_client store_server watching_controller st \<and>
     spared store_client (''ns'', ''mq'') sample_store (opWorld st) \<and>
     \<not> awaited watching_controller (opWorld st) (opQueue st) (opEvents st) (''ns'', ''mq'')"
proof -
  let ?op = "tended sample_library (sample_reconciler []) store_client store_server watching_controller"
  let ?key = "(''ns'', ''mq'')"
  note hand = operates_in_hand [OF sample_hyps(1-3,5-8) tended_operates]
  obtain s' Q' where run: "Reconcile sample_library (sample_reconciler []) store_client ?key store_run = (Inr (), s')"
    and Q': "?op \<lparr>opWorld = rnWorld s', opQueue = Q', opEvents = []\<rparr>" and b: "spared store_client ?key sample_store (rnWorld s')"
    by (rule sample_first_pass)
  show ?thesis
  proof (cases "?key \<in> Q'")
    case False
    then show ?thesis using Q' b by (intro exI [of _ "\<lparr>opWorld = rnWorld s', opQueue = Q', opEvents = []\<rparr>"]) (simp add: awaited_def)
  next
    case True
    have "quiet (Reconcile sample_library (sample_reconciler []) store_client ?key) (rnWorld s') ()"
      by (rule Reconcile_again [OF store_client_ok(1,2) store_client_conditions store_client_ok(4) sample_library_ok(1,3)
          sample_store_ok sample_unnamed run])
    then obtain t where t: "Reconcile sample_library (sample_reconciler []) store_client ?key s' = (Inr (), t)"
      "rnWorld t = rnWorld s'" unfolding quiet_def by force
    have "?op \<lparr>opWorld = rnWorld s', opQueue = Q' - {?key}, opEvents = []\<rparr>"
      using pass_made [OF sample_hyps(1,2,6) hand [OF Q'] True refl t(1)] tended_move [OF Q'] t(2) by auto
    then show ?thesis
      using b by (intro exI [of _ "\<lparr>opWorld = rnWorld s', opQueue = Q' - {?key}, opEvents = []\<rparr>"]) (simp add: awaited_def)
  qed
qed

theorem no_change_is_missed_witness:
  "\<exists>st. operates sample_library (sample_reconciler []) store_client store_server watching_controller st \<and>
     \<not> awaited watching_controller (opWorld st) (opQueue st) (opEvents st) (''ns'', ''mq'') \<and>
     stBrokers (opWorld st) (''ns'', ''mq'') \<noteq> None \<and>
     quiet (Reconcile sample_library (sample_reconciler []) store_client (''ns'', ''mq'')) (opWorld st) ()"
proof -
  obtain st where st: "tended sample_library (sample_reconciler []) store_client store_server watching_controller st"
    "spared store_client (''ns'', ''mq'') sample_store (opWorld st)"
    "\<not> awaited watching_controller (opWorld st) (opQueue st) (opEvents st) (''ns'', ''mq'')"
    using sample_operated by blast
  have "quiet (Reconcile sample_library (sample_reconciler []) store_client (''ns'', ''mq'')) (opWorld st) ()"
    by (rule no_change_is_missed [OF sample_hyps tended_operates [OF st(1)]]) (use st(3) in \<open>simp add: store_server_def\<close>)
  moreover have "stBrokers (opWorld st) (''ns'', ''mq'') \<noteq> None"
    using sparedD(3) [OF st(2), of "(''ns'', ''mq'')"] by (auto simp: sample_store_def option_rel_Some1)
  ultimately show ?thesis using st tended_operates [OF st(1)] by blast
qed

theorem comes_to_rest_witness:
  "\<exists>st. opWorld st = sample_store \<and> set (opEvents st) = events_between empty_store sample_store \<and>
     (\<nexists>f. f 0 = st \<and> (\<forall>i. settling sample_library (sample_reconciler []) store_client store_server
       watching_controller (f i) (f (Suc i))))"
proof -
  obtain es where es: "tended sample_library (sample_reconciler []) store_client store_server watching_controller
      \<lparr>opWorld = sample_store, opQueue = {}, opEvents = es\<rparr>" "set es = events_between empty_store sample_store"
    using sample_start by blast
  have apart: "secrets_apart (svView store_server (opWorld \<lparr>opWorld = sample_store, opQueue = {}, opEvents = es\<rparr>))"
    using sample_cluster(2) by (simp add: store_server_def)
  show ?thesis
    using es(2) conjunct1 [OF comes_to_rest [OF sample_hyps tended_operates [OF es(1)] apart]]
    by (intro exI [of _ "\<lparr>opWorld = sample_store, opQueue = {}, opEvents = es\<rparr>"]) simp
qed

end
