(* ===== verification/Rendered.thy ===== *)
theory Rendered
  imports Done
begin

section \<open>What a finished pass has rendered\<close>

text \<open>
  The rendering of a finished pass, user by user: a user is reported ready exactly when the renderer accepted its
  input, and then the rendered data holds its login.
\<close>

definition condition_true :: "string \<Rightarrow> condition list \<Rightarrow> bool" where
  "condition_true t cs \<longleftrightarrow> (case find_condition t cs of None \<Rightarrow> False | Some c \<Rightarrow> condStatus c = ConditionTrue)"

definition is_ready :: "mosquitto_user \<Rightarrow> bool" where
  "is_ready u \<longleftrightarrow> condition_true ConditionTypeReady (ustatConditions (uStatus u))"

subsection \<open>The inputs of a rendering\<close>

lemma credentials_at_Inl: "credentials_at rt r sv S u = Inl v \<Longrightarrow> \<not> vAccepted v"
  by (auto simp: credentials_at_def credentials_of_def secret_not_found_def refusal_def split: option.splits if_splits)

lemma credentials_at_Inr:
  assumes "credentials_at rt r sv S u = Inr i"
  obtains sec where "stSecrets S (uNamespace u, credName (userCredentialsSecret (uSpec u))) = Some sec"
    "has_key (secData sec) (UsernameKey u)" "has_key (secData sec) (PasswordKey u)"
    "i = \<lparr>inName = uName u, inCreated = metaCreationTimestamp (uMeta u), inUsername = go_get (secData sec) (UsernameKey u),
       inPassword = go_get (secData sec) (PasswordKey u), inACLs = userACLs (uSpec u)\<rparr>"
  using assms by (auto simp: credentials_at_def credentials_of_def split: option.splits if_splits)

lemma credentials_at_name: "credentials_at rt r sv S u = Inr i \<Longrightarrow> inName i = uName u"
  by (erule credentials_at_Inr) simp

lemma inputs_at_frame:
  "inputs_at rt r sv S us names verdicts = (names', verdicts', inputs) \<Longrightarrow> n \<notin> uName ` set us \<Longrightarrow>
     fmlookup names' n = fmlookup names n \<and> fmlookup verdicts' n = fmlookup verdicts n \<and> n \<notin> inName ` set inputs"
proof (induction us arbitrary: names verdicts inputs)
  case (Cons u us)
  show ?case
  proof (cases "credentials_at rt r sv S u")
    case (Inl v)
    then show ?thesis using Cons by auto
  next
    case (Inr i)
    then obtain inps where rec: "inputs_at rt r sv S us (fmupd (uName u) (inUsername i) names) verdicts = (names', verdicts', inps)"
      "inputs = i # inps"
      using Cons.prems(1) by (auto split: prod.splits)
    have "inName i = uName u" by (rule credentials_at_name [OF Inr])
    then show ?thesis using Cons.IH [OF rec(1)] Cons.prems(2) rec(2) by auto
  qed
qed simp

lemma inputs_at_user:
  assumes "inputs_at rt r sv S us names verdicts = (names', verdicts', inputs)" and "distinct (map uName us)"
  shows "distinct (map inName inputs) \<and> (\<forall>u \<in> set us. case credentials_at rt r sv S u of
      Inl v \<Rightarrow> uName u \<notin> inName ` set inputs \<and> fmlookup verdicts' (uName u) = Some v
    | Inr i \<Rightarrow> i \<in> set inputs \<and> fmlookup names' (uName u) = Some (inUsername i)) \<and>
    (\<forall>i \<in> set inputs. \<exists>u \<in> set us. credentials_at rt r sv S u = Inr i)"
  using assms
proof (induction us arbitrary: names verdicts inputs)
  case (Cons u us)
  have new: "uName u \<notin> uName ` set us" and d: "distinct (map uName us)" using Cons.prems(2) by simp_all
  show ?case
  proof (cases "credentials_at rt r sv S u")
    case (Inl v)
    then have rec: "inputs_at rt r sv S us names (fmupd (uName u) v verdicts) = (names', verdicts', inputs)"
      using Cons.prems(1) by simp
    then show ?thesis using Cons.IH [OF rec d] inputs_at_frame [OF rec new] Inl by simp
  next
    case (Inr i)
    then obtain inps where rec: "inputs_at rt r sv S us (fmupd (uName u) (inUsername i) names) verdicts = (names', verdicts', inps)"
      and inps: "inputs = i # inps"
      using Cons.prems(1) by (auto split: prod.splits)
    have i: "inName i = uName u" by (rule credentials_at_name [OF Inr])
    have other: "uName v \<noteq> inName i" if "v \<in> set us" for v using new imageI [OF that, of uName] i by (metis (no_types))
    note frame = inputs_at_frame [OF rec new]
    have "case credentials_at rt r sv S v of
        Inl w \<Rightarrow> uName v \<notin> inName ` set inputs \<and> fmlookup verdicts' (uName v) = Some w
      | Inr j \<Rightarrow> j \<in> set inputs \<and> fmlookup names' (uName v) = Some (inUsername j)" if v: "v \<in> set us" for v
      using Cons.IH [OF rec d] other [OF v] v inps by (auto split: sum.split)
    then show ?thesis using Cons.IH [OF rec d] frame i inps Inr by simp
  qed
qed simp

lemma bound_names_distinct:
  assumes "store_ok S"
  shows "distinct (map uName (bound_users m S))"
proof -
  have "distinct (map (object_key \<circ> uMeta) (bound_users m S))"
    using assms by (simp add: store_ok_def distinct_map_filter)
  moreover have "inj_on uName (set (bound_users m S)) \<longleftrightarrow> inj_on (object_key \<circ> uMeta) (set (bound_users m S))"
    by (auto simp: inj_on_def object_key_def bound_to_def uNamespace_def)
  ultimately show ?thesis by (simp add: distinct_map)
qed

subsection \<open>What a finished pass has rendered\<close>

lemma secret_done_data:
  "secret_done cl m data S \<Longrightarrow> \<exists>x. stSecrets S (auth_key m) = Some x \<and> secData x = data"
  by (auto simp: object_done_def SecretChanged_def BuildAuthSecret_def)

lemma exporter_writable: "principals_writable [ExporterPrincipal password]" "principals_writable []"
  by (simp_all add: principals_writable_def ExporterPrincipal_def entry_writable_def valid_access_def ExporterUsername_def
      ReservedPrefix_def)

lemma exporter_key_not_acl: "acl_grants (fmupd ExporterPasswordKey p data) = acl_grants data"
  by (simp add: acl_grants_def go_get_upd ExporterPasswordKey_def ACLKey_def)

lemma ready_accepted:
  assumes "user_done name v u" and "is_ready u"
  shows "vAccepted v"
proof -
  obtain c where c: "find_condition ConditionTypeReady (ustatConditions (uStatus u)) = Some c" "condStatus c = ConditionTrue"
    using assms(2) unfolding is_ready_def condition_true_def by (simp split: option.splits)
  have "holds_condition (ustatConditions (uStatus u)) (user_condition u v)" using assms(1) unfolding user_done_def by blast
  then have "condStatus c = condStatus (user_condition u v)"
    using c(1) by (simp add: holds_condition_def user_condition_def)
  then have "condStatus (user_condition u v) = ConditionTrue" unfolding c(2) by (rule sym)
  moreover have "ConditionFalse \<noteq> ConditionTrue" by (simp add: ConditionTrue_def ConditionFalse_def)
  ultimately show ?thesis unfolding user_condition_def condition.select_convs by metis
qed

lemma accepted_ready: "user_done name v u \<Longrightarrow> vAccepted v \<Longrightarrow> is_ready u"
  unfolding user_done_def holds_condition_def is_ready_def condition_true_def user_condition_def condition.select_convs
  by (cases "find_condition ConditionTypeReady (ustatConditions (uStatus u))") simp_all

text \<open>The run of the renderer behind a rendering, over its own result.\<close>

definition exporter_principals :: "mosquitto \<Rightarrow> strmap \<Rightarrow> principal list" where
  "exporter_principals m data = (if IsMetricsEnabled m then [ExporterPrincipal (go_get data ExporterPasswordKey)] else [])"

lemma exporter_principals_ok: "principals_ok (exporter_principals m data)" "principals_writable (exporter_principals m data)"
  using exporter_principal_ok exporter_writable by (simp_all add: exporter_principals_def principals_ok_def)

lemma rendered_run:
  assumes left: "rendered rt r sv m S pass"
  obtains names verdicts inputs random res random' where
    "inputs_at rt r sv S (bound_users m S) fmempty fmempty = (names, verdicts, inputs)"
    "RenderUsers rt FilePayload inputs (exporter_principals m (upData pass)) (upData pass) random = Inr (res, random')"
    "upUsernames pass = names" "upVerdicts pass = verdicts ++\<^sub>f resVerdicts res"
    "Hashes (upData pass) = Hashes (resData res)" "acl_grants (upData pass) = acl_grants (resData res)"
    "fmlookup (upData pass) PasswdKey = fmlookup (resData res) PasswdKey" "fmlookup (upData pass) ACLKey = fmlookup (resData res) ACLKey"
    "upAccepted pass = resAccepted res"
proof -
  obtain names verdicts inputs where i: "inputs_at rt r sv S (bound_users m S) fmempty fmempty = (names, verdicts, inputs)"
    by (cases "inputs_at rt r sv S (bound_users m S) fmempty fmempty")
  let ?s = "\<lparr>rnWorld = undefined, rnRandom = [], rnTrace = []\<rparr> :: 'a run"
  have "quiet (render_with rt m (bound_users m S) names verdicts inputs (upData pass)) (rnWorld ?s) pass"
    using left unfolding rendered_def i prod.case by blast
  then obtain s' where "render_with rt m (bound_users m S) names verdicts inputs (upData pass) ?s = (Inr pass, s')"
    unfolding quiet_def by blast
  then obtain password random res random' where
    pw: "password \<noteq> '''' \<longleftrightarrow> IsMetricsEnabled m"
    and R: "RenderUsers rt FilePayload inputs (if IsMetricsEnabled m then [ExporterPrincipal password] else []) (upData pass) random =
        Inr (res, random')"
    and pass: "pass = \<lparr>upUsers = bound_users m S, upUsernames = names,
       upVerdicts = verdicts ++\<^sub>f resVerdicts res, upAccepted = resAccepted res,
       upData = (if password \<noteq> '''' then fmupd ExporterPasswordKey password (resData res) else resData res)\<rparr>"
    by (rule render_with_Inr)
  have "exporter_principals m (upData pass) = (if IsMetricsEnabled m then [ExporterPrincipal password] else [])"
    using pw by (auto simp: exporter_principals_def pass go_get_upd)
  then have R': "RenderUsers rt FilePayload inputs (exporter_principals m (upData pass)) (upData pass) random = Inr (res, random')"
    using R by (simp only:)
  have "ExporterPasswordKey \<noteq> PasswdKey" "ExporterPasswordKey \<noteq> ACLKey"
    by (simp_all add: ExporterPasswordKey_def PasswdKey_def ACLKey_def)
  then show thesis
    by (intro that [OF i R']) (simp_all add: pass exporter_key_not_hashed exporter_key_not_acl)
qed

text \<open>The verdict of a user is the renderer's, or the refusal of its credentials.\<close>

lemma rendered_accepted:
  assumes ok: "store_ok S" and i: "inputs_at rt r sv S (bound_users m S) fmempty fmempty = (names, verdicts, inputs)"
    and R: "RenderUsers rt FilePayload inputs reserved previous random = Inr (res, random')"
    and v: "upVerdicts pass = verdicts ++\<^sub>f resVerdicts res" and u: "u \<in> set (bound_users m S)"
  shows "vAccepted (verdict_of (upVerdicts pass) (uName u)) \<longleftrightarrow>
    (\<exists>j. credentials_at rt r sv S u = Inr j \<and> j \<in> set inputs \<and> user_accepted res j)"
proof -
  note in_us = inputs_at_user [OF i bound_names_distinct [OF ok]]
  have d: "distinct (map inName inputs)" using in_us by blast
  show ?thesis
  proof (cases "credentials_at rt r sv S u")
    case (Inl w)
    then have "uName u \<notin> inName ` set inputs" "fmlookup verdicts (uName u) = Some w" using in_us u by fastforce+
    then have "verdict_of (upVerdicts pass) (uName u) = w"
      using render_verdict_names [OF R d] by (simp add: verdict_of_def v fmlookup_dom_iff)
    then show ?thesis using credentials_at_Inl [OF Inl] Inl by simp
  next
    case (Inr j)
    then have j: "j \<in> set inputs" using in_us u by fastforce
    obtain w where w: "fmlookup (resVerdicts res) (uName u) = Some w"
      using render_verdicts [OF R d j] credentials_at_name [OF Inr] by (auto split: option.splits)
    then have "verdict_of (upVerdicts pass) (uName u) = w" by (simp add: verdict_of_def v fmlookup_dom_iff)
    then show ?thesis using Inr j w by (simp add: user_accepted_def credentials_at_name [OF Inr])
  qed
qed

lemma card_of_filter:
  assumes "distinct (map f xs)"
  shows "length (filter P xs) = card (f ` {x \<in> set xs. P x})"
  using distinct_map_filter [OF assms, of P] by (metis distinct_card length_map set_filter set_map)

text \<open>The count of a pass is the number of its ready users.\<close>

lemma ready_users_counted:
  assumes ok: "store_ok S" and left: "rendered rt r sv m S pass"
    and done_users: "\<And>u. u \<in> set (bound_users m S) \<Longrightarrow>
      user_done (go_get (upUsernames pass) (uName u)) (verdict_of (upVerdicts pass) (uName u)) u"
  shows "upAccepted pass = length (filter is_ready (bound_users m S))"
proof (rule rendered_run [OF left])
  let ?us = "bound_users m S"
  fix names verdicts inputs random res random'
  assume i: "inputs_at rt r sv S ?us fmempty fmempty = (names, verdicts, inputs)"
    and R: "RenderUsers rt FilePayload inputs (exporter_principals m (upData pass)) (upData pass) random = Inr (res, random')"
    and v: "upVerdicts pass = verdicts ++\<^sub>f resVerdicts res" and n: "upAccepted pass = resAccepted res"
  note in_us = inputs_at_user [OF i bound_names_distinct [OF ok]]
  have d: "distinct (map inName inputs)" using in_us by blast
  have ready: "is_ready u \<longleftrightarrow> (\<exists>j. credentials_at rt r sv S u = Inr j \<and> j \<in> set inputs \<and> user_accepted res j)"
    if u: "u \<in> set ?us" for u
    using ready_accepted [OF done_users [OF u]] accepted_ready [OF done_users [OF u]] rendered_accepted [OF ok i R v u] by blast
  have "inName ` {j \<in> set inputs. user_accepted res j} = uName ` {u \<in> set ?us. is_ready u}"
  proof (intro equalityI subsetI)
    fix x assume "x \<in> inName ` {j \<in> set inputs. user_accepted res j}"
    then obtain j where j: "j \<in> set inputs" "user_accepted res j" "x = inName j" by blast
    then obtain u where u: "u \<in> set ?us" "credentials_at rt r sv S u = Inr j" using in_us by blast
    then have "is_ready u" using ready [OF u(1)] j(1,2) by blast
    then show "x \<in> uName ` {u \<in> set ?us. is_ready u}" using u j(3) credentials_at_name [OF u(2)] by blast
  next
    fix x assume "x \<in> uName ` {u \<in> set ?us. is_ready u}"
    then obtain u where u: "u \<in> set ?us" "is_ready u" "x = uName u" by blast
    then obtain j where j: "credentials_at rt r sv S u = Inr j" "j \<in> set inputs" "user_accepted res j" using ready by blast
    then show "x \<in> inName ` {j \<in> set inputs. user_accepted res j}"
      unfolding u(3) credentials_at_name [OF j(1), symmetric] by blast
  qed
  then show ?thesis
    unfolding n render_accepted_count [OF R d] card_of_filter [OF d] card_of_filter [OF bound_names_distinct [OF ok]] by simp
qed

lemma rendered_login:
  assumes pb: "pbkdf2_ok rt" and ok: "store_ok S" and left: "rendered rt r sv m S pass" and u: "u \<in> set (bound_users m S)"
    and acc: "vAccepted (verdict_of (upVerdicts pass) (uName u))"
  obtains sec where "stSecrets S (uNamespace u, credName (userCredentialsSecret (uSpec u))) = Some sec"
    "has_key (secData sec) (UsernameKey u)" "has_key (secData sec) (PasswordKey u)"
    "go_get (upUsernames pass) (uName u) = go_get (secData sec) (UsernameKey u)"
    "VerifyPassword rt (go_get (Hashes (upData pass)) (go_get (secData sec) (UsernameKey u))) (go_get (secData sec) (PasswordKey u))"
    "\<And>a t. (go_get (secData sec) (UsernameKey u), a, t) \<in> set (acl_grants (upData pass)) \<longleftrightarrow>
       \<lparr>aclTopic = t, aclAccess = a\<rparr> \<in> set (userACLs (uSpec u))"
proof -
  obtain names verdicts inputs random res random' where i: "inputs_at rt r sv S (bound_users m S) fmempty fmempty = (names, verdicts, inputs)"
    and R: "RenderUsers rt FilePayload inputs (exporter_principals m (upData pass)) (upData pass) random = Inr (res, random')"
    and parts: "upUsernames pass = names" "upVerdicts pass = verdicts ++\<^sub>f resVerdicts res"
      "Hashes (upData pass) = Hashes (resData res)" "acl_grants (upData pass) = acl_grants (resData res)"
    by (rule rendered_run [OF left])
  note in_us = inputs_at_user [OF i bound_names_distinct [OF ok]]
  have d: "distinct (map inName inputs)" using in_us by blast
  obtain j where j: "credentials_at rt r sv S u = Inr j" "j \<in> set inputs" "user_accepted res j"
    using acc rendered_accepted [OF ok i R parts(2) u] by blast
  have name: "fmlookup names (uName u) = Some (inUsername j)" using in_us u j(1) by fastforce
  note served = accepted_logs_in [OF pb exporter_principals_ok(1) d R j(2,3)] accepted_grants [OF exporter_principals_ok d R j(2,3)]
  obtain sec where sec: "stSecrets S (uNamespace u, credName (userCredentialsSecret (uSpec u))) = Some sec"
    "has_key (secData sec) (UsernameKey u)" "has_key (secData sec) (PasswordKey u)"
    "j = \<lparr>inName = uName u, inCreated = metaCreationTimestamp (uMeta u), inUsername = go_get (secData sec) (UsernameKey u),
       inPassword = go_get (secData sec) (PasswordKey u), inACLs = userACLs (uSpec u)\<rparr>"
    by (rule credentials_at_Inr [OF j(1)])
  show thesis
    by (rule that [OF sec(1-3)]) (use served name in \<open>simp_all add: parts sec(4) go_get_def\<close>)
qed

end
