(* ===== verification/Deployed.thy ===== *)
theory Deployed
  imports Rest Rendered
begin

section \<open>What a broker at rest looks like\<close>

text \<open>
  The contract of the operator with whoever wrote a \<open>Mosquitto\<close>: the workload that runs is the one the
  spec describes, and the status tells the truth about it. The states in which nothing is pending for a
  broker are shown to have both properties, as far as the operator can tell: it knows the pod spec of a live
  StatefulSet by its digest only.
\<close>

subsection \<open>The contract\<close>

text \<open>The live objects carry the broker's configuration, its port, its replicas and its pod spec.\<close>

definition service_serves :: "mosquitto \<Rightarrow> string \<Rightarrow> store \<Rightarrow> bool" where
  "service_serves m name S \<longleftrightarrow> (case stServices S (mNamespace m, name) of
     None \<Rightarrow> False
   | Some x \<Rightarrow> svcPorts x = [brokerServicePort m] \<and> svcSelector x = SelectorLabels m)"

text \<open>Two pod specs the operator cannot tell apart: it compares their digests of 32 bits.\<close>

definition digest_collision :: "kube_lib \<Rightarrow> pod_spec \<Rightarrow> pod_spec \<Rightarrow> bool" where
  "digest_collision kl p q \<longleftrightarrow> p \<noteq> q \<and> hashOf (klMarshalPodSpec kl p) = hashOf (klMarshalPodSpec kl q)"

definition deployed :: "kube_lib \<Rightarrow> pod_options \<Rightarrow> mosquitto \<Rightarrow> store \<Rightarrow> bool" where
  "deployed kl opts m S \<longleftrightarrow>
     (case stConfigMaps S (mNamespace m, ConfigMapName m) of
        None \<Rightarrow> False
      | Some x \<Rightarrow> cmData x = fmap_of_list [(ConfigKey, GenerateMosquittoConf m)]) \<and>
     service_serves m (HeadlessServiceName m) S \<and> service_serves m (ClientServiceName m) S \<and>
     (case stStatefulSets S (mNamespace m, StatefulSetName m) of
        None \<Rightarrow> False
      | Some x \<Rightarrow>
          stsReplicas x = Some (specReplicas (mSpec m)) \<and>
          (ptSpec (stsTemplate x) = buildPodSpec m opts \<or>
           digest_collision kl (ptSpec (stsTemplate x)) (buildPodSpec m opts)) \<and>
          go_get (ptAnnotations (stsTemplate x)) AnnotationConfigHash = hashOf (json_string (GenerateMosquittoConf m)) \<and>
          fmpred (\<lambda>k v. v = '''' \<or> fmlookup (ptLabels (stsTemplate x)) k = Some v) (SelectorLabels m))"

text \<open>The status of a broker, read against the live StatefulSet and the users bound to it.\<close>

definition live_ready :: "mosquitto \<Rightarrow> store \<Rightarrow> int" where
  "live_ready m S = (case stStatefulSets S (mNamespace m, StatefulSetName m) of None \<Rightarrow> 0 | Some x \<Rightarrow> stsReadyReplicas x)"

definition status_true :: "mosquitto \<Rightarrow> store \<Rightarrow> bool" where
  "status_true m S \<longleftrightarrow> (let st = mStatus m; accepted = length (filter is_ready (bound_users m S)) in
     statusObservedGeneration st = metaGeneration (mMeta m) \<and>
     statusReadyReplicas st = live_ready m S \<and>
     statusUsers st = int32_of accepted \<and>
     (condition_true ConditionTypeReady (statusConditions st) \<longleftrightarrow> statusPhase st = PhaseReady) \<and>
     (condition_true ConditionTypeUsers (statusConditions st) \<longleftrightarrow> accepted > 0) \<and>
     (statusPhase st = PhaseReady \<longleftrightarrow> specReplicas (mSpec m) > 0 \<and> live_ready m S \<ge> specReplicas (mSpec m)))"

subsection \<open>The objects\<close>

lemma template_selected:
  assumes "BuildStatefulSet kl m opts = Inr d" and "fmlookup (SelectorLabels m) k = Some v"
  shows "fmlookup (ptLabels (stsTemplate d)) k = Some v"
  using pod_template_protected [OF assms(1)] BuildStatefulSet_Inr(3) [OF assms(1)] assms(2)
  by (simp add: fmsubset_alt_def fmpred_iff)

lemma service_done_serves:
  assumes "service_done cl m d S" and "object_key (svcMeta d) = (mNamespace m, name)"
    and "svcPorts d = [brokerServicePort m]" and "svcSelector d = SelectorLabels m"
  shows "service_serves m name S"
  using assms by (auto simp: object_done_def service_serves_def ServiceChanged_def)

lemma config_map_done_data:
  assumes "config_map_done cl m S"
  obtains x where "stConfigMaps S (mNamespace m, ConfigMapName m) = Some x"
    "cmData x = fmap_of_list [(ConfigKey, GenerateMosquittoConf m)]"
  using assms by (auto simp: object_done_def ConfigMapChanged_def BuildConfigMap_def object_key_def)

lemma stateful_set_done_current:
  assumes "stateful_set_done r kl cl m S" and b: "stBrokers S key = Some m" and all: "all_intact kl cl S" and opts: "opts = \<lparr>ReloaderImage = rcReloaderImage r\<rparr>"
  obtains x where "stStatefulSets S (mNamespace m, StatefulSetName m) = Some x"
    "go_get (ptAnnotations (stsTemplate x)) AnnotationConfigHash = hashOf (json_string (GenerateMosquittoConf m))"
    "ptSpec (stsTemplate x) = buildPodSpec m opts \<or> digest_collision kl (ptSpec (stsTemplate x)) (buildPodSpec m opts)"
    "stsReplicas x = Some (specReplicas (mSpec m))"
    "fmpred (\<lambda>k v. v = '''' \<or> fmlookup (ptLabels (stsTemplate x)) k = Some v) (SelectorLabels m)"
proof -
  obtain d mt x where d: "BuildStatefulSet kl m opts = Inr d" "\<not> StatefulSetHasChanged (d\<lparr>stsMeta := mt\<rparr>) x"
    and x: "stStatefulSets S (object_key (stsMeta d)) = Some x" "clIsControlledBy cl (stsMeta x) (mMeta m)"
    using assms(1) unfolding object_done_def opts by blast
  have same: "\<not> MapEntriesMissing l l" for l
    by (simp add: MapEntriesMissing_iff go_get_def)
  have "\<not> StatefulSetHasChanged d (x\<lparr>stsMeta := stsMeta d\<rparr>)"
    using d(2) by (auto simp: StatefulSetHasChanged_def same split: option.splits if_splits)
  note current = stateful_set_unchanged_is_current [OF d(1) this, simplified]
  have "owned_sts cl S x" using b x(2) unfolding owned_sts_def by blast
  then have "intact kl x" using all x(1) unfolding all_intact_def by blast
  then have pods: "stsReplicas x = Some (specReplicas (mSpec m))"
    "ptSpec (stsTemplate x) = buildPodSpec m opts \<or> digest_collision kl (ptSpec (stsTemplate x)) (buildPodSpec m opts)"
    using current by (auto simp: intact_def pod_digest_def digest_collision_def)
  have labels: "fmpred (\<lambda>k v. v = [] \<or> fmlookup (ptLabels (stsTemplate x)) k = Some v) (SelectorLabels m)"
    using current template_selected [OF d(1)] by (auto simp: fmpred_iff)
  show thesis
    by (rule that [of x]) (use current pods labels x(1) in \<open>simp_all add: built_stateful_set_key [OF d(1)]\<close>)
qed

lemma resources_deployed:
  assumes "resources_left lib r cl sv m S n" and "stBrokers S key = Some m" and "all_intact (libKube lib) cl S"
    and "opts = \<lparr>ReloaderImage = rcReloaderImage r\<rparr>"
  shows "deployed (libKube lib) opts m S"
proof -
  have objects: "config_map_done cl m S" "service_done cl m (BuildHeadlessService m) S"
    "service_done cl m (BuildClientService m) S" "stateful_set_done r (libKube lib) cl m S"
    using assms(1) unfolding resources_left_def by blast+
  have services: "service_serves m (HeadlessServiceName m) S" "service_serves m (ClientServiceName m) S"
    by (rule service_done_serves [OF objects(2)] service_done_serves [OF objects(3)];
        simp add: BuildHeadlessService_def BuildClientService_def object_key_def)+
  show ?thesis
    by (rule config_map_done_data [OF objects(1)], rule stateful_set_done_current [OF objects(4) assms(2-4)])
      (simp add: deployed_def services)
qed

subsection \<open>The status\<close>

lemma held_condition_true: "holds_condition cs c \<Longrightarrow> condition_true (condType c) cs \<longleftrightarrow> condStatus c = ConditionTrue"
  by (auto simp: holds_condition_def condition_true_def split: option.splits)

lemma report_true:
  assumes ok: "store_ok S" and left: "resources_left lib r cl sv m S n" and report: "report_left m n S"
  shows "status_true m S"
proof -
  obtain pass where pass: "n = upAccepted pass" "rendered (libRuntime lib) r sv m S pass"
    "\<And>u. u \<in> set (bound_users m S) \<Longrightarrow> user_done (go_get (upUsernames pass) (uName u)) (verdict_of (upVerdicts pass) (uName u)) u"
    using left unfolding resources_left_def by blast
  have n: "n = length (filter is_ready (bound_users m S))"
    unfolding pass(1) by (rule ready_users_counted [OF ok pass(2,3)])
  let ?live = "stStatefulSets S (mNamespace m, StatefulSetName m)" and ?cs = "statusConditions (mStatus m)"
  obtain k ph rd rs msg where o: "observation (specReplicas (mSpec m)) ?live = (k, ph, rd, rs, msg)"
    by (cases "observation (specReplicas (mSpec m)) ?live") auto
  then have status: "statusUsers (mStatus m) = int32_of n" "statusReadyReplicas (mStatus m) = k"
    "statusPhase (mStatus m) = ph" "statusObservedGeneration (mStatus m) = metaGeneration (mMeta m)"
    and held: "holds_condition ?cs (users_condition m n)" "holds_condition ?cs (ready_condition m rd rs msg)"
    using report by (simp_all add: report_left_def phase_done_def)
  have "condition_true ConditionTypeUsers ?cs \<longleftrightarrow> n > 0"
    using held_condition_true [OF held(1)] by (simp add: users_condition_def ConditionTrue_def ConditionFalse_def split: if_splits)
  moreover have "condition_true ConditionTypeReady ?cs \<longleftrightarrow> rd = ConditionTrue"
    using held_condition_true [OF held(2)] by (simp add: ready_condition_def)
  moreover have "k = live_ready m S" "rd = ConditionTrue \<longleftrightarrow> ph = PhaseReady"
    "ph = PhaseReady \<longleftrightarrow> specReplicas (mSpec m) > 0 \<and> live_ready m S \<ge> specReplicas (mSpec m)"
    using o by (auto simp: observation_def live_ready_def Let_def PhaseReady_def PhasePending_def PhaseProgressing_def
        ConditionTrue_def ConditionFalse_def split: option.splits if_splits)
  ultimately show ?thesis by (simp add: status_true_def Let_def status n)
qed

subsection \<open>At rest\<close>

text \<open>What the last pass of an admitted broker left, when nothing is pending for it.\<close>

lemma idle_broker_left:
  assumes "serves cl sv" and "ownership_ok cl" and "conditions_ok cl" and "pbkdf2_ok (libRuntime lib)" and "rcHasAPIReader r"
    and "controller_rules ct" and "owner_rules cl ct"
    and op: "operates lib r cl sv ct st" "S = svView sv (opWorld st)" "\<not> awaited ct S (opQueue st) (opEvents st) key"
    and broker: "stBrokers S key = Some m" "metaDeletionTimestamp (mMeta m) = None" "namespaceGranted r (mNamespace m)"
      "check_of (libRuntime lib) r m S = None"
  obtains n where "store_ok S" "resources_left lib r cl sv m S n" "report_left m n S"
proof -
  have hand: "in_hand lib r cl sv ct st" by (rule operates_in_hand [OF assms(1-8)])
  have ok: "store_ok S" and left: "pass_done lib r cl sv key S"
    using hand op(3) unfolding in_hand_def Let_def cluster_ok_def op(2) by blast+
  have "broker_done lib r cl sv m S" using left broker(1,2) by (simp add: pass_done_def)
  then show thesis using that ok broker(3,4) by (auto simp: broker_done_def)
qed

text \<open>C2: an idle broker runs what its spec says. When nothing is pending for a broker that no check refuses,
  its live ConfigMap has the generated configuration, both Services its port and its pods, and its StatefulSet
  runs the pod spec that is built for it, with its replicas, its selector labels and the digest of its
  configuration; and its status is true: the phase says Ready exactly when enough replicas are, and the user count is
  the number of bound users whose status says Ready. Which edits, failing passes and late events came before does not
  matter, with two limits that the comparison by digest has: others leave the pod spec of a broker's StatefulSet
  and its digest alone, and a pod spec with the digest of the wanted one is taken for it.\<close>

theorem idle_broker_is_deployed:
  assumes "serves cl sv" and "ownership_ok cl" and "conditions_ok cl" and "pbkdf2_ok (libRuntime lib)" and "rcHasAPIReader r"
    and "controller_rules ct" and "owner_rules cl ct"
    and op: "tended lib r cl sv ct st" "S = svView sv (opWorld st)" "\<not> awaited ct S (opQueue st) (opEvents st) key"
    and broker: "stBrokers S key = Some m" "metaDeletionTimestamp (mMeta m) = None" "namespaceGranted r (mNamespace m)"
      "check_of (libRuntime lib) r m S = None"
  shows "deployed (libKube lib) \<lparr>ReloaderImage = rcReloaderImage r\<rparr> m S \<and> status_true m S"
proof (rule idle_broker_left [OF assms(1-7) tended_operates [OF op(1)] op(2,3) broker])
  have all: "all_intact (libKube lib) cl S" unfolding op(2) by (rule tended_intact [OF assms(1-8)])
  fix n assume left: "store_ok S" "resources_left lib r cl sv m S n" "report_left m n S"
  show ?thesis by (intro conjI resources_deployed [OF left(2) broker(1) all refl] report_true [OF left])
qed

subsection \<open>The sample cluster\<close>

lemma sample_broker_names:
  "AuthSecretName sample_broker = ''mq-auth''" "mNamespace sample_broker = ''ns''" "mName sample_broker = ''mq''"
  "tls_secret sample_broker = ''cert''" "metaDeletionTimestamp (mMeta sample_broker) = None"
  by (simp_all add: AuthSecretName_def sample_broker_def empty_meta_def tls_secret_def)

text \<open>Passes over the sample leave its broker, its user's Secret and its certificate.\<close>

lemma sample_kept:
  assumes sp: "spared store_client (''ns'', ''mq'') sample_store S"
  obtains m u where "stBrokers S (''ns'', ''mq'') = Some m" "same_object sample_broker m" "stUsers S = [u]"
    "uMeta u = uMeta sample_user" "uSpec u = uSpec sample_user"
    "stSecrets S (''ns'', ''ann-login'') = Some sample_secret" "stSecrets S (''ns'', ''cert'') = Some cert_secret"
proof -
  note d = sparedD [OF sp]
  have b: "stBrokers sample_store (''ns'', ''mq'') = Some sample_broker" by (simp add: sample_store_def)
  obtain m where m: "stBrokers S (''ns'', ''mq'') = Some m" "same_object sample_broker m"
    using d(3) [of "(''ns'', ''mq'')"] by (auto simp: b option_rel_Some1)
  obtain \<phi> where \<phi>: "\<And>u. uMeta (\<phi> u) = uMeta u" "\<And>u. uSpec (\<phi> u) = uSpec u" "stUsers S = map \<phi> (stUsers sample_store)"
    using users_sparedE [OF d(4)] by metis
  have other: "stSecrets S k = stSecrets sample_store k" if "k \<noteq> auth_key sample_broker" for k
    using d(5) [OF b] that other_secretsD unfolding owned_changes_def by metis
  have "stSecrets S (''ns'', ''ann-login'') = Some sample_secret" "stSecrets S (''ns'', ''cert'') = Some cert_secret"
    by (subst other; simp add: sample_broker_names sample_store_def)+
  moreover have "stUsers S = [\<phi> sample_user]" by (simp add: \<phi>(3) sample_store_def)
  ultimately show thesis using that m \<phi>(1,2) [of sample_user] by blast
qed

lemma sample_broker_admitted:
  assumes m: "same_object sample_broker m" and cert: "stSecrets S (''ns'', ''cert'') = Some cert_secret"
  shows "metaDeletionTimestamp (mMeta m) = None" "namespaceGranted (sample_reconciler []) (mNamespace m)"
    "check_of (libRuntime sample_library) (sample_reconciler []) m S = None"
proof -
  note eqs = same_objectD [OF m]
  show "metaDeletionTimestamp (mMeta m) = None" by (simp add: eqs sample_broker_names)
  show "namespaceGranted (sample_reconciler []) (mNamespace m)" by (simp add: namespaceGranted_def sample_reconciler_def)
  show "check_of (libRuntime sample_library) (sample_reconciler []) m S = None"
    by (simp add: check_of_def same_builds [OF m] eqs sample_broker_config sample_broker_names cert)
      (simp add: cert_secret_def sample_secret_def empty_meta_def go_get_def fmlookup_of_list)
qed

theorem idle_broker_is_deployed_witness:
  "\<exists>(S :: store) m. stBrokers S (''ns'', ''mq'') = Some m \<and> mSpec m = mSpec sample_broker \<and>
     deployed (libKube sample_library) \<lparr>ReloaderImage = rcReloaderImage (sample_reconciler [])\<rparr> m S \<and> status_true m S"
proof -
  obtain st where st: "tended sample_library (sample_reconciler []) store_client store_server watching_controller st"
    "spared store_client (''ns'', ''mq'') sample_store (opWorld st)"
    "\<not> awaited watching_controller (opWorld st) (opQueue st) (opEvents st) (''ns'', ''mq'')"
    using sample_operated by blast
  have view: "opWorld st = svView store_server (opWorld st)" by (simp add: store_server_def)
  obtain m where m: "stBrokers (opWorld st) (''ns'', ''mq'') = Some m" "same_object sample_broker m"
    "stSecrets (opWorld st) (''ns'', ''cert'') = Some cert_secret"
    by (rule sample_kept [OF st(2)])
  show ?thesis
    using idle_broker_is_deployed [OF sample_hyps(1-3,5-8) st(1) view st(3) m(1) sample_broker_admitted [OF m(2,3)]]
      m(1) same_objectD(2) [OF m(2)] by blast
qed

end
