(* ===== verification/Reloader.thy ===== *)
theory Reloader
  imports Files
begin

section \<open>The reloader (internal/reloader)\<close>

text \<open>
  The sidecar that copies the rendered credentials to the broker and signals it. The part of the
  operating system it uses is modelled as a machine: files and links by path, the entries of the
  process directory, and the signals delivered. Any call may fail: the machine carries a list of
  faults, one per call, and a call whose fault is set returns the error instead of acting. A
  write that fails may have written a part of its bytes. The field \<open>mcHistory\<close> is the sequence of
  file systems other processes may have seen; the code does not have it, and the atomicity of the
  copy is stated on it. Paths are clean, so joining two is a slash between them.

  SHA-256 and the check of a certificate with its key are the fields of \<open>crypto_lib\<close>.
\<close>

datatype file_error = NotExist go_error | OtherError go_error

fun error_text :: "file_error \<Rightarrow> go_error" where
  "error_text (NotExist e) = e"
| "error_text (OtherError e) = e"

record process_entry =
  peName :: string
  peComm :: "string option"

record machine =
  mcFiles :: strmap
  mcLinks :: strmap
  mcProcesses :: "process_entry list"
  mcSignals :: "int list"
  mcFaults :: "(go_error \<times> nat) option list"
  mcHistory :: "strmap list"

record crypto_lib =
  crSum256 :: "string \<Rightarrow> string"
  crKeyPair :: "string \<Rightarrow> string \<Rightarrow> go_error option"

record config =
  cfSource :: string
  cfTarget :: string
  cfFiles :: "string list"
  cfProcess :: string
  cfProcRoot :: string
  cfTLSDir :: string

definition dataLink :: string where "dataLink = ''..data''"

definition path_join :: "string \<Rightarrow> string \<Rightarrow> string" where
  "path_join dir name = dir @ ''/'' @ name"

subsection \<open>Calls to the machine\<close>

definition next_fault :: "machine \<Rightarrow> (go_error \<times> nat) option \<times> machine" where
  "next_fault s = (case mcFaults s of [] \<Rightarrow> (None, s) | f # fs \<Rightarrow> (f, s\<lparr>mcFaults := fs\<rparr>))"

definition set_files :: "strmap \<Rightarrow> machine \<Rightarrow> machine" where
  "set_files files s = s\<lparr>mcFiles := files, mcHistory := mcHistory s @ [files]\<rparr>"

definition os_read_file :: "string \<Rightarrow> machine \<Rightarrow> (file_error + string) \<times> machine" where
  "os_read_file path s = (case next_fault s of
       (Some (e, _), s) \<Rightarrow> (Inl (OtherError e), s)
     | (None, s) \<Rightarrow> (case fmlookup (mcFiles s) path of
           None \<Rightarrow> (Inl (NotExist ''no such file or directory''), s)
         | Some data \<Rightarrow> (Inr data, s)))"

definition os_readlink :: "string \<Rightarrow> machine \<Rightarrow> string option \<times> machine" where
  "os_readlink path s = (case next_fault s of
       (Some _, s) \<Rightarrow> (None, s)
     | (None, s) \<Rightarrow> (fmlookup (mcLinks s) path, s))"

text \<open>\<open>os.CreateTemp\<close>: an empty file of a fresh name; here one that is longer than every path there is.\<close>

definition fresh_path :: "string \<Rightarrow> string \<Rightarrow> strmap \<Rightarrow> string" where
  "fresh_path dir name files = path_join dir (''.'' @ name @ ''.tmp-'' @
     replicate (Max (insert 0 (length ` fset (fmdom files)))) (CHR ''0''))"

definition os_create_temp :: "string \<Rightarrow> string \<Rightarrow> machine \<Rightarrow> string result \<times> machine" where
  "os_create_temp dir name s = (case next_fault s of
       (Some (e, _), s) \<Rightarrow> (Inl e, s)
     | (None, s) \<Rightarrow> (let tmp = fresh_path dir name (mcFiles s)
         in (Inr tmp, set_files (fmupd tmp '''' (mcFiles s)) s)))"

definition os_write :: "string \<Rightarrow> string \<Rightarrow> machine \<Rightarrow> go_error option \<times> machine" where
  "os_write path data s = (case next_fault s of
       (Some (e, n), s) \<Rightarrow> (Some e, set_files (fmupd path (take n data) (mcFiles s)) s)
     | (None, s) \<Rightarrow> (None, set_files (fmupd path data (mcFiles s)) s))"

text \<open>\<open>Chmod\<close> and \<open>Close\<close> may fail, and leave the bytes of the file as they are.\<close>

definition os_touch :: "machine \<Rightarrow> go_error option \<times> machine" where
  "os_touch s = (case next_fault s of (Some (e, _), s) \<Rightarrow> (Some e, s) | (None, s) \<Rightarrow> (None, s))"

definition os_rename :: "string \<Rightarrow> string \<Rightarrow> machine \<Rightarrow> go_error option \<times> machine" where
  "os_rename old new s = (case next_fault s of
       (Some (e, _), s) \<Rightarrow> (Some e, s)
     | (None, s) \<Rightarrow> (case fmlookup (mcFiles s) old of
           None \<Rightarrow> (Some ''no such file or directory'', s)
         | Some data \<Rightarrow> (None, set_files (fmupd new data (fmdrop old (mcFiles s))) s)))"

text \<open>The deferred \<open>os.Remove\<close>, whose error is ignored.\<close>

definition os_remove :: "string \<Rightarrow> machine \<Rightarrow> machine" where
  "os_remove path s = (case next_fault s of
       (Some _, s) \<Rightarrow> s
     | (None, s) \<Rightarrow> set_files (fmdrop path (mcFiles s)) s)"

subsection \<open>Copying\<close>

definition resolveData :: "string \<Rightarrow> machine \<Rightarrow> string \<times> machine" where
  "resolveData dir s = (case os_readlink (path_join dir dataLink) s of
       (None, s) \<Rightarrow> (dir, s)
     | (Some target, s) \<Rightarrow> (if \<not> has_prefix ''/'' target then path_join dir target else target, s))"

fun read_files :: "string \<Rightarrow> string list \<Rightarrow> strmap \<Rightarrow> machine \<Rightarrow> strmap result \<times> machine" where
  "read_files dir [] files s = (Inr files, s)"
| "read_files dir (name # names) files s =
     (case os_read_file (path_join dir name) s of
        (Inl e, s) \<Rightarrow> (Inl (''reading '' @ name @ '' from the Secret mount: '' @ error_text e), s)
      | (Inr data, s) \<Rightarrow> read_files dir names (fmupd name data files) s)"

definition readSource :: "config \<Rightarrow> machine \<Rightarrow> strmap result \<times> machine" where
  "readSource cfg s = (case resolveData (cfSource cfg) s of
     (dir, s) \<Rightarrow> read_files dir (cfFiles cfg) fmempty s)"

definition writeAtomic :: "string \<Rightarrow> string \<Rightarrow> string \<Rightarrow> machine \<Rightarrow> go_error option \<times> machine" where
  "writeAtomic dir name data s = (case os_create_temp dir name s of
       (Inl e, s) \<Rightarrow> (Some (''creating a temporary copy of '' @ name @ '': '' @ e), s)
     | (Inr tmp, s) \<Rightarrow>
         (let (err, s) = (case os_write tmp data s of
             (Some e, s) \<Rightarrow> (Some (''writing the copy of '' @ name @ '': '' @ e), snd (os_touch s))
           | (None, s) \<Rightarrow> (case os_touch s of
               (Some e, s) \<Rightarrow> (Some (''setting the mode of the copy of '' @ name @ '': '' @ e), snd (os_touch s))
             | (None, s) \<Rightarrow> (case os_touch s of
                 (Some e, s) \<Rightarrow> (Some (''closing the copy of '' @ name @ '': '' @ e), s)
               | (None, s) \<Rightarrow> (case os_rename tmp (path_join dir name) s of
                   (Some e, s) \<Rightarrow> (Some (''renaming the copy of '' @ name @ '' into place: '' @ e), s)
                 | (None, s) \<Rightarrow> (None, s)))))
          in (err, os_remove tmp s)))"

text \<open>The loop of \<open>Sync\<close>; a Go pair of a value and an error, as both are returned.\<close>

fun sync_loop :: "config \<Rightarrow> strmap \<Rightarrow> string list \<Rightarrow> bool \<Rightarrow> machine
    \<Rightarrow> (bool \<times> go_error option) \<times> machine" where
  "sync_loop cfg files [] changed s = ((changed, None), s)"
| "sync_loop cfg files (name # names) changed s =
     (case os_read_file (path_join (cfTarget cfg) name) s of
        (res, s) \<Rightarrow>
          if (case res of Inr current \<Rightarrow> current = go_get files name | Inl _ \<Rightarrow> False)
          then sync_loop cfg files names changed s
          else (case res of
              Inl (OtherError e) \<Rightarrow> ((changed, Some (''reading the copy of '' @ name @ '': '' @ e)), s)
            | _ \<Rightarrow> (case writeAtomic (cfTarget cfg) name (go_get files name) s of
                  (Some e, s) \<Rightarrow> ((changed, Some e), s)
                | (None, s) \<Rightarrow> sync_loop cfg files names True s)))"

definition Sync :: "config \<Rightarrow> machine \<Rightarrow> (bool \<times> go_error option) \<times> machine" where
  "Sync cfg s = (case readSource cfg s of
       (Inl e, s) \<Rightarrow> ((False, Some e), s)
     | (Inr files, s) \<Rightarrow> sync_loop cfg files (cfFiles cfg) False s)"

subsection \<open>Signalling\<close>

definition errNoProcess :: go_error where "errNoProcess = ''no such process''"

fun find_process :: "string \<Rightarrow> process_entry list \<Rightarrow> int option" where
  "find_process name [] = None"
| "find_process name (entry # entries) =
     (case go_atoi (peName entry) of
        None \<Rightarrow> find_process name entries
      | Some pid \<Rightarrow>
          if pid \<le> 0 then find_process name entries
          else (case peComm entry of
              Some comm \<Rightarrow> if trim_space comm = name then Some pid else find_process name entries
            | None \<Rightarrow> find_process name entries))"

definition FindProcess :: "string \<Rightarrow> string \<Rightarrow> machine \<Rightarrow> int result \<times> machine" where
  "FindProcess procRoot name s = (case next_fault s of
       (Some (e, _), s) \<Rightarrow> (Inl (''listing '' @ procRoot @ '': '' @ e), s)
     | (None, s) \<Rightarrow> (case find_process name (mcProcesses s) of
           None \<Rightarrow> (Inl (errNoProcess @ '': '' @ name), s)
         | Some pid \<Rightarrow> (Inr pid, s)))"

definition signal :: "config \<Rightarrow> machine \<Rightarrow> go_error option \<times> machine" where
  "signal cfg s = (case FindProcess (cfProcRoot cfg) (cfProcess cfg) s of
       (Inl e, s) \<Rightarrow> (Some e, s)
     | (Inr pid, s) \<Rightarrow> (case next_fault s of
           (Some (e, _), s) \<Rightarrow>
             (Some (''signalling '' @ cfProcess cfg @ '' (pid '' @ go_itoa_int pid @ ''): '' @ e), s)
         | (None, s) \<Rightarrow> (None, s\<lparr>mcSignals := mcSignals s @ [pid]\<rparr>)))"

subsection \<open>The TLS pair\<close>

definition tlsCertFile :: string where "tlsCertFile = ''tls.crt''"
definition tlsKeyFile :: string where "tlsKeyFile = ''tls.key''"

record tls_state =
  tsCrt :: string
  tsKey :: string
  tsSeen :: bool
  tsValid :: bool

definition readTLS :: "string \<Rightarrow> machine \<Rightarrow> (string \<times> string) result \<times> machine" where
  "readTLS dir s = (case resolveData dir s of (base, s) \<Rightarrow>
     (case os_read_file (path_join base tlsCertFile) s of
        (Inl e, s) \<Rightarrow> (Inl (''reading '' @ tlsCertFile @ '': '' @ error_text e), s)
      | (Inr crt, s) \<Rightarrow> (case os_read_file (path_join base tlsKeyFile) s of
            (Inl e, s) \<Rightarrow> (Inl (''reading '' @ tlsKeyFile @ '': '' @ error_text e), s)
          | (Inr key, s) \<Rightarrow> (Inr (crt, key), s))))"

text \<open>A failed read leaves both byte slices empty, and they are summed all the same.\<close>

definition checkTLS :: "crypto_lib \<Rightarrow> string \<Rightarrow> tls_state \<Rightarrow> machine
    \<Rightarrow> ((bool \<times> go_error option) \<times> tls_state) \<times> machine" where
  "checkTLS cr dir st s = (case readTLS dir s of (res, s) \<Rightarrow>
     (let (crt, key) = (case res of Inl _ \<Rightarrow> ('''', '''') | Inr p \<Rightarrow> p);
          crtSum = crSum256 cr crt; keySum = crSum256 cr key
      in if tsSeen st \<and> crtSum = tsCrt st \<and> keySum = tsKey st then (((False, None), st), s)
         else
           (let err = (case res of
                Inl e \<Rightarrow> Some e
              | Inr _ \<Rightarrow> map_option (\<lambda>e. ''tls.crt and tls.key do not form a valid pair: '' @ e)
                  (crKeyPair cr crt key))
            in (((tsSeen st, err),
                 st\<lparr>tsSeen := True, tsCrt := crtSum, tsKey := keySum, tsValid := (err = None)\<rparr>), s))))"

subsection \<open>One round\<close>

record round =
  roPending :: bool
  roTLS :: tls_state

definition new_round :: round where
  "new_round = \<lparr>roPending = False,
     roTLS = \<lparr>tsCrt = '''', tsKey = '''', tsSeen = False, tsValid = False\<rparr>\<rparr>"

definition once :: "crypto_lib \<Rightarrow> config \<Rightarrow> round \<Rightarrow> machine \<Rightarrow> round \<times> machine" where
  "once cr cfg r s =
     (let ((changed, err), s) = Sync cfg s;
          r = (if err \<noteq> None then r else if changed then r\<lparr>roPending := True\<rparr> else r);
          (r, s, stop) =
            (if cfTLSDir cfg \<noteq> ''''
             then (case checkTLS cr (cfTLSDir cfg) (roTLS r) s of (((tlsChanged, terr), st), s) \<Rightarrow>
               (let r = r\<lparr>roTLS := st\<rparr>;
                    r = (if terr \<noteq> None then r else if tlsChanged then r\<lparr>roPending := True\<rparr> else r)
                in (r, s, \<not> tsValid (roTLS r))))
             else (r, s, False))
      in if stop then (r, s)
         else if roPending r
         then (case signal cfg s of
             (Some _, s) \<Rightarrow> (r, s)
           | (None, s) \<Rightarrow> (r\<lparr>roPending := False\<rparr>, s))
         else (r, s))"

text \<open>
  \<open>Run\<close>: rounds, with anything the pod's environment does to the machine between two of them,
  except to the signals delivered.
\<close>

inductive run :: "crypto_lib \<Rightarrow> config \<Rightarrow> round \<Rightarrow> machine \<Rightarrow> bool" for cr cfg where
  start: "run cr cfg new_round s"
| poll: "run cr cfg r s \<Longrightarrow> once cr cfg r s = (r', s') \<Longrightarrow> run cr cfg r' s'"
| environment: "run cr cfg r s \<Longrightarrow> mcSignals s' = mcSignals s \<Longrightarrow> run cr cfg r s'"

text \<open>\<open>Main\<close> with --once: the exit code of the init container.\<close>

definition once_main :: "config \<Rightarrow> machine \<Rightarrow> int \<times> machine" where
  "once_main cfg s = (case Sync cfg s of ((_, err), s) \<Rightarrow> (if err \<noteq> None then 1 else 0, s))"

subsection \<open>The copy\<close>

lemma path_join_inj [simp]: "path_join d a = path_join d b \<longleftrightarrow> a = b"
  by (simp add: path_join_def)

text \<open>A path longer than every key of the file system is not one of them.\<close>

lemma fresh_path_new: "fmlookup files (fresh_path dir name files) = None"
proof (rule ccontr)
  assume "fmlookup files (fresh_path dir name files) \<noteq> None"
  then have "fresh_path dir name files \<in> fset (fmdom files)" by (auto simp: fmlookup_dom_iff)
  then have "length (fresh_path dir name files) \<le> Max (insert 0 (length ` fset (fmdom files)))"
    by (intro Max_ge) auto
  then show False by (simp add: fresh_path_def path_join_def)
qed

lemma fresh_path_not_target: "fresh_path dir name files \<noteq> path_join dir name"
proof
  assume "fresh_path dir name files = path_join dir name"
  from arg_cong [OF this, of length] show False by (simp add: fresh_path_def path_join_def)
qed

lemma next_fault_keeps:
  assumes "next_fault s = (f, t)"
  shows "mcFiles t = mcFiles s" "mcHistory t = mcHistory s" "mcLinks t = mcLinks s"
    "mcProcesses t = mcProcesses s" "mcSignals t = mcSignals s"
  using assms by (auto simp: next_fault_def split: list.splits)

lemma set_files_simps [simp]:
  "mcFiles (set_files f s) = f" "mcHistory (set_files f s) = mcHistory s @ [f]"
  "mcLinks (set_files f s) = mcLinks s" "mcProcesses (set_files f s) = mcProcesses s"
  "mcSignals (set_files f s) = mcSignals s" "mcFaults (set_files f s) = mcFaults s"
  by (simp_all add: set_files_def)

text \<open>
  What a step of a copy owes: it only appends file systems to the history; in each of them, and
  after it, the paths \<open>Q\<close> are as before.
\<close>

definition frame :: "(string \<Rightarrow> bool) \<Rightarrow> machine \<Rightarrow> machine \<Rightarrow> bool" where
  "frame Q s s' \<longleftrightarrow> (\<exists>hs. mcHistory s' = mcHistory s @ hs \<and>
     (\<forall>h \<in> set (mcFiles s' # hs). \<forall>q. Q q \<longrightarrow> fmlookup h q = fmlookup (mcFiles s) q)) \<and>
     mcSignals s' = mcSignals s \<and> mcLinks s' = mcLinks s \<and> mcProcesses s' = mcProcesses s"

lemma frame_refl: "frame Q s s"
  by (simp add: frame_def)

lemma frame_trans:
  assumes "frame Q s t" and "frame Q t u"
  shows "frame Q s u"
proof -
  obtain hs where hs: "mcHistory t = mcHistory s @ hs"
    "\<forall>h \<in> set (mcFiles t # hs). \<forall>q. Q q \<longrightarrow> fmlookup h q = fmlookup (mcFiles s) q"
    using assms(1) unfolding frame_def by blast
  obtain ks where ks: "mcHistory u = mcHistory t @ ks"
    "\<forall>h \<in> set (mcFiles u # ks). \<forall>q. Q q \<longrightarrow> fmlookup h q = fmlookup (mcFiles t) q"
    using assms(2) unfolding frame_def by blast
  have "\<forall>h \<in> set (mcFiles u # hs @ ks). \<forall>q. Q q \<longrightarrow> fmlookup h q = fmlookup (mcFiles s) q"
    using hs(2) ks(2) by auto
  then show ?thesis using assms hs(1) ks(1) unfolding frame_def by (intro conjI exI [of _ "hs @ ks"]) simp_all
qed

lemma frame_files: "frame Q s t \<Longrightarrow> Q q \<Longrightarrow> fmlookup (mcFiles t) q = fmlookup (mcFiles s) q"
  unfolding frame_def by auto

lemma frame_weaken: "frame Q s t \<Longrightarrow> (\<And>q. R q \<Longrightarrow> Q q) \<Longrightarrow> frame R s t"
  unfolding frame_def by blast

lemma frame_fault: "next_fault s = (f, t) \<Longrightarrow> frame Q s t"
  by (simp add: frame_def next_fault_keeps)

lemma frame_set_files:
  "next_fault s = (f, t) \<Longrightarrow> (\<And>q. Q q \<Longrightarrow> fmlookup m q = fmlookup (mcFiles s) q) \<Longrightarrow> frame Q s (set_files m t)"
  by (simp add: frame_def next_fault_keeps)

lemma frame_write:
  assumes "os_write p data s = (e, t)" and "\<not> Q p"
  shows "frame Q s t"
proof (cases "next_fault s")
  case (Pair f u)
  have "frame Q s (set_files (fmupd p d (mcFiles s)) u)" for d
    by (rule frame_set_files [OF Pair]) (use assms(2) in auto)
  then show ?thesis
    using assms(1) Pair by (auto simp: os_write_def next_fault_keeps [OF Pair] split: option.splits)
qed

lemma frame_touch: "os_touch s = (e, t) \<Longrightarrow> frame Q s t"
  unfolding os_touch_def
  by (cases "next_fault s") (auto split: option.splits intro: frame_fault)

lemma frame_remove:
  assumes "\<not> Q p"
  shows "frame Q s (os_remove p s)"
proof (cases "next_fault s")
  case (Pair f u)
  have "frame Q s (set_files (fmdrop p (mcFiles s)) u)"
    by (rule frame_set_files [OF Pair]) (use assms in auto)
  then show ?thesis
    using frame_fault [OF Pair] Pair by (cases f) (simp_all add: os_remove_def next_fault_keeps [OF Pair])
qed

lemma frame_read: "os_read_file p s = (e, t) \<Longrightarrow> frame Q s t"
  unfolding os_read_file_def
  by (cases "next_fault s") (auto split: option.splits intro: frame_fault)

lemma frame_create:
  assumes "os_create_temp dir name s = (r, t)"
  shows "case r of Inr tmp \<Rightarrow> tmp = fresh_path dir name (mcFiles s) \<and> frame (\<lambda>q. q \<noteq> tmp) s t
    | Inl e \<Rightarrow> frame Q s t"
proof (cases "next_fault s")
  case (Pair f u)
  have "frame (\<lambda>q. q \<noteq> p) s (set_files (fmupd p '''' (mcFiles s)) u)" for p
    by (rule frame_set_files [OF Pair]) auto
  then show ?thesis
    using assms frame_fault [OF Pair] Pair
    by (cases f) (auto simp: os_create_temp_def Let_def next_fault_keeps [OF Pair])
qed

text \<open>The bytes a step leaves at the temporary path, and the rename.\<close>

lemma os_write_done: "os_write p data s = (None, t) \<Longrightarrow> fmlookup (mcFiles t) p = Some data"
  unfolding os_write_def by (cases "next_fault s") (auto split: option.splits)

lemma os_rename_done:
  assumes "os_rename old new s = (None, t)" and "fmlookup (mcFiles s) old = Some data" and "old \<noteq> new"
  shows "fmlookup (mcFiles t) new = Some data" and "frame (\<lambda>q. q \<noteq> old \<and> q \<noteq> new) s t"
    and "\<exists>f. mcHistory t = mcHistory s @ [f] \<and> fmlookup f new = Some data"
  using assms unfolding os_rename_def
  by (cases "next_fault s", auto split: option.splits simp: next_fault_keeps intro!: frame_set_files)+

lemma os_rename_failed: "os_rename old new s = (Some e, t) \<Longrightarrow> frame Q s t"
  unfolding os_rename_def
  by (cases "next_fault s") (auto split: option.splits simp: next_fault_keeps intro!: frame_fault)

lemma writeAtomic_cases:
  assumes "writeAtomic dir name data s = (err, s')"
  defines "tmp \<equiv> fresh_path dir name (mcFiles s)"
  shows "(err \<noteq> None \<and> frame (\<lambda>q. q \<noteq> tmp) s s') \<or>
    (err = None \<and> (\<exists>s1 s2. frame (\<lambda>q. q \<noteq> tmp) s s1 \<and> fmlookup (mcFiles s1) tmp = Some data \<and>
       os_rename tmp (path_join dir name) s1 = (None, s2) \<and> s' = os_remove tmp s2))"
proof -
  let ?Q = "\<lambda>q. q \<noteq> tmp"
  obtain r t where c: "os_create_temp dir name s = (r, t)" by (cases "os_create_temp dir name s")
  show ?thesis
  proof (cases r)
    case (Inl e)
    then show ?thesis using assms(1) c frame_create [OF c, of ?Q] by (auto simp: writeAtomic_def)
  next
    case (Inr x)
    then have x: "x = tmp" and f0: "frame ?Q s t" using frame_create [OF c] by (auto simp: tmp_def)
    have rm: "frame ?Q u (os_remove tmp u)" for u by (rule frame_remove) simp
    obtain e1 t1 where w: "os_write tmp data t = (e1, t1)" by (cases "os_write tmp data t")
    have f1: "frame ?Q s t1" by (rule frame_trans [OF f0 frame_write [OF w]]) simp
    obtain e2 t2 where h: "os_touch t1 = (e2, t2)" by (cases "os_touch t1")
    have f2: "frame ?Q s t2" by (rule frame_trans [OF f1 frame_touch [OF h]])
    obtain e3 t3 where k: "os_touch t2 = (e3, t3)" by (cases "os_touch t2")
    have f3: "frame ?Q s t3" by (rule frame_trans [OF f2 frame_touch [OF k]])
    obtain e4 t4 where n: "os_rename tmp (path_join dir name) t3 = (e4, t4)"
      by (cases "os_rename tmp (path_join dir name) t3")
    have bytes: "fmlookup (mcFiles t3) tmp = Some data" if "e1 = None"
      using os_write_done w that frame_files [OF frame_touch [OF h, of "\<lambda>_. True"]]
        frame_files [OF frame_touch [OF k, of "\<lambda>_. True"]] by simp
    show ?thesis
    proof (cases "e1 = None \<and> e2 = None \<and> e3 = None \<and> e4 = None")
      case True
      then show ?thesis
        using assms(1) c Inr x w h k n f3 bytes by (auto simp: writeAtomic_def)
    next
      case False
      have "frame ?Q s t4" if "e4 \<noteq> None"
        using that n os_rename_failed frame_trans [OF f3] by (cases e4) auto
      then have "err \<noteq> None \<and> (s' = os_remove tmp t2 \<or> s' = os_remove tmp t3 \<or> s' = os_remove tmp t4 \<and> e4 \<noteq> None)"
        using False assms(1) c Inr x w h k n by (auto simp: writeAtomic_def split: option.splits)
      then show ?thesis
        using f2 f3 \<open>e4 \<noteq> None \<Longrightarrow> frame ?Q s t4\<close> frame_trans [OF _ rm] by blast
    qed
  qed
qed

text \<open>The copy, on the target and on every other file there is.\<close>

lemma writeAtomic_effect:
  assumes "writeAtomic dir name data s = (err, s')"
  defines "p \<equiv> path_join dir name"
  shows "\<exists>hs. mcHistory s' = mcHistory s @ hs \<and>
      (\<forall>h \<in> set hs. fmlookup h p = fmlookup (mcFiles s) p \<or> fmlookup h p = Some data)"
    and "fmlookup (mcFiles s') p = (if err = None then Some data else fmlookup (mcFiles s) p)"
    and "q \<noteq> p \<Longrightarrow> q \<noteq> fresh_path dir name (mcFiles s) \<Longrightarrow> fmlookup (mcFiles s') q = fmlookup (mcFiles s) q"
    and "mcSignals s' = mcSignals s" "mcLinks s' = mcLinks s" "mcProcesses s' = mcProcesses s"
proof -
  let ?tmp = "fresh_path dir name (mcFiles s)"
  have pt: "p \<noteq> ?tmp" using fresh_path_not_target by (metis p_def)
  have "(\<exists>hs. mcHistory s' = mcHistory s @ hs \<and>
      (\<forall>h \<in> set hs. fmlookup h p = fmlookup (mcFiles s) p \<or> fmlookup h p = Some data)) \<and>
    fmlookup (mcFiles s') p = (if err = None then Some data else fmlookup (mcFiles s) p) \<and>
    (\<forall>q. q \<noteq> p \<and> q \<noteq> ?tmp \<longrightarrow> fmlookup (mcFiles s') q = fmlookup (mcFiles s) q) \<and>
    mcSignals s' = mcSignals s \<and> mcLinks s' = mcLinks s \<and> mcProcesses s' = mcProcesses s"
    using writeAtomic_cases [OF assms(1)]
  proof (elim disjE conjE exE)
    assume "err \<noteq> None" and f: "frame (\<lambda>q. q \<noteq> ?tmp) s s'"
    then show ?thesis using pt frame_files [OF f] unfolding frame_def by fastforce
  next
    fix s1 s2
    assume e: "err = None" and f1: "frame (\<lambda>q. q \<noteq> ?tmp) s s1" and b: "fmlookup (mcFiles s1) ?tmp = Some data"
      and n: "os_rename ?tmp (path_join dir name) s1 = (None, s2)" and s': "s' = os_remove ?tmp s2"
    note r = os_rename_done [OF n b, folded p_def]
    have f3: "frame (\<lambda>q. q \<noteq> ?tmp) s2 s'" unfolding s' by (rule frame_remove) simp
    obtain hs where hs: "mcHistory s1 = mcHistory s @ hs" "\<forall>h \<in> set hs. fmlookup h p = fmlookup (mcFiles s) p"
      using f1 pt unfolding frame_def by auto
    obtain f where f: "mcHistory s2 = mcHistory s1 @ [f]" "fmlookup f p = Some data"
      using r(3) pt by auto
    obtain ks where ks: "mcHistory s' = mcHistory s2 @ ks" "\<forall>h \<in> set ks. fmlookup h p = fmlookup (mcFiles s2) p"
      using f3 pt unfolding frame_def by auto
    have p2: "fmlookup (mcFiles s2) p = Some data" using r(1) pt by auto
    have "fmlookup (mcFiles s') q = fmlookup (mcFiles s) q" if "q \<noteq> p" "q \<noteq> ?tmp" for q
      using frame_files [OF f3, of q] frame_files [OF r(2), of q] frame_files [OF f1, of q] that pt by auto
    moreover have "fmlookup (mcFiles s') p = Some data" using frame_files [OF f3] pt p2 by auto
    moreover have "mcSignals s' = mcSignals s \<and> mcLinks s' = mcLinks s \<and> mcProcesses s' = mcProcesses s"
      using f1 f3 r(2) pt unfolding frame_def by auto
    ultimately show ?thesis
      using e hs f ks p2 by (intro conjI exI [of _ "hs @ [f] @ ks"]) auto
  qed
  then show "\<exists>hs. mcHistory s' = mcHistory s @ hs \<and>
      (\<forall>h \<in> set hs. fmlookup h p = fmlookup (mcFiles s) p \<or> fmlookup h p = Some data)"
    "fmlookup (mcFiles s') p = (if err = None then Some data else fmlookup (mcFiles s) p)"
    "q \<noteq> p \<Longrightarrow> q \<noteq> ?tmp \<Longrightarrow> fmlookup (mcFiles s') q = fmlookup (mcFiles s) q"
    "mcSignals s' = mcSignals s" "mcLinks s' = mcLinks s" "mcProcesses s' = mcProcesses s"
    by simp_all
qed

text \<open>C18: the broker never reads half a file. In every file system another process can see during a copy,
  faults and partial writes included, the target holds its old bytes or all of the new ones; it
  holds the new ones at the end exactly when the copy reports no error.\<close>

theorem copy_is_atomic:
  assumes "writeAtomic dir name data s = (err, s')"
  shows "(\<exists>seen. mcHistory s' = mcHistory s @ seen \<and>
      list_all (\<lambda>h. fmlookup h (path_join dir name) \<in> {fmlookup (mcFiles s) (path_join dir name), Some data}) seen) \<and>
    fmlookup (mcFiles s') (path_join dir name) =
      (if err = None then Some data else fmlookup (mcFiles s) (path_join dir name))"
  using writeAtomic_effect(1,2) [OF assms] by (auto simp: list_all_iff)

subsection \<open>A synchronisation\<close>

definition plain_names :: "config \<Rightarrow> bool" where
  "plain_names cfg \<longleftrightarrow> distinct (cfFiles cfg) \<and> list_all (\<lambda>n. \<not> has_prefix ''.'' n) (cfFiles cfg)"

lemma target_not_temp: "\<not> has_prefix ''.'' m \<Longrightarrow> path_join dir m \<noteq> fresh_path dir name files"
  by (auto simp: fresh_path_def has_prefix_def)

lemma os_read_file_res:
  assumes "os_read_file p s = (res, t)"
  shows "mcFiles t = mcFiles s" "mcSignals t = mcSignals s" "mcLinks t = mcLinks s"
    "mcProcesses t = mcProcesses s" "\<And>d. res = Inr d \<Longrightarrow> fmlookup (mcFiles s) p = Some d"
    "\<And>e. res = Inl (NotExist e) \<Longrightarrow> fmlookup (mcFiles s) p = None"
  using assms unfolding os_read_file_def
  by (cases "next_fault s", auto split: option.splits simp: next_fault_keeps)+

lemma sync_loop_ok:
  assumes "sync_loop cfg files names ch s = ((changed, None), s')"
    and "distinct names" and "list_all (\<lambda>n. \<not> has_prefix ''.'' n) names"
  shows "(\<forall>n \<in> set names. fmlookup (mcFiles s') (path_join (cfTarget cfg) n) = Some (go_get files n)) \<and>
    (changed \<longleftrightarrow> ch \<or>
      (\<exists>n \<in> set names. fmlookup (mcFiles s) (path_join (cfTarget cfg) n) \<noteq> Some (go_get files n))) \<and>
    (\<forall>m. m \<notin> set names \<and> \<not> has_prefix ''.'' m \<longrightarrow>
       fmlookup (mcFiles s') (path_join (cfTarget cfg) m) = fmlookup (mcFiles s) (path_join (cfTarget cfg) m))"
  using assms
proof (induction names arbitrary: ch s)
  case (Cons n ns)
  let ?p = "path_join (cfTarget cfg) n"
  obtain res t where r: "os_read_file ?p s = (res, t)" by (cases "os_read_file ?p s")
  note rd = os_read_file_res [OF r]
  have d: "distinct ns" "list_all (\<lambda>n. \<not> has_prefix ''.'' n) ns" "\<not> has_prefix ''.'' n" "n \<notin> set ns"
    using Cons.prems by simp_all
  show ?case
  proof (cases "res = Inr (go_get files n)")
    case True
    then have "sync_loop cfg files ns ch t = ((changed, None), s')" using Cons.prems(1) r by simp
    from Cons.IH [OF this d(1,2)] show ?thesis using True rd d by auto
  next
    case False
    have neq: "fmlookup (mcFiles s) ?p \<noteq> Some (go_get files n)"
    proof (cases res)
      case (Inl e)
      then show ?thesis using Cons.prems(1) r rd(6) by (cases e) auto
    next
      case (Inr x)
      then show ?thesis using rd(5) False by simp
    qed
    obtain e u where w: "writeAtomic (cfTarget cfg) n (go_get files n) t = (e, u)"
      by (cases "writeAtomic (cfTarget cfg) n (go_get files n) t")
    have e: "e = None" "sync_loop cfg files ns True u = ((changed, None), s')"
      using Cons.prems(1) r w False by (auto split: sum.splits file_error.splits option.splits if_splits)
    note we = writeAtomic_effect(2,3) [OF w]
    have "fmlookup (mcFiles u) (path_join (cfTarget cfg) m) = fmlookup (mcFiles s) (path_join (cfTarget cfg) m)"
      if "m \<noteq> n" "\<not> has_prefix ''.'' m" for m
      using we(2) [of "path_join (cfTarget cfg) m"] that target_not_temp rd(1) by simp
    then show ?thesis
      using Cons.IH [OF e(2) d(1,2)] we(1) e(1) neq d by (auto simp: list_all_iff)
  qed
qed simp

lemma resolveData_keeps: "resolveData dir s = (d, t) \<Longrightarrow> mcFiles t = mcFiles s \<and> mcSignals t = mcSignals s \<and> mcProcesses t = mcProcesses s"
  unfolding resolveData_def os_readlink_def
  by (cases "next_fault s") (auto simp: next_fault_keeps split: option.splits if_splits)

lemma read_files_keeps:
  "read_files dir names files s = (res, t) \<Longrightarrow> mcFiles t = mcFiles s \<and> mcSignals t = mcSignals s \<and> mcProcesses t = mcProcesses s"
proof (induction names arbitrary: files s)
  case (Cons n ns)
  obtain r u where "os_read_file (path_join dir n) s = (r, u)" by (cases "os_read_file (path_join dir n) s")
  then show ?case
    using Cons os_read_file_res(1,2,4) by (cases r) fastforce+
qed simp

lemma readSource_keeps: "readSource cfg s = (res, t) \<Longrightarrow> mcFiles t = mcFiles s \<and> mcSignals t = mcSignals s \<and> mcProcesses t = mcProcesses s"
  unfolding readSource_def using resolveData_keeps read_files_keeps by (fastforce split: prod.splits)

lemma sync_loop_signals: "sync_loop cfg files names ch s = (res, s') \<Longrightarrow> mcSignals s' = mcSignals s \<and> mcProcesses s' = mcProcesses s"
proof (induction names arbitrary: ch s)
  case (Cons n ns)
  obtain r t where r: "os_read_file (path_join (cfTarget cfg) n) s = (r, t)"
    by (cases "os_read_file (path_join (cfTarget cfg) n) s")
  obtain e u where w: "writeAtomic (cfTarget cfg) n (go_get files n) t = (e, u)"
    by (cases "writeAtomic (cfTarget cfg) n (go_get files n) t")
  have s: "mcSignals t = mcSignals s" "mcSignals u = mcSignals s" "mcProcesses t = mcProcesses s" "mcProcesses u = mcProcesses s"
    using os_read_file_res(2,4) [OF r] writeAtomic_effect(4,6) [OF w] by simp_all
  show ?case
    using Cons r w s by (auto split: sum.splits file_error.splits option.splits if_splits)
qed simp

lemma read_files_lookup:
  "read_files dir names files s = (Inr out, t) \<Longrightarrow>
     (n \<notin> set names \<longrightarrow> fmlookup out n = fmlookup files n) \<and>
     (n \<in> set names \<longrightarrow> (\<exists>d. fmlookup out n = Some d \<and> fmlookup (mcFiles s) (path_join dir n) = Some d))"
proof (induction names arbitrary: files s)
  case (Cons m ms)
  obtain r u where r: "os_read_file (path_join dir m) s = (r, u)" by (cases "os_read_file (path_join dir m) s")
  then obtain d where d: "r = Inr d" "read_files dir ms (fmupd m d files) u = (Inr out, t)"
    using Cons.prems(1) by (cases r) auto
  show ?case
    using Cons.IH [OF d(2)] os_read_file_res(1) [OF r] os_read_file_res(5) [OF r d(1)] by auto
qed simp

lemma Sync_spec:
  assumes "Sync cfg s = ((changed, None), s')" and "plain_names cfg"
  shows "let dir = fst (resolveData (cfSource cfg) s);
             source = (\<lambda>n. fmlookup (mcFiles s) (path_join dir n));
             copy = (\<lambda>m n. fmlookup (mcFiles m) (path_join (cfTarget cfg) n))
         in list_all (\<lambda>n. source n \<noteq> None \<and> copy s' n = source n) (cfFiles cfg) \<and>
            (changed \<longleftrightarrow> list_ex (\<lambda>n. copy s n \<noteq> source n) (cfFiles cfg)) \<and>
            mcSignals s' = mcSignals s"
proof -
  obtain dir u where d: "resolveData (cfSource cfg) s = (dir, u)" by (cases "resolveData (cfSource cfg) s")
  obtain res t where r: "readSource cfg s = (res, t)" by (cases "readSource cfg s")
  then obtain files where f: "res = Inr files" "sync_loop cfg files (cfFiles cfg) False t = ((changed, None), s')"
    using assms(1) by (cases res) (auto simp: Sync_def)
  have rf: "read_files dir (cfFiles cfg) fmempty u = (Inr files, t)"
    using r d f(1) by (simp add: readSource_def)
  have src: "\<exists>x. fmlookup files n = Some x \<and> fmlookup (mcFiles s) (path_join dir n) = Some x"
    if "n \<in> set (cfFiles cfg)" for n
    using read_files_lookup [OF rf, of n] that resolveData_keeps [OF d] by simp
  have look: "fmlookup (mcFiles s) (path_join dir n) = Some (go_get files n)" if "n \<in> set (cfFiles cfg)" for n
    using src [OF that] by (auto simp: go_get_def)
  note ok = sync_loop_ok [OF f(2)] and keep = readSource_keeps [OF r]
  show ?thesis
    using ok assms(2) keep look sync_loop_signals [OF f(2)] d
    by (simp add: plain_names_def list_all_iff list_ex_iff)
qed

text \<open>C17: what a successful Sync leaves: every copy has the bytes of the one published version that was
  read, and it reports a change exactly when some copy differed from it.\<close>

theorem Sync_copies_source:
  assumes "Sync cfg s = ((changed, None), s')" and "plain_names cfg"
  shows "let dir = fst (resolveData (cfSource cfg) s);
             source = (\<lambda>n. fmlookup (mcFiles s) (path_join dir n));
             copy = (\<lambda>m n. fmlookup (mcFiles m) (path_join (cfTarget cfg) n))
         in list_all (\<lambda>n. source n \<noteq> None \<and> copy s' n = source n) (cfFiles cfg) \<and>
            (changed \<longleftrightarrow> list_ex (\<lambda>n. copy s n \<noteq> source n) (cfFiles cfg)) \<and>
            mcSignals s' = mcSignals s"
  by (rule Sync_spec [OF assms])

subsection \<open>Rounds\<close>

text \<open>The shape of a round: the copy, the check of the pair, and then at most one signal.\<close>

definition wants_signal :: "config \<Rightarrow> round \<Rightarrow> bool \<times> go_error option \<Rightarrow> bool \<times> go_error option \<Rightarrow> bool" where
  "wants_signal cfg r copied checked \<longleftrightarrow>
     roPending r \<or> copied = (True, None) \<or> cfTLSDir cfg \<noteq> '''' \<and> checked = (True, None)"

lemma once_cases:
  assumes "once cr cfg r s = (r', s')"
  obtains copied checked s1 s2 where "Sync cfg s = (copied, s1)"
    and "if cfTLSDir cfg = '''' then s2 = s1 \<and> roTLS r' = roTLS r
         else checkTLS cr (cfTLSDir cfg) (roTLS r) s1 = ((checked, roTLS r'), s2)"
    and "if wants_signal cfg r copied checked \<and> (cfTLSDir cfg = '''' \<or> tsValid (roTLS r'))
         then \<exists>e. signal cfg s2 = (e, s') \<and> roPending r' = (e \<noteq> None)
         else s' = s2 \<and> roPending r' = wants_signal cfg r copied checked"
proof -
  obtain changed err s1 where sy: "Sync cfg s = ((changed, err), s1)" by (cases "Sync cfg s") auto
  define r1 where "r1 = (if err \<noteq> None then r else if changed then r\<lparr>roPending := True\<rparr> else r)"
  have r1: "roTLS r1 = roTLS r" "roPending r1 = (roPending r \<or> (changed, err) = (True, None))"
    by (auto simp: r1_def)
  obtain tc te st s2 where c: "checkTLS cr (cfTLSDir cfg) (roTLS r) s1 = (((tc, te), st), s2)"
    by (cases "checkTLS cr (cfTLSDir cfg) (roTLS r) s1") (metis surj_pair)
  show ?thesis
  proof (cases "cfTLSDir cfg = ''''")
    case True
    obtain e t where g: "signal cfg s1 = (e, t)" by (cases "signal cfg s1")
    have "once cr cfg r s =
        (if roPending r1 then (case e of Some _ \<Rightarrow> (r1, t) | None \<Rightarrow> (r1\<lparr>roPending := False\<rparr>, t)) else (r1, s1))"
      unfolding once_def sy Let_def prod.case r1_def [symmetric]
      by (simp only: True prod.case simp_thms if_False g)
    with assms have "(if roPending r1 then (case e of Some _ \<Rightarrow> (r1, t) | None \<Rightarrow> (r1\<lparr>roPending := False\<rparr>, t)) else (r1, s1)) = (r', s')"
      by simp
    then show ?thesis
      using r1 True g
      by (intro that [OF sy, of s1]) (auto simp: wants_signal_def split: if_splits option.splits)
  next
    case False
    obtain e t where g: "signal cfg s2 = (e, t)" by (cases "signal cfg s2")
    define r2 where "r2 = (if te \<noteq> None then r1\<lparr>roTLS := st\<rparr>
      else if tc then r1\<lparr>roTLS := st, roPending := True\<rparr> else r1\<lparr>roTLS := st\<rparr>)"
    have r2: "roTLS r2 = st" "roPending r2 = wants_signal cfg r (changed, err) (tc, te)"
      using False r1(2) by (auto simp: r2_def wants_signal_def)
    have ra: "(if te \<noteq> None then r1\<lparr>roTLS := st\<rparr> else if tc then r1\<lparr>roTLS := st\<rparr>\<lparr>roPending := True\<rparr> else r1\<lparr>roTLS := st\<rparr>) = r2"
      by (simp add: r2_def)
    have "once cr cfg r s = (if \<not> tsValid (roTLS r2) then (r2, s2) else if roPending r2
        then (case e of Some _ \<Rightarrow> (r2, t) | None \<Rightarrow> (r2\<lparr>roPending := False\<rparr>, t)) else (r2, s2))"
      unfolding once_def sy Let_def prod.case r1_def [symmetric] r1(1)
      by (simp only: False c ra prod.case not_False_eq_True if_True g)
    with assms r2(1) have out: "(if \<not> tsValid st then (r2, s2) else if roPending r2
        then (case e of Some _ \<Rightarrow> (r2, t) | None \<Rightarrow> (r2\<lparr>roPending := False\<rparr>, t)) else (r2, s2)) = (r', s')"
      by simp
    then have "roTLS r' = st" using r2(1) by (auto split: if_splits option.splits)
    then show ?thesis
      using out r2 False c g
      by (intro that [OF sy, of s2 "(tc, te)"]) (auto split: if_splits option.splits)
  qed
qed

lemma Sync_keeps:
  assumes "Sync cfg s = (res, t)"
  shows "mcSignals t = mcSignals s \<and> mcProcesses t = mcProcesses s"
proof (cases "readSource cfg s")
  case (Pair r u)
  from assms Pair have "(case r of Inl e \<Rightarrow> ((False, Some e), u) | Inr files \<Rightarrow> sync_loop cfg files (cfFiles cfg) False u) = (res, t)"
    by (simp add: Sync_def)
  then show ?thesis
    using readSource_keeps [OF Pair] sync_loop_signals by (cases r) fastforce+
qed

lemma readTLS_keeps:
  assumes "readTLS dir s = (res, t)"
  shows "mcSignals t = mcSignals s \<and> mcProcesses t = mcProcesses s \<and> mcFiles t = mcFiles s"
proof -
  obtain base u where b: "resolveData dir s = (base, u)" by (cases "resolveData dir s")
  obtain r v where r: "os_read_file (path_join base tlsCertFile) u = (r, v)"
    by (cases "os_read_file (path_join base tlsCertFile) u")
  obtain k w where k: "os_read_file (path_join base tlsKeyFile) v = (k, w)"
    by (cases "os_read_file (path_join base tlsKeyFile) v")
  have "t = v \<or> t = w" using assms b r k by (cases r; cases k) (auto simp: readTLS_def)
  then show ?thesis using resolveData_keeps [OF b] os_read_file_res(1-4) [OF r] os_read_file_res(1-4) [OF k] by auto
qed

lemma checkTLS_keeps:
  assumes "checkTLS cr dir st s = (res, t)"
  shows "mcSignals t = mcSignals s \<and> mcProcesses t = mcProcesses s \<and> mcFiles t = mcFiles s"
proof (cases "readTLS dir s")
  case (Pair r u)
  then show ?thesis
    using assms readTLS_keeps [OF Pair] by (auto simp: checkTLS_def Let_def split: prod.splits if_splits)
qed

lemma signal_cases:
  assumes "signal cfg s = (e, t)"
  shows "if e = None then \<exists>pid. find_process (cfProcess cfg) (mcProcesses s) = Some pid \<and> mcSignals t = mcSignals s @ [pid]
    else mcSignals t = mcSignals s"
  using assms unfolding signal_def FindProcess_def
  by (cases "next_fault s"; cases "next_fault (snd (next_fault s))")
    (auto simp: next_fault_keeps split: option.splits if_splits)

lemma signal_files: "signal cfg s = (e, t) \<Longrightarrow> mcFiles t = mcFiles s"
  unfolding signal_def FindProcess_def
  by (cases "next_fault s"; cases "next_fault (snd (next_fault s))")
    (auto simp: next_fault_keeps split: option.splits if_splits)

lemma find_process_named:
  "find_process name entries = Some pid \<Longrightarrow> 0 < pid \<and>
     (\<exists>e \<in> set entries. go_atoi (peName e) = Some pid \<and> map_option trim_space (peComm e) = Some name)"
  by (induction entries) (auto split: option.splits if_splits)

text \<open>The bytes a round sees of the mounted pair: both empty when one cannot be read.\<close>

definition seen_pair :: "config \<Rightarrow> machine \<Rightarrow> string \<times> string" where
  "seen_pair cfg s = (case fst (readTLS (cfTLSDir cfg) (snd (Sync cfg s))) of Inl _ \<Rightarrow> ('''', '''') | Inr p \<Rightarrow> p)"

text \<open>A pair the state calls valid has the sums of one that was checked.\<close>

definition tls_checked :: "crypto_lib \<Rightarrow> tls_state \<Rightarrow> bool" where
  "tls_checked cr st \<longleftrightarrow> (tsValid st \<longrightarrow> (\<exists>crt key. crKeyPair cr crt key = None \<and>
     crSum256 cr crt = tsCrt st \<and> crSum256 cr key = tsKey st))"

lemma checkTLS_checked:
  assumes "checkTLS cr dir st s = (res, t)" and "res = (out, st')" and "tls_checked cr st"
    and "p = (case fst (readTLS dir s) of Inl _ \<Rightarrow> ('''', '''') | Inr p \<Rightarrow> p)"
  shows "tls_checked cr st' \<and> tsCrt st' = crSum256 cr (fst p) \<and> tsKey st' = crSum256 cr (snd p)"
proof (cases "readTLS dir s")
  case (Pair r u)
  then show ?thesis
    using assms by (cases r; auto simp: checkTLS_def tls_checked_def Let_def split: if_splits; blast)
qed

lemma run_checked: "run cr cfg r s \<Longrightarrow> tls_checked cr (roTLS r)"
proof (induction rule: run.induct)
  case (start s)
  then show ?case by (simp add: new_round_def tls_checked_def)
next
  case (poll r s r' s')
  from poll.hyps(2) show ?case
    by (rule once_cases)
      (use poll.IH checkTLS_checked [OF _ refl _ refl] in \<open>auto split: if_splits\<close>)
qed assumption

text \<open>C4: the safety of the signal: a round sends at most one, to a process that has the broker's name; with
  a TLS mount, only when the bytes it read of the pair have the sums of a pair that was checked to belong
  together, so a SIGHUP never makes the broker load a broken certificate.\<close>

theorem signal_only_with_valid_pair:
  assumes "run cr cfg r s" and "once cr cfg r s = (r', s')" and "mcSignals s' \<noteq> mcSignals s"
  shows "(\<exists>pid. mcSignals s' = mcSignals s @ [pid] \<and> 0 < pid \<and>
      list_ex (\<lambda>e. go_atoi (peName e) = Some pid \<and> map_option trim_space (peComm e) = Some (cfProcess cfg)) (mcProcesses s)) \<and>
    \<not> roPending r' \<and>
    (cfTLSDir cfg \<noteq> '''' \<longrightarrow> (\<exists>crt key. crKeyPair cr crt key = None \<and>
       crSum256 cr crt = crSum256 cr (fst (seen_pair cfg s)) \<and> crSum256 cr key = crSum256 cr (snd (seen_pair cfg s))))"
  using assms(2)
proof (rule once_cases)
  fix copied checked s1 s2
  assume sy: "Sync cfg s = (copied, s1)"
    and tl: "if cfTLSDir cfg = '''' then s2 = s1 \<and> roTLS r' = roTLS r
         else checkTLS cr (cfTLSDir cfg) (roTLS r) s1 = ((checked, roTLS r'), s2)"
    and go: "if wants_signal cfg r copied checked \<and> (cfTLSDir cfg = '''' \<or> tsValid (roTLS r'))
         then \<exists>e. signal cfg s2 = (e, s') \<and> roPending r' = (e \<noteq> None)
         else s' = s2 \<and> roPending r' = wants_signal cfg r copied checked"
  have keep: "mcSignals s2 = mcSignals s" "mcProcesses s2 = mcProcesses s"
    using Sync_keeps [OF sy] tl checkTLS_keeps by (auto split: if_splits)
  with go assms(3) obtain e where e: "signal cfg s2 = (e, s')" "roPending r' = (e \<noteq> None)"
    and ok: "cfTLSDir cfg = '''' \<or> tsValid (roTLS r')" by (auto split: if_splits)
  have "e = None" using signal_cases [OF e(1)] assms(3) keep by (auto split: if_splits)
  then obtain pid where pid: "find_process (cfProcess cfg) (mcProcesses s2) = Some pid" "mcSignals s' = mcSignals s2 @ [pid]"
    using signal_cases [OF e(1)] by auto
  have "\<exists>crt key. crKeyPair cr crt key = None \<and>
       crSum256 cr crt = crSum256 cr (fst (seen_pair cfg s)) \<and> crSum256 cr key = crSum256 cr (snd (seen_pair cfg s))"
    if tls: "cfTLSDir cfg \<noteq> ''''"
  proof -
    have "checkTLS cr (cfTLSDir cfg) (roTLS r) s1 = ((checked, roTLS r'), s2)" using tl that by simp
    note c = checkTLS_checked [OF this refl run_checked [OF assms(1)] refl]
    then obtain crt key where k: "crKeyPair cr crt key = None" "crSum256 cr crt = tsCrt (roTLS r')"
      "crSum256 cr key = tsKey (roTLS r')"
      using ok tls unfolding tls_checked_def by auto
    show ?thesis
      by (rule exI [of _ crt], rule exI [of _ key]) (use c k sy in \<open>simp add: seen_pair_def\<close>)
  qed
  then show ?thesis
    using pid keep find_process_named [OF pid(1)] e(2) \<open>e = None\<close> by (simp add: list_ex_iff)
qed

text \<open>C14: no round loses a signal that is owed. A signal that was pending, or a change that this round's copy
  reported when it succeeded, is signalled in this round or is still pending after it, whichever of the
  later calls fail: the check of the certificate, the search for the broker, the signal itself. A change
  whose copy failed half-way is not owed.\<close>

theorem owed_signal_kept:
  assumes "once cr cfg r s = (r', s')" and "roPending r \<or> fst (Sync cfg s) = (True, None)"
  shows "(\<exists>pid. mcSignals s' = mcSignals s @ [pid]) \<and> \<not> roPending r' \<or> mcSignals s' = mcSignals s \<and> roPending r'"
  using assms(1)
proof (rule once_cases)
  fix copied checked s1 s2
  assume sy: "Sync cfg s = (copied, s1)"
    and tl: "if cfTLSDir cfg = '''' then s2 = s1 \<and> roTLS r' = roTLS r
         else checkTLS cr (cfTLSDir cfg) (roTLS r) s1 = ((checked, roTLS r'), s2)"
    and go: "if wants_signal cfg r copied checked \<and> (cfTLSDir cfg = '''' \<or> tsValid (roTLS r'))
         then \<exists>e. signal cfg s2 = (e, s') \<and> roPending r' = (e \<noteq> None)
         else s' = s2 \<and> roPending r' = wants_signal cfg r copied checked"
  have w: "wants_signal cfg r copied checked" using assms(2) sy by (auto simp: wants_signal_def)
  have keep: "mcSignals s2 = mcSignals s"
    using Sync_keeps [OF sy] tl checkTLS_keeps by (auto split: if_splits)
  show ?thesis
  proof (cases "cfTLSDir cfg = '''' \<or> tsValid (roTLS r')")
    case True
    then obtain e where "signal cfg s2 = (e, s')" "roPending r' = (e \<noteq> None)" using go w by auto
    then show ?thesis using signal_cases keep by (cases e) fastforce+
  next
    case False
    then show ?thesis using go w keep by simp
  qed
qed

text \<open>Without faults.\<close>

lemma no_fault_next: "mcFaults s = [] \<Longrightarrow> next_fault s = (None, s)"
  by (simp add: next_fault_def)

lemma no_fault_read: "os_read_file p s = (r, t) \<Longrightarrow> mcFaults s = [] \<Longrightarrow> mcFaults t = []"
  by (auto simp: os_read_file_def no_fault_next split: option.splits)

lemma no_fault_resolve: "resolveData d s = (r, t) \<Longrightarrow> mcFaults s = [] \<Longrightarrow> mcFaults t = []"
  by (auto simp: resolveData_def os_readlink_def no_fault_next split: option.splits if_splits)

lemma no_fault_read_files: "read_files d ns files s = (r, t) \<Longrightarrow> mcFaults s = [] \<Longrightarrow> mcFaults t = []"
proof (induction ns arbitrary: files s)
  case (Cons n ns)
  obtain x u where "os_read_file (path_join d n) s = (x, u)" by (cases "os_read_file (path_join d n) s")
  then show ?case using Cons no_fault_read by (cases x) fastforce+
qed simp

lemma no_fault_write: "writeAtomic d n x s = (r, t) \<Longrightarrow> mcFaults s = [] \<Longrightarrow> mcFaults t = []"
  by (auto simp: writeAtomic_def os_create_temp_def os_write_def os_touch_def os_rename_def os_remove_def
      no_fault_next Let_def split: option.splits)

lemma no_fault_loop: "sync_loop cfg files ns ch s = (r, t) \<Longrightarrow> mcFaults s = [] \<Longrightarrow> mcFaults t = []"
proof (induction ns arbitrary: ch s)
  case (Cons n ns)
  obtain x u where x: "os_read_file (path_join (cfTarget cfg) n) s = (x, u)"
    by (cases "os_read_file (path_join (cfTarget cfg) n) s")
  obtain e v where w: "writeAtomic (cfTarget cfg) n (go_get files n) u = (e, v)"
    by (cases "writeAtomic (cfTarget cfg) n (go_get files n) u")
  have "mcFaults u = []" "mcFaults v = []"
    using no_fault_read [OF x Cons.prems(2)] no_fault_write [OF w] by simp_all
  then show ?case
    using Cons.IH Cons.prems(1) x w by (auto split: sum.splits file_error.splits option.splits if_splits)
qed simp

lemma no_fault_sync:
  assumes "Sync cfg s = (r, t)" and "mcFaults s = []"
  shows "mcFaults t = []"
proof -
  obtain d u where d: "resolveData (cfSource cfg) s = (d, u)" by (cases "resolveData (cfSource cfg) s")
  obtain x v where x: "read_files d (cfFiles cfg) fmempty u = (x, v)" by (cases "read_files d (cfFiles cfg) fmempty u")
  have "mcFaults v = []" using no_fault_read_files [OF x] no_fault_resolve [OF d assms(2)] by simp
  then show ?thesis
    using assms(1) d x no_fault_loop by (cases x) (auto simp: Sync_def readSource_def)
qed

lemma no_fault_check:
  assumes "checkTLS cr dir st s = (res, t)" and "mcFaults s = []"
  shows "mcFaults t = []"
proof -
  obtain base u where b: "resolveData dir s = (base, u)" by (cases "resolveData dir s")
  obtain r v where r: "os_read_file (path_join base tlsCertFile) u = (r, v)"
    by (cases "os_read_file (path_join base tlsCertFile) u")
  obtain k w where k: "os_read_file (path_join base tlsKeyFile) v = (k, w)"
    by (cases "os_read_file (path_join base tlsKeyFile) v")
  have f: "mcFaults u = []" "mcFaults v = []" "mcFaults w = []"
    using no_fault_resolve [OF b assms(2)] no_fault_read [OF r] no_fault_read [OF k] by simp_all
  have "snd (readTLS dir s) = v \<or> snd (readTLS dir s) = w" using b r k by (cases r; cases k) (simp_all add: readTLS_def)
  moreover have "t = snd (readTLS dir s)"
    using assms(1) by (cases "readTLS dir s") (auto simp: checkTLS_def Let_def split: prod.splits if_splits)
  ultimately show ?thesis using f by auto
qed

lemma round_signals:
  assumes "once cr cfg r s = (r', s')" and "roPending r \<or> fst (Sync cfg s) = (True, None)"
    and "mcFaults s = []" and "find_process (cfProcess cfg) (mcProcesses s) = Some pid"
    and "cfTLSDir cfg = '''' \<or> tsValid (roTLS r')"
  shows "mcSignals s' = mcSignals s @ [pid] \<and> \<not> roPending r'"
  using assms(1)
proof (rule once_cases)
  fix copied checked s1 s2
  assume sy: "Sync cfg s = (copied, s1)"
    and tl: "if cfTLSDir cfg = '''' then s2 = s1 \<and> roTLS r' = roTLS r
         else checkTLS cr (cfTLSDir cfg) (roTLS r) s1 = ((checked, roTLS r'), s2)"
    and go: "if wants_signal cfg r copied checked \<and> (cfTLSDir cfg = '''' \<or> tsValid (roTLS r'))
         then \<exists>e. signal cfg s2 = (e, s') \<and> roPending r' = (e \<noteq> None)
         else s' = s2 \<and> roPending r' = wants_signal cfg r copied checked"
  have w: "wants_signal cfg r copied checked" using assms(2) sy by (auto simp: wants_signal_def)
  have keep: "mcSignals s2 = mcSignals s" "mcProcesses s2 = mcProcesses s" "mcFaults s2 = []"
    using Sync_keeps [OF sy] no_fault_sync [OF sy assms(3)] tl checkTLS_keeps no_fault_check
    by (auto split: if_splits)
  then have "signal cfg s2 = (None, s2\<lparr>mcSignals := mcSignals s2 @ [pid]\<rparr>)"
    using assms(4) by (simp add: signal_def FindProcess_def no_fault_next)
  then show ?thesis using go w assms(5) keep by auto
qed

lemma once_tls:
  assumes "once cr cfg r s = (r', s')" and "cfTLSDir cfg \<noteq> []"
  shows "roTLS r' = snd (fst (checkTLS cr (cfTLSDir cfg) (roTLS r) (snd (Sync cfg s))))"
  using assms(1) by (rule once_cases) (use assms(2) in auto)

text \<open>C23: the signal is sent. A round in which no call fails, with the broker running and its pair valid (or no
  TLS), signals what is pending and what it copied in.\<close>

theorem round_signals_change:
  assumes "once cr cfg r s = (r', s')" and "roPending r \<or> fst (Sync cfg s) = (True, None)"
    and "mcFaults s = []" and "find_process (cfProcess cfg) (mcProcesses s) = Some pid"
    and "cfTLSDir cfg = '''' \<or> tsValid (roTLS r')"
  shows "mcSignals s' = mcSignals s @ [pid] \<and> \<not> roPending r'"
  by (rule round_signals [OF assms])

text \<open>C28: a round whose copying fails drops the change it made. When \<open>Sync\<close> reports an error and no signal was
  owed before, the files copied before the failure stay copied, but whether anything had changed is forgotten: the
  round sends or owes a signal exactly when its check of the TLS pair asks for one, and none at all without TLS.\<close>

theorem failed_copy_drops_change:
  assumes "once cr cfg r s = (r', s')" and "fst (Sync cfg s) = (changed, Some e)" and "\<not> roPending r"
  shows "(mcSignals s' \<noteq> mcSignals s \<or> roPending r') =
      (cfTLSDir cfg \<noteq> [] \<and>
       fst (fst (checkTLS cr (cfTLSDir cfg) (roTLS r) (snd (Sync cfg s)))) = (True, None)) \<and>
    mcFiles s' = mcFiles (snd (Sync cfg s)) \<and> (cfTLSDir cfg = [] \<longrightarrow> s' = snd (Sync cfg s))"
  using assms(1)
proof (rule once_cases)
  fix copied checked s1 s2
  assume sy: "Sync cfg s = (copied, s1)"
    and tl: "if cfTLSDir cfg = [] then s2 = s1 \<and> roTLS r' = roTLS r
         else checkTLS cr (cfTLSDir cfg) (roTLS r) s1 = ((checked, roTLS r'), s2)"
    and go: "if wants_signal cfg r copied checked \<and> (cfTLSDir cfg = [] \<or> tsValid (roTLS r'))
         then \<exists>e. signal cfg s2 = (e, s') \<and> roPending r' = (e \<noteq> None)
         else s' = s2 \<and> roPending r' = wants_signal cfg r copied checked"
  have w: "wants_signal cfg r copied checked \<longleftrightarrow> cfTLSDir cfg \<noteq> [] \<and> checked = (True, None)"
    using assms(2,3) sy by (cases checked) (auto simp: wants_signal_def)
  have keep: "mcSignals s2 = mcSignals s" "mcFiles s2 = mcFiles s1"
    using Sync_keeps [OF sy] tl checkTLS_keeps by (auto split: if_splits)
  show ?thesis
  proof (cases "wants_signal cfg r copied checked \<and> (cfTLSDir cfg = [] \<or> tsValid (roTLS r'))")
    case True
    then obtain e where e: "signal cfg s2 = (e, s')" "roPending r' = (e \<noteq> None)" using go by auto
    have sent: "mcSignals s' \<noteq> mcSignals s \<or> roPending r'" using signal_cases [OF e(1)] e(2) keep by (cases e) auto
    have tls: "cfTLSDir cfg \<noteq> []" "checked = (True, None)" using True w by simp_all
    have "checkTLS cr (cfTLSDir cfg) (roTLS r) s1 = ((checked, roTLS r'), s2)" using tl tls(1) by simp
    then show ?thesis using sent tls keep(2) signal_files [OF e(1)] by (simp add: sy)
  next
    case False
    then have rest: "s' = s2" "roPending r' = wants_signal cfg r copied checked" using go by simp_all
    show ?thesis
    proof (cases "cfTLSDir cfg = []")
      case True
      then show ?thesis using rest w tl keep sy by simp
    next
      case False
      then have "checkTLS cr (cfTLSDir cfg) (roTLS r) s1 = ((checked, roTLS r'), s2)" using tl by simp
      then show ?thesis using False rest w keep by (simp add: sy)
    qed
  qed
qed

subsection \<open>A pod\<close>

definition sample_config :: config where
  "sample_config = \<lparr>cfSource = ''s'', cfTarget = ''t'', cfFiles = [''p'', ''a''],
     cfProcess = ''m'', cfProcRoot = ''/proc'', cfTLSDir = ''c''\<rparr>"

definition sample_crypto :: crypto_lib where
  "sample_crypto = \<lparr>crSum256 = (\<lambda>x. x),
     crKeyPair = (\<lambda>crt key. if crt \<noteq> '''' \<and> crt = key then None else Some ''mismatch'')\<rparr>"

definition sample_machine :: "strmap \<Rightarrow> (go_error \<times> nat) option list \<Rightarrow> machine" where
  "sample_machine copies faults = \<lparr>
     mcFiles = fmap_of_list [(''s/v/p'', ''new''), (''s/v/a'', ''acl''),
       (''c/tls.crt'', ''x''), (''c/tls.key'', ''x'')] ++\<^sub>f copies,
     mcLinks = fmap_of_list [(''s/..data'', ''v'')],
     mcProcesses = [\<lparr>peName = ''self'', peComm = None\<rparr>, \<lparr>peName = ''7'', peComm = Some ''m''\<rparr>],
     mcSignals = [], mcFaults = faults, mcHistory = []\<rparr>"

definition old_copies :: strmap where
  "old_copies = fmap_of_list [(''t/p'', ''old''), (''t/a'', ''acl'')]"

lemma sample_plain_names: "plain_names sample_config"
  by (simp add: plain_names_def sample_config_def has_prefix_def)

lemma sample_process_name: "trim_space ''m'' = ''m''"
  by (simp add: ascii_eval)

lemma sample_broker_pid:
  "find_process (cfProcess sample_config) (mcProcesses (sample_machine copies faults)) = Some 7"
  by (simp add: sample_config_def sample_machine_def go_atoi_def has_prefix_def digits_value_def is_digit_def
      sample_process_name Let_def)

lemma sample_sync: "fst (Sync sample_config (sample_machine old_copies [])) = (True, None)"
  by code_simp

lemma sample_tls_valid:
  "tsValid (snd (fst (checkTLS sample_crypto (cfTLSDir sample_config) (roTLS new_round)
     (snd (Sync sample_config (sample_machine old_copies []))))))"
  by code_simp

lemma sample_round:
  assumes "once sample_crypto sample_config new_round (sample_machine old_copies []) = (r', s')"
  shows "mcSignals s' = [7]" and "\<not> roPending r'" and "cfTLSDir sample_config = [] \<or> tsValid (roTLS r')"
proof -
  have no: "mcFaults (sample_machine old_copies []) = []" "mcSignals (sample_machine old_copies []) = []"
    by (simp_all add: sample_machine_def)
  have "cfTLSDir sample_config \<noteq> []" by (simp add: sample_config_def)
  from once_tls [OF assms this] sample_tls_valid show v: "cfTLSDir sample_config = [] \<or> tsValid (roTLS r')" by simp
  from round_signals [OF assms disjI2 [OF sample_sync] no(1) sample_broker_pid v]
  show "mcSignals s' = [7]" "\<not> roPending r'" using no(2) by simp_all
qed

text \<open>
  The password file is copied, then reading the copy of the other file fails. The next round finds
  nothing to copy.
\<close>

definition half_config :: config where
  "half_config = sample_config\<lparr>cfTLSDir := ''''\<rparr>"

definition half_failing :: machine where
  "half_failing = sample_machine old_copies (replicate 10 None @ [Some (''eio'', 0)])"

lemma half_sync:
  "snd (fst (Sync half_config half_failing)) \<noteq> None \<and>
   fmlookup (mcFiles (snd (Sync half_config half_failing))) ''t/p'' = Some ''new'' \<and>
   fst (Sync half_config (snd (Sync half_config half_failing))) = (False, None)"
  by code_simp

theorem failed_copy_drops_change_witness:
  "\<exists>r' s'. once sample_crypto half_config new_round half_failing = (r', s') \<and>
     fmlookup (mcFiles s') ''t/p'' = Some ''new'' \<and> mcSignals s' = [] \<and> \<not> roPending r' \<and>
     fst (Sync half_config s') = (False, None)"
proof -
  obtain r' s' where o: "once sample_crypto half_config new_round half_failing = (r', s')"
    by (cases "once sample_crypto half_config new_round half_failing")
  obtain changed e where "fst (Sync half_config half_failing) = (changed, Some e)"
    using half_sync by (cases "fst (Sync half_config half_failing)") auto
  moreover have tls: "\<not> roPending new_round" "cfTLSDir half_config = ''''" "mcSignals half_failing = []"
    by (simp_all add: new_round_def half_config_def half_failing_def sample_machine_def)
  ultimately show ?thesis
    using failed_copy_drops_change [OF o] o half_sync by (simp only: prod.inject) auto
qed

subsection \<open>The theorems on the pod\<close>

theorem copy_is_atomic_witness:
  "fmlookup (mcFiles (snd (writeAtomic ''t'' ''p'' ''new'' (sample_machine old_copies [None, Some (''full'', 2)])))) ''t/p''
     = Some ''old''"
proof -
  obtain err s' where w: "writeAtomic ''t'' ''p'' ''new'' (sample_machine old_copies [None, Some (''full'', 2)]) = (err, s')"
    by (cases "writeAtomic ''t'' ''p'' ''new'' (sample_machine old_copies [None, Some (''full'', 2)])")
  have "fst (writeAtomic ''t'' ''p'' ''new'' (sample_machine old_copies [None, Some (''full'', 2)])) \<noteq> None"
    by code_simp
  moreover have "fmlookup (mcFiles (sample_machine old_copies [None, Some (''full'', 2)])) (path_join ''t'' ''p'') = Some ''old''"
    by code_simp
  ultimately show ?thesis using copy_is_atomic [OF w] w by (simp add: path_join_def)
qed

theorem Sync_copies_source_witness:
  "fmlookup (mcFiles (snd (Sync sample_config (sample_machine old_copies [])))) ''t/p'' = Some ''new''"
proof -
  obtain s' where s: "Sync sample_config (sample_machine old_copies []) = ((True, None), s')"
    using sample_sync by (cases "Sync sample_config (sample_machine old_copies [])") auto
  have "resolveData (cfSource sample_config) (sample_machine old_copies []) = (''s/v'', sample_machine old_copies [])"
    by (simp add: resolveData_def os_readlink_def next_fault_def sample_config_def sample_machine_def
        path_join_def dataLink_def has_prefix_def)
  moreover have "fmlookup (mcFiles (sample_machine old_copies [])) ''s/v/p'' = Some ''new''"
    by code_simp
  ultimately show ?thesis
    using Sync_copies_source [OF s sample_plain_names] s by (simp add: sample_config_def path_join_def)
qed

theorem signal_only_with_valid_pair_witness:
  "\<exists>r' s' crt key. once sample_crypto sample_config new_round (sample_machine old_copies []) = (r', s') \<and>
     mcSignals s' = [7] \<and> crKeyPair sample_crypto crt key = None"
proof -
  obtain r' s' where o: "once sample_crypto sample_config new_round (sample_machine old_copies []) = (r', s')"
    by (cases "once sample_crypto sample_config new_round (sample_machine old_copies [])")
  note m = sample_round [OF o]
  have "mcSignals s' \<noteq> mcSignals (sample_machine old_copies [])" using m(1) by (simp add: sample_machine_def)
  from signal_only_with_valid_pair [OF run.start o this] o m(1) show ?thesis
    by (auto simp: sample_config_def)
qed

theorem owed_signal_kept_witness:
  "\<exists>r' s'. once sample_crypto sample_config (new_round\<lparr>roPending := True\<rparr>) (sample_machine fmempty [Some (''eio'', 0)]) = (r', s') \<and>
     ((\<exists>pid. mcSignals s' = [pid]) \<and> \<not> roPending r' \<or> mcSignals s' = [] \<and> roPending r')"
proof -
  let ?m = "sample_machine fmempty [Some (''eio'', 0)]"
  obtain r' s' where o: "once sample_crypto sample_config (new_round\<lparr>roPending := True\<rparr>) ?m = (r', s')"
    by (cases "once sample_crypto sample_config (new_round\<lparr>roPending := True\<rparr>) ?m")
  have "roPending (new_round\<lparr>roPending := True\<rparr>) \<or> fst (Sync sample_config ?m) = (True, None)" by simp
  from owed_signal_kept [OF o this] o show ?thesis by (simp add: sample_machine_def)
qed

theorem round_signals_change_witness:
  "\<exists>r' s'. once sample_crypto sample_config new_round (sample_machine old_copies []) = (r', s') \<and> mcSignals s' = [7]"
proof -
  obtain r' s' where o: "once sample_crypto sample_config new_round (sample_machine old_copies []) = (r', s')"
    by (cases "once sample_crypto sample_config new_round (sample_machine old_copies [])")
  have no: "mcFaults (sample_machine old_copies []) = []" "mcSignals (sample_machine old_copies []) = []"
    by (simp_all add: sample_machine_def)
  from round_signals_change [OF o disjI2 [OF sample_sync] no(1) sample_broker_pid sample_round(3) [OF o]] no(2) o
  show ?thesis by simp
qed

end
