(* ===== verification/Entry.thy ===== *)
theory Entry
  imports Reloader GoFlags
begin

section \<open>The reload entry point (internal/reloader/run.go)\<close>

text \<open>
  \<open>Main\<close>: the flags of "manager reload", the one copy of --once with its exit code, and the polling loop.
  Files are those of the pod; the loop itself is the relation \<open>run\<close> of the reloader's theory.
\<close>

definition reload_flags :: "(string \<times> flag_kind) list" where
  "reload_flags = [(''source'', StringFlag), (''target'', StringFlag), (''files'', StringFlag),
     (''process'', StringFlag), (''tls-dir'', StringFlag), (''once'', BoolFlag), (''interval'', DurationFlag)]"

definition reload_config :: "strmap \<Rightarrow> config" where
  "reload_config fs = \<lparr>
     cfSource = flag_or fs ''source'' ''/mosquitto/auth-secret'',
     cfTarget = flag_or fs ''target'' ''/mosquitto/auth'',
     cfFiles = go_split (CHR '','') (flag_or fs ''files'' ''passwd,acl''),
     cfProcess = flag_or fs ''process'' ''mosquitto'',
     cfProcRoot = ''/proc'',
     cfTLSDir = flag_or fs ''tls-dir'' ''''\<rparr>"

definition poll_interval :: "flag_lib \<Rightarrow> strmap \<Rightarrow> int" where
  "poll_interval lib fs = (case fmlookup fs ''interval'' of
       None \<Rightarrow> 2 * 1000000000
     | Some v \<Rightarrow> (case fgDuration lib v of None \<Rightarrow> 2 * 1000000000 | Some d \<Rightarrow> d))"

text \<open>
  How \<open>Main\<close> goes on: it returns an exit code, or it polls until it is terminated. A ticker with an
  interval that is not positive panics.
\<close>

datatype reload_mode =
    Exited int
  | Polling config int
  | Panicked

definition reload_main :: "flag_lib \<Rightarrow> string list \<Rightarrow> machine \<Rightarrow> reload_mode \<times> machine" where
  "reload_main lib args s =
     (case parse_flags lib reload_flags args fmempty of
        Inl _ \<Rightarrow> (Exited 2, s)
      | Inr fs \<Rightarrow>
          (let cfg = reload_config fs in
           if bool_flag fs ''once'' then (case once_main cfg s of (code, s) \<Rightarrow> (Exited code, s))
           else if poll_interval lib fs \<le> 0 then (Panicked, s)
           else (Polling cfg (poll_interval lib fs), s)))"

text \<open>C12: the init container says the truth. When the program runs with --once over distinct file names without a leading dot and exits
  with success, every file was in the source directory and its copy has the same bytes, whatever copies were
  there before; and whether it succeeds or fails, it never signals.\<close>

theorem auth_init_copies:
  assumes "parse_flags lib reload_flags args fmempty = Inr fs" and "bool_flag fs ''once''"
    and "plain_names (reload_config fs)" and "reload_main lib args s = (Exited code, s')"
  shows "(code = 0 \<longrightarrow> list_all (\<lambda>n.
        fmlookup (mcFiles s) (path_join (fst (resolveData (cfSource (reload_config fs)) s)) n) \<noteq> None \<and>
        fmlookup (mcFiles s') (path_join (cfTarget (reload_config fs)) n) =
          fmlookup (mcFiles s) (path_join (fst (resolveData (cfSource (reload_config fs)) s)) n))
      (cfFiles (reload_config fs))) \<and> mcSignals s' = mcSignals s"
proof -
  let ?cfg = "reload_config fs"
  obtain ch err t where sy: "Sync ?cfg s = ((ch, err), t)" by (cases "Sync ?cfg s") auto
  have m: "code = (if err \<noteq> None then 1 else 0)" "s' = t"
    using assms(1,2,4) sy by (auto simp: reload_main_def Let_def once_main_def)
  show ?thesis
  proof (cases err)
    case None
    then show ?thesis
      using Sync_spec [of ?cfg s ch t] sy assms(3) m by (simp add: Let_def list_all_iff)
  next
    case (Some e)
    then show ?thesis using m Sync_keeps [OF sy] by simp
  qed
qed

definition sample_flag_lib :: flag_lib where
  "sample_flag_lib = \<lparr>fgDuration = (\<lambda>_. None), fgInt = (\<lambda>_. None)\<rparr>"

definition sample_args :: "string list" where
  "sample_args = [''--once'', ''--source'', ''s'', ''--target'', ''t'', ''--files'', ''p,a'', ''--process'', ''m'', ''--tls-dir'', ''c'']"

definition sample_flags :: strmap where
  "sample_flags = fmupd ''tls-dir'' ''c'' (fmupd ''process'' ''m'' (fmupd ''files'' ''p,a'' (fmupd ''target'' ''t''
     (fmupd ''source'' ''s'' (fmupd ''once'' ''true'' fmempty)))))"

lemma sample_args_parse: "parse_flags lib reload_flags sample_args fmempty = Inr sample_flags"
  by (simp add: sample_args_def sample_flags_def reload_flags_def flag_value_ok_def flag_parts_def)

lemma sample_flags_config: "reload_config sample_flags = sample_config" "bool_flag sample_flags ''once''"
  by (simp_all add: reload_config_def sample_config_def sample_flags_def flag_or_def bool_flag_def parse_bool_def
      go_split_def)

theorem auth_init_copies_witness:
  "\<exists>s'. reload_main sample_flag_lib sample_args (sample_machine old_copies []) = (Exited 0, s') \<and>
     fmlookup (mcFiles s') ''t/p'' = Some ''new''"
proof -
  obtain t where sy: "Sync sample_config (sample_machine old_copies []) = ((True, None), t)"
    using sample_sync by (cases "Sync sample_config (sample_machine old_copies [])") auto
  have m: "reload_main sample_flag_lib sample_args (sample_machine old_copies []) = (Exited 0, t)"
    using sy by (simp add: reload_main_def sample_args_parse sample_flags_config Let_def once_main_def)
  have "resolveData (cfSource sample_config) (sample_machine old_copies []) = (''s/v'', sample_machine old_copies [])"
    by (simp add: resolveData_def os_readlink_def next_fault_def sample_config_def sample_machine_def
        path_join_def dataLink_def has_prefix_def)
  moreover have "fmlookup (mcFiles (sample_machine old_copies [])) ''s/v/p'' = Some ''new''"
    by (simp add: sample_machine_def old_copies_def)
  ultimately show ?thesis
    using auth_init_copies [OF sample_args_parse sample_flags_config(2) _ m] sample_plain_names m
    by (simp add: sample_flags_config(1)) (simp add: sample_config_def path_join_def)
qed

end
