(* ===== verification/Exporter.thy ===== *)
theory Exporter
  imports GoStrings
begin

section \<open>The metrics exporter (internal/exporter/mapping.go, collector.go)\<close>

text \<open>
  How a message of the broker's status tree becomes a sample (\<open>parse\<close>) and what the collector
  holds and serves (\<open>Observe\<close>, \<open>Connected\<close>, \<open>Lost\<close>, and \<open>CollectSeries\<close>, the Go \<open>Collect\<close>). The parser of floating-point
  numbers is a field of \<open>exporter_lib\<close>, over an abstract type of numbers, as are the checks the metrics
  library makes of a series name and a label value: \<open>MustNewConstMetric\<close> panics on one it refuses,
  and a scrape that panics is \<open>None\<close>. The order in which a scrape serves the series is that of a Go
  map, unspecified, and here that of the keys.
\<close>

datatype value_type = CounterValue | GaugeValue

record metric =
  mtName :: string
  mtHelp :: string
  mtKind :: value_type

record 'f sample =
  smMetric :: metric
  smLabel :: string
  smValue :: 'f

record 'f exporter_lib =
  flParse :: "string \<Rightarrow> 'f option"
  flZero :: 'f
  flOne :: 'f
  flNameOk :: "string \<Rightarrow> bool"
  flLabelOk :: "string \<Rightarrow> bool"

definition sysPrefix :: string where "sysPrefix = ''$SYS/broker/''"
definition versionMetricName :: string where "versionMetricName = ''mosquitto_version_info''"
definition loadMetricPrefix :: string where "loadMetricPrefix = ''mosquitto_load_''"
definition loadWindows :: "string list" where "loadWindows = [''1min'', ''5min'', ''15min'']"

definition table :: "(string \<times> metric) list" where
  "table = [
     (''bytes/received'', \<lparr>mtName = ''mosquitto_bytes_received_total'',
       mtHelp = ''Bytes received since the broker started.'', mtKind = CounterValue\<rparr>),
     (''bytes/sent'', \<lparr>mtName = ''mosquitto_bytes_sent_total'',
       mtHelp = ''Bytes sent since the broker started.'', mtKind = CounterValue\<rparr>),
     (''clients/active'', \<lparr>mtName = ''mosquitto_clients_active'',
       mtHelp = ''Connected clients.'', mtKind = GaugeValue\<rparr>),
     (''clients/connected'', \<lparr>mtName = ''mosquitto_clients_connected'',
       mtHelp = ''Connected clients.'', mtKind = GaugeValue\<rparr>),
     (''clients/disconnected'', \<lparr>mtName = ''mosquitto_clients_disconnected'',
       mtHelp = ''Persistent clients that are disconnected.'', mtKind = GaugeValue\<rparr>),
     (''clients/expired'', \<lparr>mtName = ''mosquitto_clients_expired'',
       mtHelp = ''Persistent clients expired and removed.'', mtKind = GaugeValue\<rparr>),
     (''clients/inactive'', \<lparr>mtName = ''mosquitto_clients_inactive'',
       mtHelp = ''Persistent clients that are disconnected.'', mtKind = GaugeValue\<rparr>),
     (''clients/maximum'', \<lparr>mtName = ''mosquitto_clients_maximum'',
       mtHelp = ''The most clients connected at once (Mosquitto 2.0).'', mtKind = GaugeValue\<rparr>),
     (''clients/total'', \<lparr>mtName = ''mosquitto_clients_total'',
       mtHelp = ''Connected and disconnected persistent clients.'', mtKind = GaugeValue\<rparr>),
     (''connections/socket/count'', \<lparr>mtName = ''mosquitto_connections_socket_count'',
       mtHelp = ''Open sockets.'', mtKind = GaugeValue\<rparr>),
     (''heap/current'', \<lparr>mtName = ''mosquitto_heap_current_bytes'',
       mtHelp = ''Heap memory in use.'', mtKind = GaugeValue\<rparr>),
     (''heap/maximum'', \<lparr>mtName = ''mosquitto_heap_maximum_bytes'',
       mtHelp = ''The most heap memory in use since the broker started.'', mtKind = GaugeValue\<rparr>),
     (''messages/received'', \<lparr>mtName = ''mosquitto_messages_received_total'',
       mtHelp = ''MQTT packets of any type received since the broker started.'', mtKind = CounterValue\<rparr>),
     (''messages/sent'', \<lparr>mtName = ''mosquitto_messages_sent_total'',
       mtHelp = ''MQTT packets of any type sent since the broker started.'', mtKind = CounterValue\<rparr>),
     (''messages/stored'', \<lparr>mtName = ''mosquitto_messages_stored'',
       mtHelp = ''Messages held in the message store.'', mtKind = GaugeValue\<rparr>),
     (''packet/out/bytes'', \<lparr>mtName = ''mosquitto_packet_out_bytes'',
       mtHelp = ''Bytes of outgoing packets queued.'', mtKind = GaugeValue\<rparr>),
     (''packet/out/count'', \<lparr>mtName = ''mosquitto_packet_out_count'',
       mtHelp = ''Outgoing packets queued.'', mtKind = GaugeValue\<rparr>),
     (''publish/bytes/received'', \<lparr>mtName = ''mosquitto_publish_bytes_received_total'',
       mtHelp = ''PUBLISH payload bytes received since the broker started.'', mtKind = CounterValue\<rparr>),
     (''publish/bytes/sent'', \<lparr>mtName = ''mosquitto_publish_bytes_sent_total'',
       mtHelp = ''PUBLISH payload bytes sent since the broker started.'', mtKind = CounterValue\<rparr>),
     (''publish/messages/dropped'', \<lparr>mtName = ''mosquitto_publish_messages_dropped_total'',
       mtHelp = ''PUBLISH messages dropped since the broker started.'', mtKind = CounterValue\<rparr>),
     (''publish/messages/received'', \<lparr>mtName = ''mosquitto_publish_messages_received_total'',
       mtHelp = ''PUBLISH messages received since the broker started.'', mtKind = CounterValue\<rparr>),
     (''publish/messages/sent'', \<lparr>mtName = ''mosquitto_publish_messages_sent_total'',
       mtHelp = ''PUBLISH messages sent since the broker started.'', mtKind = CounterValue\<rparr>),
     (''retained messages/count'', \<lparr>mtName = ''mosquitto_retained_messages'',
       mtHelp = ''Retained messages.'', mtKind = GaugeValue\<rparr>),
     (''shared_subscriptions/count'', \<lparr>mtName = ''mosquitto_shared_subscriptions'',
       mtHelp = ''Shared subscriptions.'', mtKind = GaugeValue\<rparr>),
     (''store/messages/bytes'', \<lparr>mtName = ''mosquitto_store_messages_bytes'',
       mtHelp = ''Payload bytes held in the message store.'', mtKind = GaugeValue\<rparr>),
     (''store/messages/count'', \<lparr>mtName = ''mosquitto_store_messages'',
       mtHelp = ''Messages held in the message store.'', mtKind = GaugeValue\<rparr>),
     (''subscriptions/count'', \<lparr>mtName = ''mosquitto_subscriptions'',
       mtHelp = ''Subscriptions.'', mtKind = GaugeValue\<rparr>),
     (''uptime'', \<lparr>mtName = ''mosquitto_uptime_seconds'',
       mtHelp = ''Seconds since the broker started.'', mtKind = GaugeValue\<rparr>)]"

definition version_metric :: metric where
  "version_metric = \<lparr>mtName = versionMetricName, mtHelp = ''The broker version, as the label version.'',
     mtKind = GaugeValue\<rparr>"

definition load_metric :: "string \<Rightarrow> metric" where
  "load_metric name = \<lparr>mtName = name,
     mtHelp = ''Moving average per minute over the window in the label window.'', mtKind = GaugeValue\<rparr>"

definition slash_to_underscore :: "string \<Rightarrow> string" where
  "slash_to_underscore s = map (\<lambda>c. if c = CHR ''/'' then CHR ''_'' else c) s"

definition parse :: "'f exporter_lib \<Rightarrow> string \<Rightarrow> string \<Rightarrow> 'f sample option" where
  "parse fl topic payload =
     (case cut_prefix sysPrefix topic of
        None \<Rightarrow> None
      | Some path \<Rightarrow>
          (let txt = trim_space payload in
           if path = ''version''
           then (let version = trim_prefix ''mosquitto version '' txt in
             if version \<noteq> ''''
             then Some \<lparr>smMetric = version_metric, smLabel = version, smValue = flOne fl\<rparr> else None)
           else (case cut_prefix ''load/'' path of
             Some what \<Rightarrow>
               (case last_index (CHR ''/'') what of
                  None \<Rightarrow> None
                | Some i \<Rightarrow>
                    if i = 0 \<or> drop (i + 1) what \<notin> set loadWindows then None
                    else (case flParse fl txt of
                      None \<Rightarrow> None
                    | Some value \<Rightarrow> Some
                        \<lparr>smMetric = load_metric (loadMetricPrefix @ slash_to_underscore (take i what)),
                         smLabel = drop (i + 1) what, smValue = value\<rparr>))
           | None \<Rightarrow>
               (case map_of table path of
                  None \<Rightarrow> None
                | Some m \<Rightarrow>
                    (let txt = (if path = ''uptime'' then trim_suffix '' seconds'' txt else txt) in
                     case flParse fl txt of
                       None \<Rightarrow> None
                     | Some value \<Rightarrow> Some \<lparr>smMetric = m, smLabel = '''', smValue = value\<rparr>)))))"

subsection \<open>The collector\<close>

record 'f collector =
  coSamples :: "(string, 'f sample) fmap"
  coConnected :: bool

definition NewCollector :: "'f collector" where
  "NewCollector = \<lparr>coSamples = fmempty, coConnected = False\<rparr>"

definition sample_key :: "'f sample \<Rightarrow> string" where
  "sample_key s = (if mtName (smMetric s) \<noteq> versionMetricName
     then mtName (smMetric s) @ ''/'' @ smLabel s else mtName (smMetric s))"

definition Observe :: "'f exporter_lib \<Rightarrow> 'f collector \<Rightarrow> string \<Rightarrow> string \<Rightarrow> bool \<times> 'f collector" where
  "Observe fl c topic payload =
     (case parse fl topic payload of
        None \<Rightarrow> (False, c)
      | Some s \<Rightarrow> (True, c\<lparr>coSamples := fmupd (sample_key s) s (coSamples c)\<rparr>))"

definition Connected :: "'f collector \<Rightarrow> 'f collector" where
  "Connected c = c\<lparr>coConnected := True\<rparr>"

definition Lost :: "'f collector \<Rightarrow> 'f collector" where
  "Lost c = c\<lparr>coConnected := False, coSamples := fmempty\<rparr>"

record 'f series =
  seName :: string
  seHelp :: string
  seLabels :: "(string \<times> string) list"
  seKind :: value_type
  seValue :: 'f

definition series_of :: "'f sample \<Rightarrow> 'f series" where
  "series_of s =
     \<lparr>seName = mtName (smMetric s), seHelp = mtHelp (smMetric s),
      seLabels = (if mtName (smMetric s) = versionMetricName then [(''version'', smLabel s)]
        else if smLabel s \<noteq> '''' then [(''window'', smLabel s)] else []),
      seKind = mtKind (smMetric s), seValue = smValue s\<rparr>"

text \<open>\<open>MustNewConstMetric\<close>: the series, or a panic.\<close>

definition const_metric :: "'f exporter_lib \<Rightarrow> 'f series \<Rightarrow> 'f series option" where
  "const_metric fl s =
     (if flNameOk fl (seName s) \<and> list_all (\<lambda>(_, v). flLabelOk fl v) (seLabels s) then Some s else None)"

definition constMetric :: "'f exporter_lib \<Rightarrow> 'f sample \<Rightarrow> 'f series option" where
  "constMetric fl s = const_metric fl (series_of s)"

definition connected_series :: "'f exporter_lib \<Rightarrow> bool \<Rightarrow> 'f series" where
  "connected_series fl connected = \<lparr>seName = ''mosquitto_exporter_connected'',
     seHelp = ''Whether the exporter holds an MQTT session with its broker (1) or not (0). Without one, no broker series is served.'',
     seLabels = [], seKind = GaugeValue, seValue = (if connected then flOne fl else flZero fl)\<rparr>"

definition CollectSeries :: "'f exporter_lib \<Rightarrow> 'f collector \<Rightarrow> 'f series list option" where
  "CollectSeries fl c = those (const_metric fl (connected_series fl (coConnected c)) #
     map (\<lambda>k. constMetric fl (the (fmlookup (coSamples c) k))) (sorted_keys (coSamples c)))"

text \<open>What a scrape serves when nothing panics.\<close>

definition held_series :: "'f exporter_lib \<Rightarrow> 'f collector \<Rightarrow> 'f series list" where
  "held_series fl c = connected_series fl (coConnected c) #
     map (\<lambda>k. series_of (the (fmlookup (coSamples c) k))) (sorted_keys (coSamples c))"

lemma those_const_metric:
  "those (map (const_metric fl) ss) =
     (if list_all (\<lambda>s. flNameOk fl (seName s) \<and> list_all (\<lambda>(_, v). flLabelOk fl v) (seLabels s)) ss
      then Some ss else None)"
  by (induction ss) (auto simp: const_metric_def)

lemma CollectSeries_held: "CollectSeries fl c = those (map (const_metric fl) (held_series fl c))"
  by (simp add: CollectSeries_def held_series_def constMetric_def comp_def)

lemma CollectSeries_Some: "CollectSeries fl c = Some ss \<Longrightarrow> ss = held_series fl c"
  by (simp add: CollectSeries_held those_const_metric split: if_splits)

subsection \<open>Sessions\<close>

text \<open>What happens to a collector, as a step relation: a message, a session, or its loss.\<close>

datatype exporter_event = Message string string | SessionUp | SessionDown

fun collector_step :: "'f exporter_lib \<Rightarrow> 'f collector \<Rightarrow> exporter_event \<Rightarrow> 'f collector" where
  "collector_step fl c (Message topic payload) = snd (Observe fl c topic payload)"
| "collector_step fl c SessionUp = Connected c"
| "collector_step fl c SessionDown = Lost c"

inductive reachable :: "'f exporter_lib \<Rightarrow> 'f collector \<Rightarrow> bool" for fl where
  start: "reachable fl NewCollector"
| step: "reachable fl c \<Longrightarrow> reachable fl (collector_step fl c e)"

text \<open>Every sample held came from a message, under its own key.\<close>

definition sample_ok :: "'f exporter_lib \<Rightarrow> 'f sample \<Rightarrow> bool" where
  "sample_ok fl s \<longleftrightarrow> (\<exists>topic payload. parse fl topic payload = Some s)"

lemma reachable_samples:
  "reachable fl c \<Longrightarrow> fmlookup (coSamples c) k = Some s \<Longrightarrow> k = sample_key s \<and> sample_ok fl s"
proof (induction arbitrary: k s rule: reachable.induct)
  case start
  then show ?case by (simp add: NewCollector_def)
next
  case (step c e)
  show ?case
  proof (cases e)
    case (Message topic payload)
    then show ?thesis
      using step by (auto simp: Observe_def sample_ok_def split: option.splits if_splits)
  next
    case SessionUp
    then show ?thesis using step by (simp add: Connected_def)
  next
    case SessionDown
    then show ?thesis using step by (simp add: Lost_def)
  qed
qed

lemma table_metrics:
  "map_of table path = Some m \<Longrightarrow> CHR ''/'' \<notin> set (mtName m) \<and> mtName m \<noteq> versionMetricName \<and>
     mtName m \<noteq> ''mosquitto_exporter_connected'' \<and> \<not> has_prefix loadMetricPrefix (mtName m)"
  by (drule map_of_SomeD)
    (auto simp: table_def versionMetricName_def loadMetricPrefix_def has_prefix_def)

subsection \<open>Properties\<close>

definition series_id :: "'f series \<Rightarrow> string \<times> (string \<times> string) list" where
  "series_id s = (seName s, seLabels s)"

text \<open>The three shapes of a sample.\<close>

lemma parse_shape:
  assumes "parse fl topic payload = Some s"
  shows "(smMetric s = version_metric \<and> smLabel s \<noteq> '''') \<or>
    (\<exists>w. smMetric s = load_metric (loadMetricPrefix @ w) \<and> smLabel s \<in> set loadWindows) \<or>
    (\<exists>path. map_of table path = Some (smMetric s) \<and> smLabel s = '''')"
  using assms unfolding parse_def Let_def
  by (auto split: option.splits if_splits)

lemma shape_names:
  assumes "sample_ok fl s"
  shows "mtName (smMetric s) \<noteq> ''mosquitto_exporter_connected'' \<and>
    (mtName (smMetric s) = versionMetricName \<longleftrightarrow> smMetric s = version_metric) \<and>
    (has_prefix loadMetricPrefix (mtName (smMetric s)) \<longleftrightarrow> smLabel s \<noteq> '''' \<and> smMetric s \<noteq> version_metric)"
proof -
  have lv: "loadMetricPrefix @ w \<noteq> versionMetricName" "loadMetricPrefix @ w \<noteq> ''mosquitto_exporter_connected''" for w
    by (simp_all add: loadMetricPrefix_def versionMetricName_def)
  have vm: "mtName version_metric = versionMetricName" "\<not> has_prefix loadMetricPrefix versionMetricName"
    "versionMetricName \<noteq> ''mosquitto_exporter_connected''"
    by (simp_all add: version_metric_def versionMetricName_def loadMetricPrefix_def has_prefix_def)
  have ne: "l \<noteq> ''''" if "l \<in> set loadWindows" for l using that by (auto simp: loadWindows_def)
  obtain topic payload where "parse fl topic payload = Some s" using assms by (auto simp: sample_ok_def)
  from parse_shape [OF this] show ?thesis
  proof (elim disjE exE conjE)
    assume "smMetric s = version_metric" "smLabel s \<noteq> ''''"
    then show ?thesis using vm by simp
  next
    fix w assume w: "smMetric s = load_metric (loadMetricPrefix @ w)" "smLabel s \<in> set loadWindows"
    then have "mtName (smMetric s) = loadMetricPrefix @ w" by (simp add: load_metric_def)
    moreover from this have "smMetric s \<noteq> version_metric" using lv vm(1) by metis
    ultimately show ?thesis using lv ne [OF w(2)] by simp
  next
    fix path assume p: "map_of table path = Some (smMetric s)" "smLabel s = ''''"
    note t = table_metrics [OF p(1)]
    then have "smMetric s \<noteq> version_metric" using vm(1) by metis
    then show ?thesis using t p(2) by simp
  qed
qed

lemma series_id_key:
  "series_id (series_of s) = series_id (series_of t) \<Longrightarrow> sample_key s = sample_key t"
  by (auto simp: series_id_def series_of_def sample_key_def split: if_splits)

lemma table_names_inj:
  "map_of table p = Some m \<Longrightarrow> map_of table q = Some n \<Longrightarrow> mtName m = mtName n \<Longrightarrow> m = n"
proof -
  have d: "distinct (map (mtName \<circ> snd) table)" by (simp add: table_def)
  assume "map_of table p = Some m" "map_of table q = Some n" "mtName m = mtName n"
  then have "(p, m) \<in> set table" "(q, n) \<in> set table" "(mtName \<circ> snd) (p, m) = (mtName \<circ> snd) (q, n)"
    by (auto dest: map_of_SomeD)
  moreover have "inj_on (mtName \<circ> snd) (set table)" using d by (simp only: distinct_map)
  ultimately have "(p, m) = (q, n)" by (blast dest: inj_onD)
  then show "m = n" by simp
qed

text \<open>A name determines the metric.\<close>

lemma sample_shape:
  assumes "sample_ok fl s"
  shows "smMetric s = version_metric \<or>
    (smMetric s = load_metric (mtName (smMetric s)) \<and> has_prefix loadMetricPrefix (mtName (smMetric s))) \<or>
    (\<exists>path. map_of table path = Some (smMetric s))"
proof -
  obtain topic payload where "parse fl topic payload = Some s" using assms by (auto simp: sample_ok_def)
  from parse_shape [OF this] show ?thesis by (auto simp: load_metric_def has_prefix_iff)
qed

lemma shape_metric:
  assumes "sample_ok fl s" and "sample_ok fl t" and "mtName (smMetric s) = mtName (smMetric t)"
  shows "smMetric s = smMetric t"
  using sample_shape [OF assms(1)]
proof (elim disjE conjE exE)
  assume "smMetric s = version_metric"
  then show ?thesis using shape_names [OF assms(1)] shape_names [OF assms(2)] assms(3) by simp
next
  assume s: "smMetric s = load_metric (mtName (smMetric s))" "has_prefix loadMetricPrefix (mtName (smMetric s))"
  then have "smMetric t \<noteq> version_metric" "has_prefix loadMetricPrefix (mtName (smMetric t))"
    using shape_names [OF assms(2)] assms(3) by auto
  then have "smMetric t = load_metric (mtName (smMetric t))"
    using sample_shape [OF assms(2)] table_metrics by blast
  then show ?thesis using s(1) assms(3) by simp
next
  fix path assume p: "map_of table path = Some (smMetric s)"
  then have "\<not> has_prefix loadMetricPrefix (mtName (smMetric t))" "smMetric t \<noteq> version_metric"
    using table_metrics [OF p] shape_names [OF assms(2)] assms(3) by auto
  then obtain q where "map_of table q = Some (smMetric t)" using sample_shape [OF assms(2)] by blast
  then show ?thesis using table_names_inj [OF p _ assms(3)] by blast
qed

text \<open>What the collector holds under a key is a sample that messages can give, of that key.\<close>

lemma held_sample:
  assumes "reachable fl c" and "k \<in> set (sorted_keys (coSamples c))"
  obtains x where "fmlookup (coSamples c) k = Some x" "k = sample_key x" "sample_ok fl x"
proof -
  have "has_key (coSamples c) k" using assms(2) by (simp only: in_sorted_keys)
  then have "\<exists>x. fmlookup (coSamples c) k = Some x \<and> k = sample_key x \<and> sample_ok fl x"
    using reachable_samples [OF assms(1)] by (auto simp: has_key_def)
  then show ?thesis using that by blast
qed

lemma held_series_cases:
  assumes "reachable fl c" and "s \<in> set (held_series fl c)"
  obtains "s = connected_series fl (coConnected c)"
    | k x where "k \<in> set (sorted_keys (coSamples c))" "s = series_of x" "k = sample_key x" "sample_ok fl x"
proof (cases "s = connected_series fl (coConnected c)")
  case False
  then obtain k where k: "k \<in> set (sorted_keys (coSamples c))" "s = series_of (the (fmlookup (coSamples c) k))"
    using assms(2) by (auto simp: held_series_def)
  from held_sample [OF assms(1) k(1)] show ?thesis using that(2) k by (metis option.sel)
qed (use that in blast)

lemma sample_name:
  "sample_ok fl x \<Longrightarrow> seName (series_of x) \<noteq> ''mosquitto_exporter_connected''"
  using shape_names by (fastforce simp: series_of_def)

lemma distinct_series:
  assumes "reachable fl c"
  shows "distinct (map series_id (held_series fl c))"
proof -
  let ?f = "\<lambda>k. series_of (the (fmlookup (coSamples c) k))" and ?ks = "sorted_keys (coSamples c)"
  have "inj_on (series_id \<circ> ?f) (set ?ks)"
  proof (rule inj_onI)
    fix k l assume "k \<in> set ?ks" "l \<in> set ?ks" "(series_id \<circ> ?f) k = (series_id \<circ> ?f) l"
    then show "k = l"
      by (elim held_sample [OF assms]) (use series_id_key in fastforce)
  qed
  moreover have "series_id (connected_series fl (coConnected c)) \<notin> set (map (series_id \<circ> ?f) ?ks)"
    by (auto simp: series_id_def connected_series_def simp del: set_sorted_keys
        elim!: held_sample [OF assms] dest: sample_name)
  ultimately show ?thesis by (simp add: held_series_def distinct_map)
qed

lemma agreeing_samples:
  assumes "sample_ok fl x" and "sample_ok fl y" and "seName (series_of x) = seName (series_of y)"
  shows "seHelp (series_of x) = seHelp (series_of y) \<and> seKind (series_of x) = seKind (series_of y) \<and>
    map fst (seLabels (series_of x)) = map fst (seLabels (series_of y))"
proof -
  have "mtName (smMetric x) = mtName (smMetric y)" using assms(3) by (simp add: series_of_def)
  from shape_metric [OF assms(1,2) this] show ?thesis
    using shape_names [OF assms(1)] shape_names [OF assms(2)] by (auto simp: series_of_def)
qed

lemma agreeing_series:
  assumes "reachable fl c" and "s \<in> set (held_series fl c)" and "t \<in> set (held_series fl c)"
    and "seName s = seName t"
  shows "seHelp s = seHelp t \<and> seKind s = seKind t \<and> map fst (seLabels s) = map fst (seLabels t)"
  by (rule held_series_cases [OF assms(1,2)]; rule held_series_cases [OF assms(1,3)])
    (use assms(4) agreeing_samples in \<open>auto simp: connected_series_def dest: sample_name\<close>)

text \<open>C32: a scrape is consistent, as the registry demands of one. Whatever messages, sessions and losses came
  before, no two served series have the same name and labels, and series of one name have the same
  help text, type and label names.\<close>

theorem scrape_consistent:
  assumes "reachable fl c" and "CollectSeries fl c = Some served"
  shows "distinct (map series_id served) \<and>
    (\<forall>s \<in> set served. \<forall>t \<in> set served. seName s = seName t \<longrightarrow>
       seHelp s = seHelp t \<and> seKind s = seKind t \<and> map fst (seLabels s) = map fst (seLabels t))"
  unfolding CollectSeries_Some [OF assms(2)]
  using distinct_series [OF assms(1)] agreeing_series [OF assms(1)] by blast

subsection \<open>The session of a collector\<close>

definition replay :: "'f exporter_lib \<Rightarrow> exporter_event list \<Rightarrow> 'f collector" where
  "replay fl events = foldl (collector_step fl) NewCollector events"

text \<open>The events since the last loss, and the samples their messages set, the last one first.\<close>

definition since_loss :: "exporter_event list \<Rightarrow> exporter_event list" where
  "since_loss events = rev (takeWhile (\<lambda>e. e \<noteq> SessionDown) (rev events))"

definition event_sample :: "'f exporter_lib \<Rightarrow> exporter_event \<Rightarrow> 'f sample option" where
  "event_sample fl e = (case e of Message topic payload \<Rightarrow> parse fl topic payload | _ \<Rightarrow> None)"

definition last_sample :: "'f exporter_lib \<Rightarrow> string \<Rightarrow> exporter_event list \<Rightarrow> 'f sample option" where
  "last_sample fl k events =
     find (\<lambda>s. sample_key s = k) (List.map_filter (event_sample fl) (rev (since_loss events)))"

lemma since_loss_snoc:
  "since_loss (events @ [e]) = (if e = SessionDown then [] else since_loss events @ [e])"
  by (simp add: since_loss_def)

lemma since_loss_sub: "set (since_loss events) \<subseteq> set events"
  unfolding since_loss_def by (auto dest: set_takeWhileD)

lemma last_sample_snoc:
  "last_sample fl k (events @ [e]) =
     (if e = SessionDown then None
      else case event_sample fl e of
        Some s \<Rightarrow> if sample_key s = k then Some s else last_sample fl k events
      | None \<Rightarrow> last_sample fl k events)"
  by (simp add: last_sample_def since_loss_snoc map_filter_simps split: option.split)

lemma replay_snoc: "replay fl (events @ [e]) = collector_step fl (replay fl events) e"
  by (simp add: replay_def)

lemma replay_reachable: "reachable fl (replay fl events)"
  by (induction events rule: rev_induct)
    (simp_all add: replay_snoc reachable.step, simp add: replay_def reachable.start)

lemma session_state:
  "coConnected (replay fl events) \<longleftrightarrow> SessionUp \<in> set (since_loss events)"
  "fmlookup (coSamples (replay fl events)) k = last_sample fl k events"
proof -
  have "(coConnected (replay fl events) \<longleftrightarrow> SessionUp \<in> set (since_loss events)) \<and>
    fmlookup (coSamples (replay fl events)) k = last_sample fl k events"
  proof (induction events rule: rev_induct)
    case Nil
    then show ?case
      by (simp add: replay_def NewCollector_def since_loss_def last_sample_def map_filter_simps)
  next
    case (snoc e events)
    show ?case
    proof (cases e)
      case (Message topic payload)
      then show ?thesis
        using snoc.IH
        by (auto simp: replay_snoc since_loss_snoc last_sample_snoc event_sample_def Observe_def split: option.split)
    next
      case SessionUp
      then show ?thesis
        using snoc.IH by (simp add: replay_snoc since_loss_snoc last_sample_snoc event_sample_def Connected_def)
    next
      case SessionDown
      then show ?thesis
        using snoc.IH by (simp add: replay_snoc since_loss_snoc last_sample_snoc Lost_def)
    qed
  qed
  then show "coConnected (replay fl events) \<longleftrightarrow> SessionUp \<in> set (since_loss events)"
    "fmlookup (coSamples (replay fl events)) k = last_sample fl k events" by blast+
qed

text \<open>C33: a scrape never shows a stale or an invented value. After any sequence of messages, sessions and
  losses the exporter counts as connected exactly when a session was established since the last
  loss, and the value held under a key is the one of the last message since that loss that sets it.\<close>

theorem session_exact:
  "(coConnected (replay fl events) \<longleftrightarrow> SessionUp \<in> set (since_loss events)) \<and>
   fmlookup (coSamples (replay fl events)) k = last_sample fl k events"
  using session_state by blast

subsection \<open>Scrapes that panic\<close>

definition name_char :: "char \<Rightarrow> bool" where
  "name_char c \<longleftrightarrow> (of_char c :: nat) \<in> {48..57} \<union> {65..90} \<union> {97..122} \<union> {95, 58}"

definition ascii_text :: "string \<Rightarrow> bool" where
  "ascii_text s \<longleftrightarrow> list_all (\<lambda>c. (of_char c :: nat) < 128) s"

text \<open>
  The documented rules of the metrics library: a name of letters, digits, underscores and colons that
  does not begin with a digit is accepted, and so is a label value of ASCII characters.
\<close>

definition metric_rules :: "'f exporter_lib \<Rightarrow> bool" where
  "metric_rules fl \<longleftrightarrow>
     (\<forall>c n. name_char c \<and> \<not> is_digit c \<and> list_all name_char n \<longrightarrow> flNameOk fl (c # n)) \<and>
     (\<forall>v. ascii_text v \<longrightarrow> flLabelOk fl v)"

text \<open>Messages as the broker sends them: ASCII payloads, and load topics of name characters.\<close>

definition plain_message :: "exporter_event \<Rightarrow> bool" where
  "plain_message e \<longleftrightarrow> (case e of
       Message topic payload \<Rightarrow> ascii_text payload \<and>
         (case cut_prefix (sysPrefix @ ''load/'') topic of
            None \<Rightarrow> True
          | Some w \<Rightarrow> list_all (\<lambda>c. name_char c \<or> c = CHR ''/'') w)
     | _ \<Rightarrow> True)"

lemma table_names_ok: "map_of table path = Some m \<Longrightarrow> \<exists>c n. mtName m = c # n \<and> name_char c \<and> \<not> is_digit c \<and> list_all name_char n"
proof -
  have "list_all (\<lambda>(_, m). case mtName m of [] \<Rightarrow> False | c # n \<Rightarrow> name_char c \<and> \<not> is_digit c \<and> list_all name_char n) table"
    by (simp add: table_def name_char_def is_digit_def)
  then show "map_of table path = Some m \<Longrightarrow> ?thesis"
    by (cases "mtName m") (force simp: list_all_iff dest!: map_of_SomeD)+
qed

lemma unrunes_chars: "set xs \<subseteq> set ys \<Longrightarrow> set (unrunes xs) \<subseteq> set (unrunes ys)"
  by (auto simp: unrunes_def)

lemma trim_space_chars: "set (trim_space s) \<subseteq> set s"
proof -
  have "set (trim_space s) \<subseteq> set (unrunes (runes s))"
    unfolding trim_space_def Let_def by (rule unrunes_chars) (auto dest!: set_dropWhileD)
  then show ?thesis by simp
qed

lemma parsed_series_accepted:
  assumes "parse fl topic payload = Some s" and "plain_message (Message topic payload)" and "metric_rules fl"
  shows "flNameOk fl (seName (series_of s)) \<and> list_all (\<lambda>(_, v). flLabelOk fl v) (seLabels (series_of s))"
proof -
  have names: "flNameOk fl (c # n)" if "name_char c" "\<not> is_digit c" "list_all name_char n" for c n
    using assms(3) that by (simp add: metric_rules_def)
  have labels: "flLabelOk fl v" if "ascii_text v" for v using assms(3) that by (simp add: metric_rules_def)
  have pre: "loadMetricPrefix = CHR ''m'' # tl loadMetricPrefix" "list_all name_char (tl loadMetricPrefix)"
    "name_char (CHR ''m'')" "\<not> is_digit (CHR ''m'')" by (simp_all add: loadMetricPrefix_def name_char_def is_digit_def)
  have win: "ascii_text w" if "w \<in> set loadWindows" for w
    using that by (auto simp: loadWindows_def ascii_text_def)
  from assms(1) consider
      (version) "smMetric s = version_metric" "smLabel s = trim_prefix ''mosquitto version '' (trim_space payload)"
    | (load) what i where "cut_prefix (sysPrefix @ ''load/'') topic = Some what"
        "smMetric s = load_metric (loadMetricPrefix @ slash_to_underscore (take i what))" "smLabel s \<in> set loadWindows"
    | (tabled) path where "map_of table path = Some (smMetric s)" "smLabel s = ''''"
    unfolding parse_def Let_def
    by (auto split: option.splits if_splits simp: cut_prefix_Some)
  then show ?thesis
  proof cases
    case version
    have "ascii_text payload" using assms(2) by (simp add: plain_message_def)
    then have "ascii_text (trim_prefix ''mosquitto version '' (trim_space payload))"
      using trim_space_chars [of payload]
      by (auto simp: ascii_text_def list_all_iff trim_prefix_def dest!: in_set_dropD)
    moreover have "flNameOk fl versionMetricName"
      using names [of "hd versionMetricName" "tl versionMetricName"]
      by (simp add: versionMetricName_def name_char_def is_digit_def)
    ultimately show ?thesis using version labels by (simp add: series_of_def version_metric_def)
  next
    case load
    then have "list_all (\<lambda>c. name_char c \<or> c = CHR ''/'') what" using assms(2) by (simp add: plain_message_def)
    then have "list_all name_char (slash_to_underscore (take i what))"
      by (auto simp: slash_to_underscore_def list_all_iff name_char_def dest!: in_set_takeD)
    then have "flNameOk fl (loadMetricPrefix @ slash_to_underscore (take i what))"
      using names [OF pre(3,4), of "tl loadMetricPrefix @ slash_to_underscore (take i what)"] pre(1,2)
      by (metis append_Cons list_all_append)
    moreover have "loadMetricPrefix @ w \<noteq> versionMetricName" for w
      by (simp add: loadMetricPrefix_def versionMetricName_def)
    ultimately show ?thesis using load labels win by (simp add: series_of_def load_metric_def)
  next
    case tabled
    then show ?thesis
      using table_names_ok [OF tabled(1)] table_metrics [OF tabled(1)] names by (auto simp: series_of_def)
  qed
qed

lemma last_sample_parsed:
  "last_sample fl k events = Some s \<Longrightarrow> \<exists>topic payload. Message topic payload \<in> set events \<and> parse fl topic payload = Some s"
proof -
  assume "last_sample fl k events = Some s"
  then have "s \<in> set (List.map_filter (event_sample fl) (rev (since_loss events)))"
    by (auto simp: last_sample_def find_Some_iff)
  moreover have "x \<in> set (List.map_filter f xs) \<Longrightarrow> \<exists>e \<in> set xs. f e = Some x"
    for x :: "'a sample" and f :: "exporter_event \<Rightarrow> 'a sample option" and xs
    by (induction xs) (auto simp: map_filter_simps split: option.splits)
  ultimately obtain e where "e \<in> set (since_loss events)" "event_sample fl e = Some s"
    by (metis set_rev)
  then show ?thesis
    using since_loss_sub [of events] by (auto simp: event_sample_def split: exporter_event.splits)
qed

lemma scrape_total:
  assumes "metric_rules fl" and "list_all plain_message events"
  shows "\<exists>served. CollectSeries fl (replay fl events) = Some served"
proof -
  let ?c = "replay fl events"
  let ?ok = "\<lambda>s :: 'a series. flNameOk fl (seName s) \<and> list_all (\<lambda>(_, v). flLabelOk fl v) (seLabels s)"
  have "?ok (series_of (the (fmlookup (coSamples ?c) k)))" if k: "k \<in> set (sorted_keys (coSamples ?c))" for k
  proof -
    obtain s where s: "fmlookup (coSamples ?c) k = Some s"
      using k unfolding in_sorted_keys has_key_def by blast
    then obtain topic payload where m: "Message topic payload \<in> set events" "parse fl topic payload = Some s"
      using session_state(2) last_sample_parsed by metis
    have "plain_message (Message topic payload)" using assms(2) m(1) by (simp add: list_all_iff)
    then show ?thesis using parsed_series_accepted [OF m(2) _ assms(1)] s by simp
  qed
  then have "list_all (\<lambda>k. ?ok (series_of (the (fmlookup (coSamples ?c) k)))) (sorted_keys (coSamples ?c))"
    unfolding list_all_iff by blast
  moreover have "name_char (CHR ''m'') \<and> \<not> is_digit (CHR ''m'') \<and> list_all name_char ''osquitto_exporter_connected''"
    by (simp add: name_char_def is_digit_def)
  then have "flNameOk fl ''mosquitto_exporter_connected''"
    using assms(1) unfolding metric_rules_def by blast
  ultimately show ?thesis
    unfolding CollectSeries_held those_const_metric
    by (simp add: held_series_def connected_series_def list.pred_map comp_def del: set_sorted_keys)
qed

text \<open>C34: a scrape never panics. Whatever messages of the expected form came, in however many sessions, every
  series a scrape builds has a name and a label the metrics library accepts.\<close>

theorem scrape_never_panics:
  assumes "metric_rules fl" and "list_all plain_message events"
  shows "\<exists>served. CollectSeries fl (replay fl events) = Some served"
  by (rule scrape_total [OF assms])

text \<open>A library to evaluate the model with: a number is its text.\<close>

definition sample_floats :: "string exporter_lib" where
  "sample_floats = \<lparr>flParse = (\<lambda>s. if s = [] then None else Some s), flZero = ''0'', flOne = ''1'',
     flNameOk = (\<lambda>n. case n of [] \<Rightarrow> False | c # cs \<Rightarrow> name_char c \<and> \<not> is_digit c \<and> list_all name_char cs),
     flLabelOk = ascii_text\<rparr>"

definition sample_events :: "exporter_event list" where
  "sample_events = [SessionUp, Message ''$SYS/broker/clients/total'' ''7'', SessionDown, SessionUp,
     Message ''$SYS/broker/load/messages/sent/1min'' ''2'']"

lemma sample_rules: "metric_rules sample_floats"
  by (simp add: metric_rules_def sample_floats_def)

lemma sample_plain: "list_all plain_message sample_events"
  by (simp add: sample_events_def plain_message_def ascii_text_def sysPrefix_def cut_prefix_def has_prefix_def name_char_def)

theorem scrape_never_panics_witness:
  "\<exists>served. CollectSeries sample_floats (replay sample_floats sample_events) = Some served"
  by (rule scrape_never_panics [OF sample_rules sample_plain])

theorem scrape_consistent_witness:
  "\<exists>served. CollectSeries sample_floats (replay sample_floats sample_events) = Some served \<and>
     distinct (map series_id served)"
proof -
  obtain served where "CollectSeries sample_floats (replay sample_floats sample_events) = Some served"
    using scrape_total [OF sample_rules sample_plain] by blast
  then show ?thesis using scrape_consistent [OF replay_reachable] by blast
qed

end
