(* ===== verification/ExporterRun.thy ===== *)
theory ExporterRun
  imports Exporter GoFlags
begin

section \<open>The exporter process (internal/exporter/run.go)\<close>

text \<open>
  The flags and the exit code of the exporter binary, the options of its MQTT client, the handlers
  the client calls, and the certificate it pins. The MQTT client, the HTTP server, the PEM decoder and
  the certificate parser are not code of this repository: what they hand to a handler is its argument.
  A function that reads a file takes the file system as a function from paths.
\<close>

record exporter_config =
  ecBroker :: string
  ecUsername :: string
  ecPasswordFile :: string
  ecTLSCert :: string
  ecListen :: string

definition subscription :: string where "subscription = ''$SYS/broker/#''"

type_synonym file_reader = "string \<Rightarrow> string result"

subsection \<open>The client\<close>

definition seconds :: "int \<Rightarrow> int" where "seconds n = n * 1000000000"

record mqtt_options =
  moBroker :: string
  moClientID :: string
  moCredentials :: "file_reader \<Rightarrow> string \<times> string"
  moCleanSession :: bool
  moKeepAlive :: int
  moConnectRetry :: bool
  moConnectRetryInterval :: int
  moAutoReconnect :: bool
  moMaxReconnectInterval :: int
  moPinnedCert :: "string option"

text \<open>The credentials of a connection attempt: a password file that cannot be read is an empty password.\<close>

definition credentials :: "exporter_config \<Rightarrow> file_reader \<Rightarrow> string \<times> string" where
  "credentials cfg read =
     (ecUsername cfg, trim_space (case read (ecPasswordFile cfg) of Inl _ \<Rightarrow> '''' | Inr data \<Rightarrow> data))"

definition newClient :: "exporter_config \<Rightarrow> mqtt_options" where
  "newClient cfg = \<lparr>moBroker = ecBroker cfg, moClientID = ecUsername cfg,
     moCredentials = credentials cfg, moCleanSession = True, moKeepAlive = seconds 30,
     moConnectRetry = True, moConnectRetryInterval = seconds 5, moAutoReconnect = True,
     moMaxReconnectInterval = seconds 30,
     moPinnedCert = (if ecTLSCert cfg \<noteq> '''' then Some (ecTLSCert cfg) else None)\<rparr>"

text \<open>The handlers: a session counts only once the subscription was granted.\<close>

datatype client_event =
    Connects "go_error option"
  | ConnectionLost
  | Publishes string string

fun on_event :: "'f exporter_lib \<Rightarrow> 'f collector \<Rightarrow> client_event \<Rightarrow> 'f collector" where
  "on_event fl c (Connects subscribe_error) = (if subscribe_error \<noteq> None then c else Connected c)"
| "on_event fl c ConnectionLost = Lost c"
| "on_event fl c (Publishes topic payload) = snd (Observe fl c topic payload)"

definition exporter_state :: "'f exporter_lib \<Rightarrow> client_event list \<Rightarrow> 'f collector" where
  "exporter_state fl events = foldl (on_event fl) NewCollector events"

subsection \<open>The pinned certificate\<close>

record cert_lib =
  ctPemDecode :: "string \<Rightarrow> string option"
  ctParse :: "string \<Rightarrow> string result"

definition firstCertificate :: "cert_lib \<Rightarrow> file_reader \<Rightarrow> string \<Rightarrow> string result" where
  "firstCertificate ct read path =
     (case read path of
        Inl e \<Rightarrow> Inl e
      | Inr data \<Rightarrow> (case ctPemDecode ct data of
            None \<Rightarrow> Inl (path @ '' holds no PEM block'')
          | Some block \<Rightarrow> ctParse ct block))"

definition VerifyConnection :: "cert_lib \<Rightarrow> file_reader \<Rightarrow> string \<Rightarrow> string list \<Rightarrow> go_error option" where
  "VerifyConnection ct read path peers =
     (case firstCertificate ct read path of
        Inl e \<Rightarrow> Some e
      | Inr pinned \<Rightarrow>
          if length peers = 0 \<or> peers ! 0 \<noteq> pinned
          then Some ''the broker serves a certificate other than the mounted one'' else None)"

subsection \<open>The process\<close>

text \<open>How the wait of \<open>Run\<close> ends: the context is cancelled and the server shut down, or serving fails.\<close>

datatype run_end = Cancelled "go_error option" | ServeFailed go_error

definition ErrServerClosed :: go_error where "ErrServerClosed = ''http: Server closed''"

fun Run :: "run_end \<Rightarrow> go_error option" where
  "Run (Cancelled shutdown) = shutdown"
| "Run (ServeFailed e) = Some e"

definition exporter_flags :: "(string \<times> flag_kind) list" where
  "exporter_flags = [(''broker'', StringFlag), (''username'', StringFlag), (''password-file'', StringFlag),
     (''tls-cert'', StringFlag), (''listen'', StringFlag)]"

definition exporter_config_of :: "strmap \<Rightarrow> exporter_config" where
  "exporter_config_of fs = \<lparr>
     ecBroker = flag_or fs ''broker'' ''tcp://127.0.0.1:1883'',
     ecUsername = flag_or fs ''username'' ''mko-exporter'',
     ecPasswordFile = flag_or fs ''password-file'' ''/mosquitto/exporter/password'',
     ecTLSCert = flag_or fs ''tls-cert'' '''',
     ecListen = flag_or fs ''listen'' '':9234''\<rparr>"

definition exporter_start :: "flag_lib \<Rightarrow> string list \<Rightarrow> exporter_config result" where
  "exporter_start lib args =
     (case parse_flags lib exporter_flags args fmempty of
        Inl e \<Rightarrow> Inl e | Inr fs \<Rightarrow> Inr (exporter_config_of fs))"

definition exporter_main ::
  "flag_lib \<Rightarrow> string list \<Rightarrow> (string \<Rightarrow> go_error option) \<Rightarrow> (exporter_config \<Rightarrow> run_end) \<Rightarrow> int" where
  "exporter_main lib args listen ends =
     (case exporter_start lib args of
        Inl _ \<Rightarrow> 2
      | Inr cfg \<Rightarrow>
          if listen (ecListen cfg) \<noteq> None then 1
          else (case Run (ends cfg) of
              None \<Rightarrow> 0
            | Some e \<Rightarrow> if e \<noteq> ErrServerClosed then 1 else 0))"

subsection \<open>Properties\<close>

text \<open>The handlers drive the collector as the events of its own theory.\<close>

fun collector_events :: "client_event \<Rightarrow> exporter_event list" where
  "collector_events (Connects e) = (if e \<noteq> None then [] else [SessionUp])"
| "collector_events ConnectionLost = [SessionDown]"
| "collector_events (Publishes topic payload) = [Message topic payload]"

lemma exporter_state_replay: "exporter_state fl events = replay fl (concat (map collector_events events))"
proof (induction events rule: rev_induct)
  case (snoc e events)
  have "on_event fl c e = foldl (collector_step fl) c (collector_events e)" for c
    by (cases e) simp_all
  then show ?case using snoc by (simp add: exporter_state_def replay_def)
qed (simp add: exporter_state_def replay_def)

lemma since_loss_append:
  "since_loss (xs @ ys) = (if SessionDown \<in> set ys then since_loss ys else since_loss xs @ ys)"
proof (induction ys rule: rev_induct)
  case (snoc y ys)
  have "since_loss (xs @ ys @ [y]) = (if y = SessionDown then [] else since_loss (xs @ ys) @ [y])"
    using since_loss_snoc [of "xs @ ys" y] by simp
  then show ?case using snoc by (simp add: since_loss_snoc)
qed simp

definition client_since_loss :: "client_event list \<Rightarrow> client_event list" where
  "client_since_loss events = rev (takeWhile (\<lambda>e. e \<noteq> ConnectionLost) (rev events))"

lemma since_loss_collector:
  "since_loss (concat (map collector_events events)) = concat (map collector_events (client_since_loss events))"
proof (induction events rule: rev_induct)
  case (snoc e events)
  then show ?case
    by (cases e) (simp_all add: since_loss_append client_since_loss_def since_loss_def)
qed (simp add: since_loss_def client_since_loss_def)

text \<open>The connection gauge tells the truth. It is one exactly when, since the last loss, the client
  connected and its subscription was granted; a connection whose subscription failed does not count.\<close>

theorem connected_gauge_exact:
  "CollectSeries fl (exporter_state fl events) = Some served \<Longrightarrow>
     hd served = connected_series fl (Connects None \<in> set (client_since_loss events))"
proof -
  have "SessionUp \<in> set (collector_events e) \<longleftrightarrow> e = Connects None" for e by (cases e) auto
  then have "coConnected (exporter_state fl events) \<longleftrightarrow> Connects None \<in> set (client_since_loss events)"
    by (simp add: exporter_state_replay session_state(1) since_loss_collector)
  then show "CollectSeries fl (exporter_state fl events) = Some served \<Longrightarrow> ?thesis"
    by (auto dest!: CollectSeries_Some simp: held_series_def)
qed

lemma VerifyConnection_pins:
  "VerifyConnection ct read path peers = None \<longleftrightarrow>
     (\<exists>pinned rest. firstCertificate ct read path = Inr pinned \<and> peers = pinned # rest)"
  by (cases peers) (auto simp: VerifyConnection_def split: sum.split)

theorem connected_gauge_exact_witness:
  "\<exists>served. CollectSeries sample_floats (exporter_state sample_floats [Connects None, ConnectionLost, Connects (Some ''denied'')])
       = Some served \<and> hd served = connected_series sample_floats False"
proof -
  let ?events = "[Connects None, ConnectionLost, Connects (Some ''denied'')]"
  have "list_all plain_message (concat (map collector_events ?events))" by (simp add: plain_message_def)
  then obtain served where s: "CollectSeries sample_floats (exporter_state sample_floats ?events) = Some served"
    unfolding exporter_state_replay using scrape_total [OF sample_rules] by blast
  have "Connects None \<notin> set (client_since_loss ?events)" by (simp add: client_since_loss_def)
  then show ?thesis using connected_gauge_exact [OF s] s by auto
qed

end
