(* ===== verification/ExporterServe.thy ===== *)
theory ExporterServe
  imports ExporterRun
begin

section \<open>Serving scrapes while messages arrive (internal/exporter/collector.go, run.go)\<close>

text \<open>
  The collector is shared: the handlers of the MQTT client write it, and the HTTP server scrapes it, on
  goroutines of their own. Here every method runs statement by statement between the lock and the
  deferred unlock of its mutex, any number of goroutines interleaved, and the one-step methods
  of \<open>Exporter\<close> are shown to be what that amounts to. Then the HTTP handler and the end of \<open>Run\<close>.
\<close>

subsection \<open>The methods, statement by statement\<close>

datatype request = Observing string string | Connecting | Losing | Collecting

text \<open>
  The statement a goroutine runs next while it holds the mutex. The loop of \<open>Collect\<close> has the keys it
  still visits, in the order Go has chosen, and the series sent so far; \<open>Unlock\<close> is the deferred call, with
  what was sent.
\<close>

datatype 'f work =
    PutSample "'f sample"
  | SetConnected
  | ClearConnected
  | ClearSamples
  | SendConnected "string list"
  | SendSamples "string list" "'f series list"
  | Unlock "'f series list"

text \<open>Up to the lock: a message is parsed before it, and one that is not mapped returns without it.\<close>

fun first_work :: "'f exporter_lib \<Rightarrow> request \<Rightarrow> string list \<Rightarrow> 'f work option" where
  "first_work fl (Observing topic payload) order = map_option PutSample (parse fl topic payload)"
| "first_work fl Connecting order = Some SetConnected"
| "first_work fl Losing order = Some ClearConnected"
| "first_work fl Collecting order = Some (SendConnected order)"

text \<open>One statement, or a panic.\<close>

fun work_step :: "'f exporter_lib \<Rightarrow> 'f collector \<Rightarrow> 'f work \<Rightarrow> ('f collector \<times> 'f work) option" where
  "work_step fl c (PutSample s) = Some (c\<lparr>coSamples := fmupd (sample_key s) s (coSamples c)\<rparr>, Unlock [])"
| "work_step fl c SetConnected = Some (c\<lparr>coConnected := True\<rparr>, Unlock [])"
| "work_step fl c ClearConnected = Some (c\<lparr>coConnected := False\<rparr>, ClearSamples)"
| "work_step fl c ClearSamples = Some (c\<lparr>coSamples := fmempty\<rparr>, Unlock [])"
| "work_step fl c (SendConnected order) =
     (case const_metric fl (connected_series fl (coConnected c)) of
        None \<Rightarrow> None | Some x \<Rightarrow> Some (c, SendSamples order [x]))"
| "work_step fl c (SendSamples [] sent) = Some (c, Unlock sent)"
| "work_step fl c (SendSamples (k # ks) sent) =
     (case fmlookup (coSamples c) k of
        None \<Rightarrow> Some (c, SendSamples ks sent)
      | Some s \<Rightarrow> (case constMetric fl s of
            None \<Rightarrow> None | Some x \<Rightarrow> Some (c, SendSamples ks (sent @ [x]))))"
| "work_step fl c (Unlock sent) = None"

subsection \<open>Goroutines\<close>

datatype 'f goroutine =
    Idle
  | Waiting request
  | Holding request "'f work"

text \<open>
  The history is not part of the code: the calls that returned, in the order of their unlocks, each
  with what it sent. A panic in a goroutine ends the process.
\<close>

record 'f exporter_process =
  epCollector :: "'f collector"
  epLock :: "nat option"
  epThreads :: "nat \<Rightarrow> 'f goroutine"
  epHistory :: "(request \<times> 'f series list) list"
  epCrashed :: bool

definition process_start :: "'f exporter_process" where
  "process_start = \<lparr>epCollector = NewCollector, epLock = None, epThreads = (\<lambda>_. Idle), epHistory = [],
     epCrashed = False\<rparr>"

text \<open>The order in which a range loop visits a map: any enumeration of its keys.\<close>

definition range_order :: "string list \<Rightarrow> (string, 'v) fmap \<Rightarrow> bool" where
  "range_order order m \<longleftrightarrow> distinct order \<and> set order = fset (fmdom m)"

inductive process_step :: "'f exporter_lib \<Rightarrow> 'f exporter_process \<Rightarrow> 'f exporter_process \<Rightarrow> bool" for fl where
  call: "\<not> epCrashed p \<Longrightarrow> epThreads p t = Idle \<Longrightarrow> first_work fl req [] \<noteq> None \<Longrightarrow>
    process_step fl p (p\<lparr>epThreads := (epThreads p)(t := Waiting req)\<rparr>)"
| lock: "\<not> epCrashed p \<Longrightarrow> epThreads p t = Waiting req \<Longrightarrow> epLock p = None \<Longrightarrow>
    range_order order (coSamples (epCollector p)) \<Longrightarrow> first_work fl req order = Some w \<Longrightarrow>
    process_step fl p (p\<lparr>epLock := Some t, epThreads := (epThreads p)(t := Holding req w)\<rparr>)"
| run: "\<not> epCrashed p \<Longrightarrow> epThreads p t = Holding req w \<Longrightarrow> work_step fl (epCollector p) w = Some (c, w') \<Longrightarrow>
    process_step fl p (p\<lparr>epCollector := c, epThreads := (epThreads p)(t := Holding req w')\<rparr>)"
| unlock: "\<not> epCrashed p \<Longrightarrow> epThreads p t = Holding req (Unlock sent) \<Longrightarrow>
    process_step fl p (p\<lparr>epLock := None, epThreads := (epThreads p)(t := Idle), epHistory := epHistory p @ [(req, sent)]\<rparr>)"
| panic: "\<not> epCrashed p \<Longrightarrow> epThreads p t = Holding req w \<Longrightarrow> work_step fl (epCollector p) w = None \<Longrightarrow>
    \<forall>sent. w \<noteq> Unlock sent \<Longrightarrow>
    process_step fl p (p\<lparr>epLock := None, epThreads := (epThreads p)(t := Idle), epCrashed := True\<rparr>)"

inductive process_reachable :: "'f exporter_lib \<Rightarrow> 'f exporter_process \<Rightarrow> bool" for fl where
  start: "process_reachable fl process_start"
| step: "process_reachable fl p \<Longrightarrow> process_step fl p p' \<Longrightarrow> process_reachable fl p'"

subsection \<open>The mutex makes the methods atomic\<close>

fun request_event :: "request \<Rightarrow> exporter_event option" where
  "request_event (Observing topic payload) = Some (Message topic payload)"
| "request_event Connecting = Some SessionUp"
| "request_event Losing = Some SessionDown"
| "request_event Collecting = None"

definition history_events :: "(request \<times> 'f series list) list \<Rightarrow> exporter_event list" where
  "history_events hist = List.map_filter (request_event \<circ> fst) hist"

definition history_collector :: "'f exporter_lib \<Rightarrow> (request \<times> 'f series list) list \<Rightarrow> 'f collector" where
  "history_collector fl hist = replay fl (history_events hist)"

text \<open>What a goroutine that holds the mutex has done so far to the collector \<open>c0\<close> it locked.\<close>

definition sent_samples :: "'f exporter_lib \<Rightarrow> 'f collector \<Rightarrow> string list \<Rightarrow> 'f series list" where
  "sent_samples fl c ks = connected_series fl (coConnected c) # map (\<lambda>k. series_of (the (fmlookup (coSamples c) k))) ks"

fun under_way :: "'f exporter_lib \<Rightarrow> 'f collector \<Rightarrow> request \<Rightarrow> 'f work \<Rightarrow> 'f collector \<Rightarrow> bool" where
  "under_way fl c0 (Observing topic payload) w c \<longleftrightarrow>
     (\<exists>s. w = PutSample s \<and> parse fl topic payload = Some s \<and> c = c0) \<or>
     (w = Unlock [] \<and> c = collector_step fl c0 (Message topic payload))"
| "under_way fl c0 Connecting w c \<longleftrightarrow> (w = SetConnected \<and> c = c0) \<or> (w = Unlock [] \<and> c = Connected c0)"
| "under_way fl c0 Losing w c \<longleftrightarrow> (w = ClearConnected \<and> c = c0) \<or>
     (w = ClearSamples \<and> c = c0\<lparr>coConnected := False\<rparr>) \<or> (w = Unlock [] \<and> c = Lost c0)"
| "under_way fl c0 Collecting w c \<longleftrightarrow> c = c0 \<and>
     ((\<exists>order. w = SendConnected order \<and> range_order order (coSamples c0)) \<or>
      (\<exists>visited ks. w = SendSamples ks (sent_samples fl c0 visited) \<and> range_order (visited @ ks) (coSamples c0)) \<or>
      (\<exists>order. w = Unlock (sent_samples fl c0 order) \<and> range_order order (coSamples c0)))"

definition served_ok :: "'f exporter_lib \<Rightarrow> 'f collector \<Rightarrow> request \<Rightarrow> 'f series list \<Rightarrow> bool" where
  "served_ok fl c req sent \<longleftrightarrow> (if req = Collecting
     then \<exists>order. range_order order (coSamples c) \<and> sent = sent_samples fl c order else sent = [])"

definition process_inv :: "'f exporter_lib \<Rightarrow> 'f exporter_process \<Rightarrow> bool" where
  "process_inv fl p \<longleftrightarrow>
     (\<forall>before req sent after. epHistory p = before @ (req, sent) # after \<longrightarrow>
        served_ok fl (history_collector fl before) req sent) \<and>
     (\<not> epCrashed p \<longrightarrow>
       (\<forall>t. (\<exists>req w. epThreads p t = Holding req w) \<longleftrightarrow> epLock p = Some t) \<and>
       (epLock p = None \<longrightarrow> epCollector p = history_collector fl (epHistory p)) \<and>
       (\<forall>t req w. epThreads p t = Holding req w \<longrightarrow>
          under_way fl (history_collector fl (epHistory p)) req w (epCollector p)))"

lemma history_collector_snoc:
  "history_collector fl (hist @ [(req, sent)]) = (case request_event req of
     None \<Rightarrow> history_collector fl hist | Some e \<Rightarrow> collector_step fl (history_collector fl hist) e)"
  by (cases "request_event req") (simp_all add: history_collector_def history_events_def List.map_filter_def replay_snoc)

lemma under_way_first:
  "first_work fl req order = Some w \<Longrightarrow> range_order order (coSamples c) \<Longrightarrow> under_way fl c req w c"
  by (cases req) auto

lemma under_way_work:
  assumes "under_way fl c0 req w c" and "work_step fl c w = Some (c', w')"
  shows "under_way fl c0 req w' c'"
proof (cases req)
  case (Observing topic payload)
  then show ?thesis using assms by (auto simp: Observe_def)
next
  case Connecting
  then show ?thesis using assms by (auto simp: Connected_def)
next
  case Losing
  then show ?thesis using assms by (auto simp: Lost_def)
next
  case Collecting
  with assms(1) have c: "c = c0" by simp
  from assms(1) Collecting consider
      (connected) order where "w = SendConnected order" "range_order order (coSamples c0)"
    | (samples) visited ks where "w = SendSamples ks (sent_samples fl c0 visited)" "range_order (visited @ ks) (coSamples c0)"
    | (sent) order where "w = Unlock (sent_samples fl c0 order)" by auto
  then show ?thesis
  proof cases
    case connected
    then have "w' = SendSamples order (sent_samples fl c0 []) \<and> c' = c0"
      using assms(2) by (auto simp: c sent_samples_def const_metric_def split: if_splits)
    then show ?thesis using connected(2) Collecting by (auto intro!: exI [of _ "[]"])
  next
    case samples
    show ?thesis
    proof (cases ks)
      case Nil
      then show ?thesis using samples assms(2) Collecting by (auto simp: c)
    next
      case (Cons k ks')
      then have "k \<in> fset (fmdom (coSamples c0))" using samples(2) by (auto simp: range_order_def)
      then obtain s where s: "fmlookup (coSamples c0) k = Some s"
        by (auto simp: fmlookup_dom_iff)
      then have "w' = SendSamples ks' (sent_samples fl c0 (visited @ [k])) \<and> c' = c0"
        using samples(1) assms(2) Cons
        by (auto simp: c sent_samples_def constMetric_def const_metric_def split: option.splits if_splits)
      then show ?thesis using samples(2) Cons Collecting by (auto intro!: exI [of _ "visited @ [k]"])
    qed
  next
    case sent
    then show ?thesis using assms(2) by simp
  qed
qed

lemma under_way_unlock:
  assumes "under_way fl (history_collector fl hist) req (Unlock sent) c"
  shows "c = history_collector fl (hist @ [(req, sent)])" and "served_ok fl (history_collector fl hist) req sent"
  using assms by (cases req; auto simp: history_collector_snoc served_ok_def)+

lemma process_start_inv: "process_inv fl process_start"
  by (simp add: process_inv_def process_start_def history_collector_def history_events_def map_filter_simps replay_def)

lemma process_step_inv:
  assumes "process_step fl p p'" and "process_inv fl p"
  shows "process_inv fl p'"
  using assms
proof (induction rule: process_step.induct)
  case (call p t req)
  have "epLock p \<noteq> Some t"
    using call.prems call.hyps unfolding process_inv_def by (metis goroutine.distinct(3))
  then show ?case using call.prems by (auto simp: process_inv_def)
next
  case (lock p t req order w)
  have free: "epThreads p t' \<noteq> Holding r w" for t' r w
    using lock.prems lock.hyps unfolding process_inv_def by fastforce
  have "epCollector p = history_collector fl (epHistory p)"
    using lock.prems lock.hyps unfolding process_inv_def by blast
  then have "under_way fl (history_collector fl (epHistory p)) req w (epCollector p)"
    using under_way_first [OF lock.hyps(5)] lock.hyps(4) by simp
  then show ?case using lock.prems free unfolding process_inv_def by auto
next
  case (run p t req w c w')
  have l: "epLock p = Some t" and u: "under_way fl (history_collector fl (epHistory p)) req w (epCollector p)"
    using run.prems run.hyps unfolding process_inv_def by blast+
  have others: "epThreads p t' \<noteq> Holding r v" if "t' \<noteq> t" for t' r v
    using run.prems run.hyps that l unfolding process_inv_def by (metis option.inject)
  have "under_way fl (history_collector fl (epHistory p)) req w' c" by (rule under_way_work [OF u run.hyps(3)])
  then show ?case using run.prems l others unfolding process_inv_def by auto
next
  case (unlock p t req sent)
  have l: "epLock p = Some t" and u: "under_way fl (history_collector fl (epHistory p)) req (Unlock sent) (epCollector p)"
    using unlock.prems unlock.hyps unfolding process_inv_def by blast+
  have others: "epThreads p t' \<noteq> Holding r v" if "t' \<noteq> t" for t' r v
    using unlock.prems unlock.hyps that l unfolding process_inv_def by (metis option.inject)
  have "served_ok fl (history_collector fl before) r s"
    if "epHistory p @ [(req, sent)] = before @ (r, s) # after" for before r s after
  proof (cases after rule: rev_cases)
    case Nil
    then show ?thesis using that under_way_unlock(2) [OF u] by simp
  next
    case (snoc after' x)
    then have "epHistory p = before @ (r, s) # after'" using that by simp
    then show ?thesis using unlock.prems unfolding process_inv_def by blast
  qed
  then show ?case using under_way_unlock(1) [OF u] others unfolding process_inv_def by auto
next
  case (panic p t req w)
  then show ?case by (auto simp: process_inv_def)
qed

lemma process_reachable_inv: "process_reachable fl p \<Longrightarrow> process_inv fl p"
  by (induction rule: process_reachable.induct) (auto intro: process_start_inv process_step_inv)

lemma sent_samples_held: "range_order order (coSamples c) \<Longrightarrow> mset (sent_samples fl c order) = mset (held_series fl c)"
proof -
  assume "range_order order (coSamples c)"
  then have "mset order = mset (sorted_keys (coSamples c))"
    by (intro set_eq_iff_mset_eq_distinct [THEN iffD1]) (auto simp: range_order_def)
  then have "mset (map f order) = mset (map f (sorted_keys (coSamples c)))" for f :: "string \<Rightarrow> 'a series"
    by (metis mset_map)
  then show ?thesis by (simp add: sent_samples_def held_series_def)
qed

text \<open>C37: a scrape is a snapshot. However messages, sessions, losses and scrapes interleave on the goroutines of the process, at
  most one of them is inside the collector; while none is, it holds what the calls that returned
  leave when they are made one after the other; and what a scrape has sent are the series the
  collector held after exactly the calls that returned before it, each once.\<close>

theorem scrape_is_snapshot:
  assumes "process_reachable fl p"
  shows "(epHistory p = before @ (Collecting, sent) # after \<longrightarrow>
      mset sent = mset (held_series fl (replay fl (history_events before)))) \<and>
    (\<not> epCrashed p \<and> epLock p = None \<longrightarrow> epCollector p = replay fl (history_events (epHistory p))) \<and>
    (\<not> epCrashed p \<and> epThreads p t = Holding req w \<and> epThreads p t' = Holding req' w' \<longrightarrow> t = t')"
proof -
  have inv: "process_inv fl p" by (rule process_reachable_inv [OF assms])
  have "mset sent = mset (held_series fl (replay fl (history_events before)))"
    if "epHistory p = before @ (Collecting, sent) # after"
  proof -
    have "served_ok fl (history_collector fl before) Collecting sent"
      using inv that unfolding process_inv_def by blast
    then show ?thesis by (auto simp: served_ok_def sent_samples_held history_collector_def)
  qed
  moreover have "epCollector p = replay fl (history_events (epHistory p))" if "\<not> epCrashed p" "epLock p = None"
    using inv that by (simp add: process_inv_def history_collector_def)
  moreover have "t = t'" if "\<not> epCrashed p" "epThreads p t = Holding req w" "epThreads p t' = Holding req' w'"
  proof -
    have "epLock p = Some t" "epLock p = Some t'" using inv that unfolding process_inv_def by blast+
    then show ?thesis by simp
  qed
  ultimately show ?thesis by blast
qed

subsection \<open>The HTTP handler\<close>

text \<open>\<open>Describe\<close> sends nothing: the registry has no descriptor to refuse or to compare a scrape with.\<close>

definition Describe :: "string list" where
  "Describe = []"

datatype http_response = NotFound | Scrape string

text \<open>What the registry says to the descriptors of a collector, and how a scrape is written out.\<close>

record 'f http_lib =
  hlRegister :: "string list \<Rightarrow> go_error option"
  hlExpose :: "'f series list \<Rightarrow> string"

text \<open>A panic, of \<open>MustRegister\<close> or in a scrape, is \<open>None\<close>. The mux has the one path.\<close>

definition Handler :: "'f exporter_lib \<Rightarrow> 'f http_lib \<Rightarrow> 'f collector \<Rightarrow> string \<Rightarrow> http_response option" where
  "Handler fl hl c path =
     (if hlRegister hl Describe \<noteq> None then None
      else if path = ''/metrics'' then map_option (\<lambda>ss. Scrape (hlExpose hl ss)) (CollectSeries fl c)
      else Some NotFound)"

lemma Handler_serves:
  assumes "hlRegister hl [] = None" and "metric_rules fl" and "list_all plain_message events"
  shows "Handler fl hl (replay fl events) path = Some (if path = ''/metrics''
    then Scrape (hlExpose hl (held_series fl (replay fl events))) else NotFound)"
  using assms(1) scrape_total [OF assms(2,3)] CollectSeries_Some by (fastforce simp: Handler_def Describe_def)

subsection \<open>The calls of a run\<close>

datatype run_call = ConnectClient | ServeMetrics | ShutdownServer int | DisconnectClient int

text \<open>\<open>Run\<close>: the deferred calls come last, whichever way the wait ends.\<close>

definition run_calls :: "run_end \<Rightarrow> run_call list" where
  "run_calls e = [ConnectClient, ServeMetrics] @
     (case e of Cancelled _ \<Rightarrow> [ShutdownServer (seconds 5)] | ServeFailed _ \<Rightarrow> []) @ [DisconnectClient 250]"

lemma run_disconnects_last: "last (run_calls e) = DisconnectClient 250" "hd (run_calls e) = ConnectClient"
  by (simp_all add: run_calls_def)

subsection \<open>A concrete interleaving\<close>

text \<open>A scrape and a message at the same time: the message waits for the scrape.\<close>

definition sample_process :: "string exporter_process" where
  "sample_process = process_start\<lparr>epThreads := (epThreads process_start)(0 := Idle, 1 := Waiting Connecting),
     epHistory := [(Collecting, [connected_series sample_floats False])]\<rparr>"

lemma sample_process_reachable: "process_reachable sample_floats sample_process"
proof -
  let ?c = "connected_series sample_floats False"
  let ?p1 = "process_start\<lparr>epThreads := (epThreads process_start)(0 := Waiting Collecting)\<rparr> :: string exporter_process"
  let ?p2 = "?p1\<lparr>epLock := Some 0, epThreads := (epThreads ?p1)(0 := Holding Collecting (SendConnected []))\<rparr>"
  let ?p3 = "?p2\<lparr>epThreads := (epThreads ?p2)(1 := Waiting Connecting)\<rparr>"
  let ?p4 = "?p3\<lparr>epCollector := NewCollector, epThreads := (epThreads ?p3)(0 := Holding Collecting (SendSamples [] [?c]))\<rparr>"
  let ?p5 = "?p4\<lparr>epCollector := NewCollector, epThreads := (epThreads ?p4)(0 := Holding Collecting (Unlock [?c]))\<rparr>"
  let ?p6 = "?p5\<lparr>epLock := None, epThreads := (epThreads ?p5)(0 := Idle), epHistory := epHistory ?p5 @ [(Collecting, [?c])]\<rparr>"
  have named: "const_metric sample_floats ?c = Some ?c"
    by (simp add: const_metric_def sample_floats_def connected_series_def name_char_def is_digit_def)
  have fresh: "\<not> coConnected NewCollector" by (simp add: NewCollector_def)
  have "process_reachable sample_floats ?p1"
    by (rule process_reachable.step [OF process_reachable.start process_step.call]) (simp_all add: process_start_def)
  then have "process_reachable sample_floats ?p2"
    by (rule process_reachable.step [OF _ process_step.lock [where order = "[]"]])
      (simp_all add: process_start_def NewCollector_def range_order_def)
  then have "process_reachable sample_floats ?p3"
    by (rule process_reachable.step [OF _ process_step.call]) (simp_all add: process_start_def)
  then have "process_reachable sample_floats ?p4"
    by (rule process_reachable.step [OF _ process_step.run])
      (simp add: process_start_def named fresh)+
  then have "process_reachable sample_floats ?p5"
    by (rule process_reachable.step [OF _ process_step.run]) (simp add: process_start_def)+
  then have "process_reachable sample_floats ?p6"
    by (rule process_reachable.step [OF _ process_step.unlock]) (simp_all add: process_start_def)
  moreover have "?p6 = sample_process"
    by (simp add: sample_process_def process_start_def fun_eq_iff)
  ultimately show ?thesis by simp
qed

theorem scrape_is_snapshot_witness:
  "mset [connected_series sample_floats False] = mset (held_series sample_floats (replay sample_floats (history_events
     ([] :: (request \<times> string series list) list))))"
  using scrape_is_snapshot [OF sample_process_reachable, of "[]" "[connected_series sample_floats False]" "[]"]
  by (simp add: sample_process_def)

end
