(* ===== verification/GoMemory.thy ===== *)
theory GoMemory
  imports Prelude
begin

section \<open>Go memory\<close>

text \<open>
  Pointers, slices and maps of Go as references into a heap, for the code whose correctness
  depends on what is shared: the deep copies of the API types and the status writes over them.
  A cell holds one allocation; addresses below \<open>limit\<close> are in use. The elsewhere immutable values
  of the model are what such a heap denotes.

  A type with references is given by two functions of the heap: what a value of it denotes, and
  the cells it reaches. \<open>deep_copies\<close> is the contract of a copying function: the copy denotes the
  same, reaches fresh cells only, and the copying changes no cell that was in use. The contract
  is shown once for flat types, pointers and slices, and composed along the fields of a struct.
\<close>

datatype ref = Null | Ref nat

datatype slice = NilSlice | Slice nat nat nat

record 'c heap =
  cells :: "nat \<Rightarrow> 'c option"
  limit :: nat

definition set_cell :: "nat \<Rightarrow> 'c \<Rightarrow> 'c heap \<Rightarrow> 'c heap" where
  "set_cell a c h = h\<lparr>cells := (cells h)(a \<mapsto> c)\<rparr>"

text \<open>\<open>new\<close> and \<open>make\<close>: the address of a cell whose content is written before it is read.\<close>

definition new_cell :: "'c heap \<Rightarrow> nat \<times> 'c heap" where
  "new_cell h = (limit h, h\<lparr>limit := Suc (limit h)\<rparr>)"

text \<open>The content of a pointer. Go is typed: the cell of a non-nil pointer has its type.\<close>

definition deref :: "('c \<Rightarrow> 'a option) \<Rightarrow> ref \<Rightarrow> 'c heap \<Rightarrow> 'a option" where
  "deref sel p h = (case p of Null \<Rightarrow> None | Ref a \<Rightarrow> Option.bind (cells h a) sel)"

text \<open>The elements of a slice: a window of its array. Nil and empty slices differ.\<close>

definition elements :: "('c \<Rightarrow> 'a list option) \<Rightarrow> slice \<Rightarrow> 'c heap \<Rightarrow> 'a list option" where
  "elements sel s h = (case s of
       NilSlice \<Rightarrow> None
     | Slice a off n \<Rightarrow> map_option (\<lambda>xs. take n (drop off xs)) (Option.bind (cells h a) sel))"

subsection \<open>Copying\<close>

text \<open>The pattern of \<open>DeepCopy\<close>: nil for nil, else a new cell that the copy is written into.\<close>

definition copy_pointer ::
  "('c \<Rightarrow> 'a option) \<Rightarrow> ('a \<Rightarrow> 'c) \<Rightarrow> ('a \<Rightarrow> 'c heap \<Rightarrow> 'a \<times> 'c heap) \<Rightarrow> ref \<Rightarrow> 'c heap \<Rightarrow> ref \<times> 'c heap" where
  "copy_pointer sel mk cp p h = (case deref sel p h of
       None \<Rightarrow> (Null, h)
     | Some x \<Rightarrow> (let (a, h) = new_cell h; (y, h) = cp x h in (Ref a, set_cell a (mk y) h)))"

fun copy_elements :: "('a \<Rightarrow> 'c heap \<Rightarrow> 'a \<times> 'c heap) \<Rightarrow> 'a list \<Rightarrow> 'c heap \<Rightarrow> 'a list \<times> 'c heap" where
  "copy_elements cp [] h = ([], h)"
| "copy_elements cp (x # xs) h = (let (y, h) = cp x h; (ys, h) = copy_elements cp xs h in (y # ys, h))"

text \<open>A loop over a non-nil slice into an array made for it.\<close>

definition copy_slice ::
  "('c \<Rightarrow> 'a list option) \<Rightarrow> ('a list \<Rightarrow> 'c) \<Rightarrow> ('a \<Rightarrow> 'c heap \<Rightarrow> 'a \<times> 'c heap) \<Rightarrow> slice \<Rightarrow> 'c heap
     \<Rightarrow> slice \<times> 'c heap" where
  "copy_slice sel mk cp s h = (case elements sel s h of
       None \<Rightarrow> (NilSlice, h)
     | Some xs \<Rightarrow> (let (a, h) = new_cell h; (ys, h) = copy_elements cp xs h
                  in (Slice a 0 (length xs), set_cell a (mk ys) h)))"

text \<open>What a plain assignment copies.\<close>

definition copy_flat :: "'a \<Rightarrow> 'c heap \<Rightarrow> 'a \<times> 'c heap" where
  "copy_flat x h = (x, h)"

subsection \<open>Denotation and reach\<close>

definition pointer_value :: "('c \<Rightarrow> 'a option) \<Rightarrow> ('c heap \<Rightarrow> 'a \<Rightarrow> 'v) \<Rightarrow> 'c heap \<Rightarrow> ref \<Rightarrow> 'v option" where
  "pointer_value sel rd h p = map_option (rd h) (deref sel p h)"

definition pointer_cells :: "('c \<Rightarrow> 'a option) \<Rightarrow> ('c heap \<Rightarrow> 'a \<Rightarrow> nat set) \<Rightarrow> 'c heap \<Rightarrow> ref \<Rightarrow> nat set" where
  "pointer_cells sel rc h p =
     (case p of Null \<Rightarrow> {} | Ref a \<Rightarrow> {a}) \<union> (case deref sel p h of None \<Rightarrow> {} | Some x \<Rightarrow> rc h x)"

definition slice_value ::
  "('c \<Rightarrow> 'a list option) \<Rightarrow> ('c heap \<Rightarrow> 'a \<Rightarrow> 'v) \<Rightarrow> 'c heap \<Rightarrow> slice \<Rightarrow> 'v list option" where
  "slice_value sel rd h s = map_option (map (rd h)) (elements sel s h)"

definition slice_cells ::
  "('c \<Rightarrow> 'a list option) \<Rightarrow> ('c heap \<Rightarrow> 'a \<Rightarrow> nat set) \<Rightarrow> 'c heap \<Rightarrow> slice \<Rightarrow> nat set" where
  "slice_cells sel rc h s =
     (case s of NilSlice \<Rightarrow> {} | Slice a _ _ \<Rightarrow> {a}) \<union>
     (case elements sel s h of None \<Rightarrow> {} | Some xs \<Rightarrow> \<Union>x \<in> set xs. rc h x)"

definition flat_value :: "'c heap \<Rightarrow> 'a \<Rightarrow> 'a" where
  "flat_value h x = x"

definition no_cells :: "'c heap \<Rightarrow> 'a \<Rightarrow> nat set" where
  "no_cells h x = {}"

definition extends :: "'c heap \<Rightarrow> 'c heap \<Rightarrow> bool" where
  "extends h h' \<longleftrightarrow> limit h \<le> limit h' \<and> (\<forall>a < limit h. cells h' a = cells h a)"

text \<open>What a value denotes and reaches depends on the cells it reaches only.\<close>

definition reads_cells :: "('c heap \<Rightarrow> 'a \<Rightarrow> 'v) \<Rightarrow> ('c heap \<Rightarrow> 'a \<Rightarrow> nat set) \<Rightarrow> bool" where
  "reads_cells rd rc \<longleftrightarrow> (\<forall>h h' x. (\<forall>a \<in> rc h x. cells h' a = cells h a) \<longrightarrow> rd h' x = rd h x \<and> rc h' x = rc h x)"

definition in_use :: "('c heap \<Rightarrow> 'a \<Rightarrow> nat set) \<Rightarrow> 'c heap \<Rightarrow> 'a \<Rightarrow> bool" where
  "in_use rc h x \<longleftrightarrow> rc h x \<subseteq> {..<limit h}"

definition copied :: "('c heap \<Rightarrow> 'a \<Rightarrow> 'v) \<Rightarrow> ('c heap \<Rightarrow> 'a \<Rightarrow> nat set) \<Rightarrow> 'c heap \<Rightarrow> 'a \<Rightarrow> 'c heap \<Rightarrow> 'a \<Rightarrow> bool" where
  "copied rd rc h x h' y \<longleftrightarrow> rd h' y = rd h x \<and> rc h' y \<subseteq> {limit h..<limit h'}"

definition deep_copies ::
  "('c heap \<Rightarrow> 'a \<Rightarrow> 'v) \<Rightarrow> ('c heap \<Rightarrow> 'a \<Rightarrow> nat set) \<Rightarrow> ('a \<Rightarrow> 'c heap \<Rightarrow> 'a \<times> 'c heap) \<Rightarrow> bool" where
  "deep_copies rd rc cp \<longleftrightarrow> reads_cells rd rc \<and>
     (\<forall>x h y h'. in_use rc h x \<longrightarrow> cp x h = (y, h') \<longrightarrow> extends h h' \<and> copied rd rc h x h' y)"

subsection \<open>The contract along a chain of copies\<close>

lemma extends_refl [simp]: "extends h h"
  by (simp add: extends_def)

lemma extends_trans [trans]: "extends h h' \<Longrightarrow> extends h' h'' \<Longrightarrow> extends h h''"
  by (auto simp: extends_def)

lemma extends_new: "new_cell h = (a, h') \<Longrightarrow> extends h h' \<and> a = limit h \<and> limit h' = Suc a"
  by (auto simp: new_cell_def extends_def)

lemma extends_set: "extends h h' \<Longrightarrow> limit h \<le> a \<Longrightarrow> extends h (set_cell a c h')"
  by (simp add: extends_def set_cell_def)

lemma set_cell_simps [simp]:
  "cells (set_cell a c h) b = (if b = a then Some c else cells h b)" "limit (set_cell a c h) = limit h"
  by (simp_all add: set_cell_def)

lemma reads_cellsD:
  "reads_cells rd rc \<Longrightarrow> (\<And>a. a \<in> rc h x \<Longrightarrow> cells h' a = cells h a) \<Longrightarrow> rd h' x = rd h x \<and> rc h' x = rc h x"
  unfolding reads_cells_def by blast

text \<open>A value in use is untouched by whatever extends the heap.\<close>

lemma kept:
  assumes "reads_cells rd rc" and "in_use rc h x" and "extends h h'"
  shows "rd h' x = rd h x" and "rc h' x = rc h x" and "in_use rc h' x"
proof -
  have "cells h' a = cells h a" if "a \<in> rc h x" for a
    using that assms(2,3) by (auto simp: in_use_def extends_def)
  then have k: "rd h' x = rd h x \<and> rc h' x = rc h x" by (rule reads_cellsD [OF assms(1)])
  then show "rd h' x = rd h x" "rc h' x = rc h x" by simp_all
  show "in_use rc h' x" using k assms(2,3) by (auto simp: in_use_def extends_def)
qed

lemma copied_in_use: "copied rd rc h x h' y \<Longrightarrow> in_use rc h' y"
  by (auto simp: copied_def in_use_def)

lemma copied_extends:
  assumes "reads_cells rd rc" and "copied rd rc h x h' y" and "extends h' h''"
  shows "copied rd rc h x h'' y"
proof -
  note k = kept [OF assms(1) copied_in_use [OF assms(2)] assms(3)]
  have "limit h' \<le> limit h''" using assms(3) by (simp add: extends_def)
  then show ?thesis using assms(2) k by (auto simp: copied_def)
qed

text \<open>One more copy, of a part of the original, into a heap that already holds other copies.\<close>

lemma copied_step:
  assumes "deep_copies rd rc cp" and "in_use rc h0 x" and "extends h0 h" and "cp x h = (y, h')"
  shows "extends h h'" and "extends h0 h'" and "copied rd rc h0 x h' y" and "rc h' y \<subseteq> {limit h..<limit h'}"
proof -
  have l: "reads_cells rd rc" using assms(1) by (simp add: deep_copies_def)
  note k = kept [OF l assms(2,3)]
  have c: "extends h h' \<and> copied rd rc h x h' y"
    using assms(1,4) k(3) unfolding deep_copies_def by blast
  then show "extends h h'" "extends h0 h'" using assms(3) by (auto intro: extends_trans)
  show "rc h' y \<subseteq> {limit h..<limit h'}" using c by (simp add: copied_def)
  then show "copied rd rc h0 x h' y" using c k(1) assms(3) by (auto simp: copied_def extends_def)
qed

subsection \<open>Flat values, pointers and slices\<close>

lemma reads_flat: "reads_cells flat_value no_cells"
  by (simp add: reads_cells_def flat_value_def no_cells_def)

lemma copies_flat: "deep_copies flat_value no_cells copy_flat"
  by (auto simp: deep_copies_def reads_flat copy_flat_def copied_def no_cells_def flat_value_def)

lemma reads_pointer:
  fixes rd :: "'c heap \<Rightarrow> 'a \<Rightarrow> 'v"
  assumes "reads_cells rd rc"
  shows "reads_cells (pointer_value sel rd) (pointer_cells sel rc)"
  unfolding reads_cells_def
proof (intro allI impI)
  fix h h' :: "'c heap" and p assume same: "\<forall>a \<in> pointer_cells sel rc h p. cells h' a = cells h a"
  have d: "deref sel p h' = deref sel p h"
    using same by (cases p) (auto simp: deref_def pointer_cells_def)
  have "rd h' x = rd h x \<and> rc h' x = rc h x" if "deref sel p h = Some x" for x
    by (rule reads_cellsD [OF assms]) (use that same in \<open>cases p; auto simp: pointer_cells_def deref_def\<close>)
  then show "pointer_value sel rd h' p = pointer_value sel rd h p \<and> pointer_cells sel rc h' p = pointer_cells sel rc h p"
    unfolding pointer_value_def pointer_cells_def d by (cases "deref sel p h") simp_all
qed

lemma pointer_part: "in_use (pointer_cells sel rc) h p \<Longrightarrow> deref sel p h = Some x \<Longrightarrow> in_use rc h x"
  by (cases p) (auto simp: in_use_def pointer_cells_def deref_def)

lemma copies_pointer:
  assumes "deep_copies rd rc cp" and mk: "\<And>y. sel (mk y) = Some y"
  shows "deep_copies (pointer_value sel rd) (pointer_cells sel rc) (copy_pointer sel mk cp)"
  unfolding deep_copies_def
proof (intro conjI allI impI)
  have l: "reads_cells rd rc" using assms(1) by (simp add: deep_copies_def)
  then show "reads_cells (pointer_value sel rd) (pointer_cells sel rc)" by (rule reads_pointer)
  fix p h q h' assume use: "in_use (pointer_cells sel rc) h p" and run: "copy_pointer sel mk cp p h = (q, h')"
  show "extends h h'" and "copied (pointer_value sel rd) (pointer_cells sel rc) h p h' q"
  proof (atomize (full), cases "deref sel p h")
    case None
    then show "extends h h' \<and> copied (pointer_value sel rd) (pointer_cells sel rc) h p h' q"
      using run by (auto simp: copy_pointer_def copied_def pointer_value_def pointer_cells_def deref_def split: ref.splits)
  next
    case (Some x)
    obtain a h1 y h2 where n: "new_cell h = (a, h1)" and c: "cp x h1 = (y, h2)"
      and q: "q = Ref a" "h' = set_cell a (mk y) h2"
      using run Some by (auto simp: copy_pointer_def Let_def split: prod.splits)
    note n = extends_new [OF n]
    note step = copied_step [OF assms(1) pointer_part [OF use Some] n [THEN conjunct1] c]
    have fresh: "a \<notin> rc h2 y" using step(4) n by auto
    have k: "rd h' y = rd h2 y \<and> rc h' y = rc h2 y"
      unfolding q by (rule reads_cellsD [OF l]) (use fresh in auto)
    have "a < limit h2" using n step(1) by (auto simp: extends_def)
    then have "copied (pointer_value sel rd) (pointer_cells sel rc) h p h' q"
      using k step(3,4) n Some by (auto simp: copied_def pointer_value_def pointer_cells_def deref_def q mk)
    then show "extends h h' \<and> copied (pointer_value sel rd) (pointer_cells sel rc) h p h' q"
      using extends_set [OF step(2)] n by (simp add: q)
  qed
qed

lemma copy_elements_copied:
  assumes "deep_copies rd rc cp"
  shows "extends h0 h \<Longrightarrow> (\<And>x. x \<in> set xs \<Longrightarrow> in_use rc h0 x) \<Longrightarrow> copy_elements cp xs h = (ys, h') \<Longrightarrow>
    extends h h' \<and> map (rd h') ys = map (rd h0) xs \<and> (\<forall>y \<in> set ys. rc h' y \<subseteq> {limit h..<limit h'})"
proof (induction xs arbitrary: h ys)
  case Nil
  then show ?case by simp
next
  case (Cons x xs)
  have l: "reads_cells rd rc" using assms by (simp add: deep_copies_def)
  obtain y h1 zs where c: "cp x h = (y, h1)" "copy_elements cp xs h1 = (zs, h')" "ys = y # zs"
    using Cons.prems(3) by (auto simp: Let_def split: prod.splits)
  note step = copied_step [OF assms Cons.prems(2) Cons.prems(1) c(1), OF list.set_intros(1)]
  have rest: "extends h1 h'" "map (rd h') zs = map (rd h0) xs" "\<forall>z \<in> set zs. rc h' z \<subseteq> {limit h1..<limit h'}"
    using Cons.IH [OF step(2) Cons.prems(2) c(2)] by simp_all
  have use: "in_use rc h1 y" using step(4) by (auto simp: in_use_def)
  note k = kept [OF l use rest(1)]
  have "limit h \<le> limit h1" "limit h1 \<le> limit h'" using step(1) rest(1) by (simp_all add: extends_def)
  then have "{limit h1..<limit h'} \<subseteq> {limit h..<limit h'}" "{limit h..<limit h1} \<subseteq> {limit h..<limit h'}" by auto
  then have "\<forall>z \<in> set ys. rc h' z \<subseteq> {limit h..<limit h'}"
    unfolding c(3) using k(2) step(4) rest(3) by (simp, blast)
  then show ?case
    using k(1) step(3) rest(2) extends_trans [OF step(1) rest(1)] by (simp add: c(3) copied_def)
qed

lemma reads_slice:
  fixes rd :: "'c heap \<Rightarrow> 'a \<Rightarrow> 'v"
  assumes "reads_cells rd rc"
  shows "reads_cells (slice_value sel rd) (slice_cells sel rc)"
  unfolding reads_cells_def
proof (intro allI impI)
  fix h h' :: "'c heap" and s assume same: "\<forall>a \<in> slice_cells sel rc h s. cells h' a = cells h a"
  have d: "elements sel s h' = elements sel s h"
    using same by (cases s) (auto simp: elements_def slice_cells_def)
  have k: "rd h' x = rd h x \<and> rc h' x = rc h x" if "elements sel s h = Some xs" "x \<in> set xs" for x xs
    by (rule reads_cellsD [OF assms]) (use that same in \<open>cases s; auto simp: slice_cells_def elements_def\<close>)
  show "slice_value sel rd h' s = slice_value sel rd h s \<and> slice_cells sel rc h' s = slice_cells sel rc h s"
  proof (cases "elements sel s h")
    case (Some xs)
    then show ?thesis
      unfolding slice_value_def slice_cells_def d using k [OF Some] by simp
  qed (simp add: slice_value_def slice_cells_def d)
qed

lemma slice_part: "in_use (slice_cells sel rc) h s \<Longrightarrow> elements sel s h = Some xs \<Longrightarrow> x \<in> set xs \<Longrightarrow> in_use rc h x"
  by (auto simp: in_use_def slice_cells_def elements_def split: slice.splits)

lemma copies_slice:
  assumes "deep_copies rd rc cp" and mk: "\<And>ys. sel (mk ys) = Some ys"
  shows "deep_copies (slice_value sel rd) (slice_cells sel rc) (copy_slice sel mk cp)"
  unfolding deep_copies_def
proof (intro conjI allI impI)
  have l: "reads_cells rd rc" using assms(1) by (simp add: deep_copies_def)
  then show "reads_cells (slice_value sel rd) (slice_cells sel rc)" by (rule reads_slice)
  fix s h t h' assume use: "in_use (slice_cells sel rc) h s" and run: "copy_slice sel mk cp s h = (t, h')"
  show "extends h h'" and "copied (slice_value sel rd) (slice_cells sel rc) h s h' t"
  proof (atomize (full), cases "elements sel s h")
    case None
    then show "extends h h' \<and> copied (slice_value sel rd) (slice_cells sel rc) h s h' t"
      using run by (auto simp: copy_slice_def copied_def slice_value_def slice_cells_def elements_def split: slice.splits)
  next
    case (Some xs)
    obtain a h1 ys h2 where n: "new_cell h = (a, h1)" and c: "copy_elements cp xs h1 = (ys, h2)"
      and t: "t = Slice a 0 (length xs)" "h' = set_cell a (mk ys) h2"
      using run Some by (auto simp: copy_slice_def Let_def split: prod.splits)
    note n = extends_new [OF n]
    have step: "extends h1 h2" "map (rd h2) ys = map (rd h) xs" "\<forall>y \<in> set ys. rc h2 y \<subseteq> {limit h1..<limit h2}"
      using copy_elements_copied [OF assms(1) n [THEN conjunct1] slice_part [OF use Some] c] by simp_all
    have len: "length ys = length xs" using step(2) by (metis length_map)
    have k: "rd h' y = rd h2 y \<and> rc h' y = rc h2 y" if "y \<in> set ys" for y
    proof -
      have "a \<notin> rc h2 y" using that step(3) n by fastforce
      then have "cells h' b = cells h2 b" if "b \<in> rc h2 y" for b using that by (auto simp: t)
      then show ?thesis by (rule reads_cellsD [OF l])
    qed
    have "a < limit h2" using n step(1) by (auto simp: extends_def)
    moreover have "map (rd h') ys = map (rd h) xs" using k step(2) by (metis (no_types, lifting) map_cong)
    ultimately have "copied (slice_value sel rd) (slice_cells sel rc) h s h' t"
      using k step(3) n Some len by (fastforce simp: copied_def slice_value_def slice_cells_def elements_def t mk)
    moreover have "extends h h2" using n step(1) by (auto intro: extends_trans)
    ultimately show "extends h h' \<and> copied (slice_value sel rd) (slice_cells sel rc) h s h' t"
      using extends_set [of h h2 a "mk ys"] n by (simp add: t)
  qed
qed

end
