(* ===== verification/DeepCopy.thy ===== *)
theory DeepCopy
  imports GoMemory ApiTypes
begin

section \<open>The deep copies of the API types (api/v1/zz_generated.deepcopy.go)\<close>

text \<open>
  The structs of \<open>api/v1\<close> as they lie in memory, with their pointers, slices and maps, and the
  copying functions over them. A struct with references is a record whose reference fields are type
  parameters: references in memory, values once they are read. \<open>DeepCopyInto\<close> takes the struct its
  receiver points to and gives the one it writes; \<open>DeepCopy\<close> and \<open>DeepCopyObject\<close> take pointers.

  \<open>ObjectMeta\<close>, \<open>ListMeta\<close>, \<open>ResourceRequirements\<close> and \<open>Condition\<close> are types of the Kubernetes libraries: what
  lies in memory for them is the type \<open>'l\<close>, and their copying functions and what they denote are
  the fields of \<open>api_lib\<close>.
\<close>

subsection \<open>Structs\<close>

record type_meta =
  tmKind :: string
  tmAPIVersion :: string

record list_meta =
  lmResourceVersion :: string
  lmContinue :: string

record 'str storage_struct =
  gSize :: string
  gStorageClassName :: 'str

record ('tls, 'res, 'sto, 'map, 'met) spec_struct =
  gReplicas :: int
  gImage :: string
  gConfig :: string
  gAntiAffinity :: string
  gTLS :: 'tls
  gResources :: 'res
  gStorage :: 'sto
  gPodLabels :: 'map
  gPodAnnotations :: 'map
  gMetrics :: 'met

record 'conds status_struct =
  gPhase :: string
  gReadyReplicas :: int
  gObservedGeneration :: int
  gUsers :: int
  gConditions :: 'conds

record broker_ref =
  brokerRefName :: string

record 'acls user_spec_struct =
  gBrokerRef :: broker_ref
  gCredentialsSecret :: credentials_secret
  gACLs :: 'acls

record 'conds user_status_struct =
  gUserObservedGeneration :: int
  gUsername :: string
  gUserConditions :: 'conds

text \<open>\<open>Mosquitto\<close> and \<open>MosquittoUser\<close> have the same fields, and so have their lists.\<close>

record ('meta, 'spec, 'status) object_struct =
  gTypeMeta :: type_meta
  gObjectMeta :: 'meta
  gSpec :: 'spec
  gStatus :: 'status

record ('meta, 'items) list_struct =
  gListTypeMeta :: type_meta
  gListMeta :: 'meta
  gItems :: 'items

type_synonym 'l spec_mem = "(ref, 'l, ref, ref, ref) spec_struct"
type_synonym 'l broker_mem = "('l, 'l spec_mem, slice status_struct) object_struct"
type_synonym 'l user_mem = "('l, slice user_spec_struct, slice user_status_struct) object_struct"
type_synonym 'l list_mem = "('l, slice) list_struct"

type_synonym storage_value = "string option storage_struct"
type_synonym spec_value =
  "(mosquitto_tls option, resource_requirements, storage_value option, strmap option, mosquitto_metrics option) spec_struct"
type_synonym broker_value = "(object_meta, spec_value, condition list option status_struct) object_struct"
type_synonym user_value =
  "(object_meta, mosquitto_acl list option user_spec_struct, condition list option user_status_struct) object_struct"

subsection \<open>Cells\<close>

datatype 'l cell =
    LibCell 'l
  | StringCell string
  | MapCell strmap
  | TLSCell mosquitto_tls
  | MetricsCell mosquitto_metrics
  | StorageCell "ref storage_struct"
  | ACLCell mosquitto_acl
  | BrokerRefCell broker_ref
  | CredentialsCell credentials_secret
  | SpecCell "'l spec_mem"
  | StatusCell "slice status_struct"
  | UserSpecCell "slice user_spec_struct"
  | UserStatusCell "slice user_status_struct"
  | BrokerCell "'l broker_mem"
  | UserCell "'l user_mem"
  | BrokerListCell "'l list_mem"
  | UserListCell "'l list_mem"
  | ACLArray "mosquitto_acl list"
  | ConditionArray "'l list"
  | BrokerArray "'l broker_mem list"
  | UserArray "'l user_mem list"

type_synonym 'l mem = "'l cell heap"

text \<open>The content of a cell of a type.\<close>

definition the_string :: "'l cell \<Rightarrow> string option" where
  "the_string c = (case c of StringCell x \<Rightarrow> Some x | _ \<Rightarrow> None)"
definition the_map :: "'l cell \<Rightarrow> strmap option" where
  "the_map c = (case c of MapCell x \<Rightarrow> Some x | _ \<Rightarrow> None)"
definition the_tls :: "'l cell \<Rightarrow> mosquitto_tls option" where
  "the_tls c = (case c of TLSCell x \<Rightarrow> Some x | _ \<Rightarrow> None)"
definition the_metrics :: "'l cell \<Rightarrow> mosquitto_metrics option" where
  "the_metrics c = (case c of MetricsCell x \<Rightarrow> Some x | _ \<Rightarrow> None)"
definition the_storage :: "'l cell \<Rightarrow> ref storage_struct option" where
  "the_storage c = (case c of StorageCell x \<Rightarrow> Some x | _ \<Rightarrow> None)"
definition the_acl :: "'l cell \<Rightarrow> mosquitto_acl option" where
  "the_acl c = (case c of ACLCell x \<Rightarrow> Some x | _ \<Rightarrow> None)"
definition the_broker_ref :: "'l cell \<Rightarrow> broker_ref option" where
  "the_broker_ref c = (case c of BrokerRefCell x \<Rightarrow> Some x | _ \<Rightarrow> None)"
definition the_credentials :: "'l cell \<Rightarrow> credentials_secret option" where
  "the_credentials c = (case c of CredentialsCell x \<Rightarrow> Some x | _ \<Rightarrow> None)"
definition the_spec :: "'l cell \<Rightarrow> 'l spec_mem option" where
  "the_spec c = (case c of SpecCell x \<Rightarrow> Some x | _ \<Rightarrow> None)"
definition the_status :: "'l cell \<Rightarrow> slice status_struct option" where
  "the_status c = (case c of StatusCell x \<Rightarrow> Some x | _ \<Rightarrow> None)"
definition the_user_spec :: "'l cell \<Rightarrow> slice user_spec_struct option" where
  "the_user_spec c = (case c of UserSpecCell x \<Rightarrow> Some x | _ \<Rightarrow> None)"
definition the_user_status :: "'l cell \<Rightarrow> slice user_status_struct option" where
  "the_user_status c = (case c of UserStatusCell x \<Rightarrow> Some x | _ \<Rightarrow> None)"
definition the_broker :: "'l cell \<Rightarrow> 'l broker_mem option" where
  "the_broker c = (case c of BrokerCell x \<Rightarrow> Some x | _ \<Rightarrow> None)"
definition the_user :: "'l cell \<Rightarrow> 'l user_mem option" where
  "the_user c = (case c of UserCell x \<Rightarrow> Some x | _ \<Rightarrow> None)"
definition the_broker_list :: "'l cell \<Rightarrow> 'l list_mem option" where
  "the_broker_list c = (case c of BrokerListCell x \<Rightarrow> Some x | _ \<Rightarrow> None)"
definition the_user_list :: "'l cell \<Rightarrow> 'l list_mem option" where
  "the_user_list c = (case c of UserListCell x \<Rightarrow> Some x | _ \<Rightarrow> None)"
definition the_acls :: "'l cell \<Rightarrow> mosquitto_acl list option" where
  "the_acls c = (case c of ACLArray x \<Rightarrow> Some x | _ \<Rightarrow> None)"
definition the_conditions :: "'l cell \<Rightarrow> 'l list option" where
  "the_conditions c = (case c of ConditionArray x \<Rightarrow> Some x | _ \<Rightarrow> None)"
definition the_brokers :: "'l cell \<Rightarrow> 'l broker_mem list option" where
  "the_brokers c = (case c of BrokerArray x \<Rightarrow> Some x | _ \<Rightarrow> None)"
definition the_users :: "'l cell \<Rightarrow> 'l user_mem list option" where
  "the_users c = (case c of UserArray x \<Rightarrow> Some x | _ \<Rightarrow> None)"

lemma cell_contents [simp]:
  "the_string (StringCell x0) = Some x0"
  "the_map (MapCell x1) = Some x1"
  "the_tls (TLSCell x2) = Some x2"
  "the_metrics (MetricsCell x3) = Some x3"
  "the_storage (StorageCell x4) = Some x4"
  "the_acl (ACLCell x5) = Some x5"
  "the_broker_ref (BrokerRefCell x6) = Some x6"
  "the_credentials (CredentialsCell x7) = Some x7"
  "the_spec (SpecCell x8) = Some x8"
  "the_status (StatusCell x9) = Some x9"
  "the_user_spec (UserSpecCell x10) = Some x10"
  "the_user_status (UserStatusCell x11) = Some x11"
  "the_broker (BrokerCell x12) = Some x12"
  "the_user (UserCell x13) = Some x13"
  "the_broker_list (BrokerListCell x14) = Some x14"
  "the_user_list (UserListCell x15) = Some x15"
  "the_acls (ACLArray x16) = Some x16"
  "the_conditions (ConditionArray x17) = Some x17"
  "the_brokers (BrokerArray x18) = Some x18"
  "the_users (UserArray x19) = Some x19"
  by (simp_all add: the_string_def the_map_def the_tls_def the_metrics_def the_storage_def the_acl_def the_broker_ref_def the_credentials_def the_spec_def the_status_def the_user_spec_def the_user_status_def the_broker_def the_user_def the_broker_list_def the_user_list_def the_acls_def the_conditions_def the_brokers_def the_users_def)

subsection \<open>The library\<close>

record 'l api_lib =
  alObjectMeta :: "'l mem \<Rightarrow> 'l \<Rightarrow> object_meta"
  alListMeta :: "'l mem \<Rightarrow> 'l \<Rightarrow> list_meta"
  alResources :: "'l mem \<Rightarrow> 'l \<Rightarrow> resource_requirements"
  alCondition :: "'l mem \<Rightarrow> 'l \<Rightarrow> condition"
  alCells :: "'l mem \<Rightarrow> 'l \<Rightarrow> nat set"
  alObjectMetaCopy :: "'l \<Rightarrow> 'l mem \<Rightarrow> 'l \<times> 'l mem"
  alListMetaCopy :: "'l \<Rightarrow> 'l mem \<Rightarrow> 'l \<times> 'l mem"
  alResourcesCopy :: "'l \<Rightarrow> 'l mem \<Rightarrow> 'l \<times> 'l mem"
  alConditionCopy :: "'l \<Rightarrow> 'l mem \<Rightarrow> 'l \<times> 'l mem"

definition api_lib_copies :: "'l api_lib \<Rightarrow> bool" where
  "api_lib_copies al \<longleftrightarrow>
     deep_copies (alObjectMeta al) (alCells al) (alObjectMetaCopy al) \<and>
     deep_copies (alListMeta al) (alCells al) (alListMetaCopy al) \<and>
     deep_copies (alResources al) (alCells al) (alResourcesCopy al) \<and>
     deep_copies (alCondition al) (alCells al) (alConditionCopy al)"

subsection \<open>Maps and flat structs\<close>

text \<open>
  The loop over the entries of a map. Go visits them in any order; \<open>copy_entries_any_order\<close> shows that
  the order does not matter.
\<close>

definition copy_entries :: "(string \<times> string) list \<Rightarrow> strmap" where
  "copy_entries es = fold (\<lambda>(k, v) out. fmupd k v out) es fmempty"

definition map_entries :: "strmap \<Rightarrow> (string \<times> string) list" where
  "map_entries m = map (\<lambda>k. (k, go_get m k)) (sorted_keys m)"

definition copy_map :: "strmap \<Rightarrow> 'l mem \<Rightarrow> strmap \<times> 'l mem" where
  "copy_map m h = (copy_entries (map_entries m), h)"

lemma fold_entries:
  "k \<notin> fst ` set es \<Longrightarrow> fmlookup (fold (\<lambda>(k, v) out. fmupd k v out) es m) k = fmlookup m k"
  "distinct (map fst es) \<Longrightarrow> (k, v) \<in> set es \<Longrightarrow> fmlookup (fold (\<lambda>(k, v) out. fmupd k v out) es m) k = Some v"
proof (induction es arbitrary: m)
  case (Cons e es)
  { case 1 then show ?case using Cons.IH(1) by (cases e) auto }
  { case 2
    show ?case
    proof (cases "(k, v) = e")
      case True
      then have "k \<notin> fst ` set es" using 2(1) by (cases e) simp
      then show ?thesis using Cons.IH(1) True by (cases e) auto
    next
      case False
      then have "(k, v) \<in> set es" using 2(2) by simp
      then show ?thesis using Cons.IH(2) 2(1) by (cases e) auto
    qed }
qed simp_all

lemma copy_entries_any_order:
  assumes "distinct (map fst es)" and "\<And>k v. (k, v) \<in> set es \<longleftrightarrow> fmlookup m k = Some v"
  shows "copy_entries es = m"
proof (rule fmap_ext)
  fix k
  show "fmlookup (copy_entries es) k = fmlookup m k"
  proof (cases "fmlookup m k")
    case None
    then have "k \<notin> fst ` set es" using assms(2) by auto
    then show ?thesis using None by (simp add: copy_entries_def fold_entries(1))
  next
    case (Some v)
    then show ?thesis using fold_entries(2) [OF assms(1)] assms(2) by (simp add: copy_entries_def)
  qed
qed

lemma copy_map_same: "copy_entries (map_entries m) = m"
proof (rule copy_entries_any_order)
  show "distinct (map fst (map_entries m))" by (simp add: map_entries_def comp_def)
  show "(k, v) \<in> set (map_entries m) \<longleftrightarrow> fmlookup m k = Some v" for k v
    by (cases "fmlookup m k") (auto simp: map_entries_def go_get_def fmlookup_dom_iff image_iff)
qed

lemma copies_map: "deep_copies flat_value no_cells (copy_map :: strmap \<Rightarrow> 'l mem \<Rightarrow> strmap \<times> 'l mem)"
proof -
  have "(copy_map :: strmap \<Rightarrow> 'l mem \<Rightarrow> strmap \<times> 'l mem) = copy_flat" by (simp add: fun_eq_iff copy_map_def copy_map_same copy_flat_def)
  then show ?thesis by (simp add: copies_flat)
qed

definition MosquittoACL_DeepCopyInto :: "mosquitto_acl \<Rightarrow> 'l mem \<Rightarrow> mosquitto_acl \<times> 'l mem" where
  "MosquittoACL_DeepCopyInto x h = copy_flat x h"

definition MosquittoBrokerRef_DeepCopyInto :: "broker_ref \<Rightarrow> 'l mem \<Rightarrow> broker_ref \<times> 'l mem" where
  "MosquittoBrokerRef_DeepCopyInto x h = copy_flat x h"

definition MosquittoCredentialsSecret_DeepCopyInto ::
  "credentials_secret \<Rightarrow> 'l mem \<Rightarrow> credentials_secret \<times> 'l mem" where
  "MosquittoCredentialsSecret_DeepCopyInto x h = copy_flat x h"

definition MosquittoMetrics_DeepCopyInto :: "mosquitto_metrics \<Rightarrow> 'l mem \<Rightarrow> mosquitto_metrics \<times> 'l mem" where
  "MosquittoMetrics_DeepCopyInto x h = copy_flat x h"

definition MosquittoTLS_DeepCopyInto :: "mosquitto_tls \<Rightarrow> 'l mem \<Rightarrow> mosquitto_tls \<times> 'l mem" where
  "MosquittoTLS_DeepCopyInto x h = copy_flat x h"

subsection \<open>Structs with references\<close>

definition MosquittoStorage_DeepCopyInto :: "ref storage_struct \<Rightarrow> 'l mem \<Rightarrow> ref storage_struct \<times> 'l mem" where
  "MosquittoStorage_DeepCopyInto s h =
     (let out = s;
          (name, h) = copy_pointer the_string StringCell copy_flat (gStorageClassName s) h
      in (out\<lparr>gStorageClassName := name\<rparr>, h))"

definition MosquittoSpec_DeepCopyInto :: "'l api_lib \<Rightarrow> 'l spec_mem \<Rightarrow> 'l mem \<Rightarrow> 'l spec_mem \<times> 'l mem" where
  "MosquittoSpec_DeepCopyInto al s h =
     (let out = s;
          (tls, h) = copy_pointer the_tls TLSCell copy_flat (gTLS s) h;
          (res, h) = alResourcesCopy al (gResources s) h;
          (sto, h) = copy_pointer the_storage StorageCell MosquittoStorage_DeepCopyInto (gStorage s) h;
          (labels, h) = copy_pointer the_map MapCell copy_map (gPodLabels s) h;
          (annotations, h) = copy_pointer the_map MapCell copy_map (gPodAnnotations s) h;
          (metrics, h) = copy_pointer the_metrics MetricsCell copy_flat (gMetrics s) h
      in (out\<lparr>gTLS := tls, gResources := res, gStorage := sto, gPodLabels := labels,
           gPodAnnotations := annotations, gMetrics := metrics\<rparr>, h))"

definition MosquittoStatus_DeepCopyInto ::
  "'l api_lib \<Rightarrow> slice status_struct \<Rightarrow> 'l mem \<Rightarrow> slice status_struct \<times> 'l mem" where
  "MosquittoStatus_DeepCopyInto al s h =
     (let out = s;
          (conds, h) = copy_slice the_conditions ConditionArray (alConditionCopy al) (gConditions s) h
      in (out\<lparr>gConditions := conds\<rparr>, h))"

definition MosquittoUserSpec_DeepCopyInto ::
  "slice user_spec_struct \<Rightarrow> 'l mem \<Rightarrow> slice user_spec_struct \<times> 'l mem" where
  "MosquittoUserSpec_DeepCopyInto s h =
     (let out = s\<lparr>gBrokerRef := gBrokerRef s, gCredentialsSecret := gCredentialsSecret s\<rparr>;
          (acls, h) = copy_slice the_acls ACLArray copy_flat (gACLs s) h
      in (out\<lparr>gACLs := acls\<rparr>, h))"

definition MosquittoUserStatus_DeepCopyInto ::
  "'l api_lib \<Rightarrow> slice user_status_struct \<Rightarrow> 'l mem \<Rightarrow> slice user_status_struct \<times> 'l mem" where
  "MosquittoUserStatus_DeepCopyInto al s h =
     (let out = s;
          (conds, h) = copy_slice the_conditions ConditionArray (alConditionCopy al) (gUserConditions s) h
      in (out\<lparr>gUserConditions := conds\<rparr>, h))"

definition Mosquitto_DeepCopyInto :: "'l api_lib \<Rightarrow> 'l broker_mem \<Rightarrow> 'l mem \<Rightarrow> 'l broker_mem \<times> 'l mem" where
  "Mosquitto_DeepCopyInto al m h =
     (let out = m\<lparr>gTypeMeta := gTypeMeta m\<rparr>;
          (mt, h) = alObjectMetaCopy al (gObjectMeta m) h;
          (spec, h) = MosquittoSpec_DeepCopyInto al (gSpec m) h;
          (status, h) = MosquittoStatus_DeepCopyInto al (gStatus m) h
      in (out\<lparr>gObjectMeta := mt, gSpec := spec, gStatus := status\<rparr>, h))"

definition MosquittoUser_DeepCopyInto :: "'l api_lib \<Rightarrow> 'l user_mem \<Rightarrow> 'l mem \<Rightarrow> 'l user_mem \<times> 'l mem" where
  "MosquittoUser_DeepCopyInto al u h =
     (let out = u\<lparr>gTypeMeta := gTypeMeta u\<rparr>;
          (mt, h) = alObjectMetaCopy al (gObjectMeta u) h;
          (spec, h) = MosquittoUserSpec_DeepCopyInto (gSpec u) h;
          (status, h) = MosquittoUserStatus_DeepCopyInto al (gStatus u) h
      in (out\<lparr>gObjectMeta := mt, gSpec := spec, gStatus := status\<rparr>, h))"

definition MosquittoList_DeepCopyInto :: "'l api_lib \<Rightarrow> 'l list_mem \<Rightarrow> 'l mem \<Rightarrow> 'l list_mem \<times> 'l mem" where
  "MosquittoList_DeepCopyInto al l h =
     (let out = l\<lparr>gListTypeMeta := gListTypeMeta l\<rparr>;
          (mt, h) = alListMetaCopy al (gListMeta l) h;
          (items, h) = copy_slice the_brokers BrokerArray (Mosquitto_DeepCopyInto al) (gItems l) h
      in (out\<lparr>gListMeta := mt, gItems := items\<rparr>, h))"

definition MosquittoUserList_DeepCopyInto :: "'l api_lib \<Rightarrow> 'l list_mem \<Rightarrow> 'l mem \<Rightarrow> 'l list_mem \<times> 'l mem" where
  "MosquittoUserList_DeepCopyInto al l h =
     (let out = l\<lparr>gListTypeMeta := gListTypeMeta l\<rparr>;
          (mt, h) = alListMetaCopy al (gListMeta l) h;
          (items, h) = copy_slice the_users UserArray (MosquittoUser_DeepCopyInto al) (gItems l) h
      in (out\<lparr>gListMeta := mt, gItems := items\<rparr>, h))"

subsection \<open>Pointers\<close>

definition MosquittoACL_DeepCopy :: "ref \<Rightarrow> 'l mem \<Rightarrow> ref \<times> 'l mem" where
  "MosquittoACL_DeepCopy = copy_pointer the_acl ACLCell MosquittoACL_DeepCopyInto"
definition MosquittoBrokerRef_DeepCopy :: "ref \<Rightarrow> 'l mem \<Rightarrow> ref \<times> 'l mem" where
  "MosquittoBrokerRef_DeepCopy = copy_pointer the_broker_ref BrokerRefCell MosquittoBrokerRef_DeepCopyInto"
definition MosquittoCredentialsSecret_DeepCopy :: "ref \<Rightarrow> 'l mem \<Rightarrow> ref \<times> 'l mem" where
  "MosquittoCredentialsSecret_DeepCopy =
     copy_pointer the_credentials CredentialsCell MosquittoCredentialsSecret_DeepCopyInto"
definition MosquittoMetrics_DeepCopy :: "ref \<Rightarrow> 'l mem \<Rightarrow> ref \<times> 'l mem" where
  "MosquittoMetrics_DeepCopy = copy_pointer the_metrics MetricsCell MosquittoMetrics_DeepCopyInto"
definition MosquittoTLS_DeepCopy :: "ref \<Rightarrow> 'l mem \<Rightarrow> ref \<times> 'l mem" where
  "MosquittoTLS_DeepCopy = copy_pointer the_tls TLSCell MosquittoTLS_DeepCopyInto"
definition MosquittoStorage_DeepCopy :: "ref \<Rightarrow> 'l mem \<Rightarrow> ref \<times> 'l mem" where
  "MosquittoStorage_DeepCopy = copy_pointer the_storage StorageCell MosquittoStorage_DeepCopyInto"
definition MosquittoSpec_DeepCopy :: "'l api_lib \<Rightarrow> ref \<Rightarrow> 'l mem \<Rightarrow> ref \<times> 'l mem" where
  "MosquittoSpec_DeepCopy al = copy_pointer the_spec SpecCell (MosquittoSpec_DeepCopyInto al)"
definition MosquittoStatus_DeepCopy :: "'l api_lib \<Rightarrow> ref \<Rightarrow> 'l mem \<Rightarrow> ref \<times> 'l mem" where
  "MosquittoStatus_DeepCopy al = copy_pointer the_status StatusCell (MosquittoStatus_DeepCopyInto al)"
definition MosquittoUserSpec_DeepCopy :: "ref \<Rightarrow> 'l mem \<Rightarrow> ref \<times> 'l mem" where
  "MosquittoUserSpec_DeepCopy = copy_pointer the_user_spec UserSpecCell MosquittoUserSpec_DeepCopyInto"
definition MosquittoUserStatus_DeepCopy :: "'l api_lib \<Rightarrow> ref \<Rightarrow> 'l mem \<Rightarrow> ref \<times> 'l mem" where
  "MosquittoUserStatus_DeepCopy al = copy_pointer the_user_status UserStatusCell (MosquittoUserStatus_DeepCopyInto al)"
definition Mosquitto_DeepCopy :: "'l api_lib \<Rightarrow> ref \<Rightarrow> 'l mem \<Rightarrow> ref \<times> 'l mem" where
  "Mosquitto_DeepCopy al = copy_pointer the_broker BrokerCell (Mosquitto_DeepCopyInto al)"
definition MosquittoUser_DeepCopy :: "'l api_lib \<Rightarrow> ref \<Rightarrow> 'l mem \<Rightarrow> ref \<times> 'l mem" where
  "MosquittoUser_DeepCopy al = copy_pointer the_user UserCell (MosquittoUser_DeepCopyInto al)"
definition MosquittoList_DeepCopy :: "'l api_lib \<Rightarrow> ref \<Rightarrow> 'l mem \<Rightarrow> ref \<times> 'l mem" where
  "MosquittoList_DeepCopy al = copy_pointer the_broker_list BrokerListCell (MosquittoList_DeepCopyInto al)"
definition MosquittoUserList_DeepCopy :: "'l api_lib \<Rightarrow> ref \<Rightarrow> 'l mem \<Rightarrow> ref \<times> 'l mem" where
  "MosquittoUserList_DeepCopy al = copy_pointer the_user_list UserListCell (MosquittoUserList_DeepCopyInto al)"

text \<open>
  An interface value is nil or a type with a pointer; one that holds a nil pointer is not nil. A nil
  receiver gives the nil interface.
\<close>

datatype object_type = MosquittoType | MosquittoListType | MosquittoUserType | MosquittoUserListType

datatype object_iface = NilObject | Object object_type ref

definition as_object :: "object_type \<Rightarrow> ref \<times> 'l mem \<Rightarrow> object_iface \<times> 'l mem" where
  "as_object t c = (if fst c \<noteq> Null then (Object t (fst c), snd c) else (NilObject, snd c))"

definition Mosquitto_DeepCopyObject :: "'l api_lib \<Rightarrow> ref \<Rightarrow> 'l mem \<Rightarrow> object_iface \<times> 'l mem" where
  "Mosquitto_DeepCopyObject al p h = as_object MosquittoType (Mosquitto_DeepCopy al p h)"
definition MosquittoList_DeepCopyObject :: "'l api_lib \<Rightarrow> ref \<Rightarrow> 'l mem \<Rightarrow> object_iface \<times> 'l mem" where
  "MosquittoList_DeepCopyObject al p h = as_object MosquittoListType (MosquittoList_DeepCopy al p h)"
definition MosquittoUser_DeepCopyObject :: "'l api_lib \<Rightarrow> ref \<Rightarrow> 'l mem \<Rightarrow> object_iface \<times> 'l mem" where
  "MosquittoUser_DeepCopyObject al p h = as_object MosquittoUserType (MosquittoUser_DeepCopy al p h)"
definition MosquittoUserList_DeepCopyObject :: "'l api_lib \<Rightarrow> ref \<Rightarrow> 'l mem \<Rightarrow> object_iface \<times> 'l mem" where
  "MosquittoUserList_DeepCopyObject al p h = as_object MosquittoUserListType (MosquittoUserList_DeepCopy al p h)"

subsection \<open>What the structs denote and reach\<close>

definition storage_value :: "'l mem \<Rightarrow> ref storage_struct \<Rightarrow> storage_value" where
  "storage_value h s = \<lparr>gSize = gSize s, gStorageClassName = pointer_value the_string flat_value h (gStorageClassName s)\<rparr>"

definition storage_cells :: "'l mem \<Rightarrow> ref storage_struct \<Rightarrow> nat set" where
  "storage_cells h s = pointer_cells the_string no_cells h (gStorageClassName s)"

definition spec_value :: "'l api_lib \<Rightarrow> 'l mem \<Rightarrow> 'l spec_mem \<Rightarrow> spec_value" where
  "spec_value al h s = \<lparr>gReplicas = gReplicas s, gImage = gImage s, gConfig = gConfig s, gAntiAffinity = gAntiAffinity s,
     gTLS = pointer_value the_tls flat_value h (gTLS s), gResources = alResources al h (gResources s),
     gStorage = pointer_value the_storage storage_value h (gStorage s),
     gPodLabels = pointer_value the_map flat_value h (gPodLabels s),
     gPodAnnotations = pointer_value the_map flat_value h (gPodAnnotations s),
     gMetrics = pointer_value the_metrics flat_value h (gMetrics s)\<rparr>"

definition spec_cells :: "'l api_lib \<Rightarrow> 'l mem \<Rightarrow> 'l spec_mem \<Rightarrow> nat set" where
  "spec_cells al h s = pointer_cells the_tls no_cells h (gTLS s) \<union> alCells al h (gResources s) \<union>
     pointer_cells the_storage storage_cells h (gStorage s) \<union> pointer_cells the_map no_cells h (gPodLabels s) \<union>
     pointer_cells the_map no_cells h (gPodAnnotations s) \<union> pointer_cells the_metrics no_cells h (gMetrics s)"

abbreviation conditions_value :: "'l api_lib \<Rightarrow> 'l mem \<Rightarrow> slice \<Rightarrow> condition list option" where
  "conditions_value al \<equiv> slice_value the_conditions (alCondition al)"

abbreviation conditions_cells :: "'l api_lib \<Rightarrow> 'l mem \<Rightarrow> slice \<Rightarrow> nat set" where
  "conditions_cells al \<equiv> slice_cells the_conditions (alCells al)"

definition status_value :: "'l api_lib \<Rightarrow> 'l mem \<Rightarrow> slice status_struct \<Rightarrow> condition list option status_struct" where
  "status_value al h s = \<lparr>gPhase = gPhase s, gReadyReplicas = gReadyReplicas s, gObservedGeneration = gObservedGeneration s,
     gUsers = gUsers s, gConditions = conditions_value al h (gConditions s)\<rparr>"

definition status_cells :: "'l api_lib \<Rightarrow> 'l mem \<Rightarrow> slice status_struct \<Rightarrow> nat set" where
  "status_cells al h s = conditions_cells al h (gConditions s)"

definition user_spec_value :: "'l mem \<Rightarrow> slice user_spec_struct \<Rightarrow> mosquitto_acl list option user_spec_struct" where
  "user_spec_value h s = \<lparr>gBrokerRef = gBrokerRef s, gCredentialsSecret = gCredentialsSecret s,
     gACLs = slice_value the_acls flat_value h (gACLs s)\<rparr>"

definition user_spec_cells :: "'l mem \<Rightarrow> slice user_spec_struct \<Rightarrow> nat set" where
  "user_spec_cells h s = slice_cells the_acls no_cells h (gACLs s)"

definition user_status_value ::
  "'l api_lib \<Rightarrow> 'l mem \<Rightarrow> slice user_status_struct \<Rightarrow> condition list option user_status_struct" where
  "user_status_value al h s = \<lparr>gUserObservedGeneration = gUserObservedGeneration s, gUsername = gUsername s,
     gUserConditions = conditions_value al h (gUserConditions s)\<rparr>"

definition user_status_cells :: "'l api_lib \<Rightarrow> 'l mem \<Rightarrow> slice user_status_struct \<Rightarrow> nat set" where
  "user_status_cells al h s = conditions_cells al h (gUserConditions s)"

definition broker_value :: "'l api_lib \<Rightarrow> 'l mem \<Rightarrow> 'l broker_mem \<Rightarrow> broker_value" where
  "broker_value al h m = \<lparr>gTypeMeta = gTypeMeta m, gObjectMeta = alObjectMeta al h (gObjectMeta m),
     gSpec = spec_value al h (gSpec m), gStatus = status_value al h (gStatus m)\<rparr>"

definition broker_cells :: "'l api_lib \<Rightarrow> 'l mem \<Rightarrow> 'l broker_mem \<Rightarrow> nat set" where
  "broker_cells al h m = alCells al h (gObjectMeta m) \<union> spec_cells al h (gSpec m) \<union> status_cells al h (gStatus m)"

definition user_value :: "'l api_lib \<Rightarrow> 'l mem \<Rightarrow> 'l user_mem \<Rightarrow> user_value" where
  "user_value al h u = \<lparr>gTypeMeta = gTypeMeta u, gObjectMeta = alObjectMeta al h (gObjectMeta u),
     gSpec = user_spec_value h (gSpec u), gStatus = user_status_value al h (gStatus u)\<rparr>"

definition user_cells :: "'l api_lib \<Rightarrow> 'l mem \<Rightarrow> 'l user_mem \<Rightarrow> nat set" where
  "user_cells al h u = alCells al h (gObjectMeta u) \<union> user_spec_cells h (gSpec u) \<union> user_status_cells al h (gStatus u)"

definition broker_list_value :: "'l api_lib \<Rightarrow> 'l mem \<Rightarrow> 'l list_mem \<Rightarrow> (list_meta, broker_value list option) list_struct" where
  "broker_list_value al h l = \<lparr>gListTypeMeta = gListTypeMeta l, gListMeta = alListMeta al h (gListMeta l),
     gItems = slice_value the_brokers (broker_value al) h (gItems l)\<rparr>"

definition broker_list_cells :: "'l api_lib \<Rightarrow> 'l mem \<Rightarrow> 'l list_mem \<Rightarrow> nat set" where
  "broker_list_cells al h l = alCells al h (gListMeta l) \<union> slice_cells the_brokers (broker_cells al) h (gItems l)"

definition user_list_value :: "'l api_lib \<Rightarrow> 'l mem \<Rightarrow> 'l list_mem \<Rightarrow> (list_meta, user_value list option) list_struct" where
  "user_list_value al h l = \<lparr>gListTypeMeta = gListTypeMeta l, gListMeta = alListMeta al h (gListMeta l),
     gItems = slice_value the_users (user_value al) h (gItems l)\<rparr>"

definition user_list_cells :: "'l api_lib \<Rightarrow> 'l mem \<Rightarrow> 'l list_mem \<Rightarrow> nat set" where
  "user_list_cells al h l = alCells al h (gListMeta l) \<union> slice_cells the_users (user_cells al) h (gItems l)"

text \<open>The contract of a struct follows from those of its fields.\<close>

lemma deep_copiesI:
  assumes "reads_cells v c"
    and "\<And>s h t h'. in_use c h s \<Longrightarrow> cp s h = (t, h') \<Longrightarrow> extends h h' \<and> copied v c h s h' t"
  shows "deep_copies v c cp"
  using assms unfolding deep_copies_def by blast

lemma copies_reads: "deep_copies rd rc cp \<Longrightarrow> reads_cells rd rc"
  by (simp add: deep_copies_def)

lemma reads_field:
  assumes "reads_cells rd rc" and "\<And>h s. v h s = f (rd h (get s)) s" and "\<And>h s. c h s = rc h (get s)"
  shows "reads_cells v c"
  using assms(1) unfolding reads_cells_def assms(2,3) by metis

lemma reads_both:
  assumes "reads_cells v1 c1" and "reads_cells v2 c2"
    and "\<And>h s. v h s = f (v1 h (get1 s)) (v2 h (get2 s)) s" and "\<And>h s. c h s = c1 h (get1 s) \<union> c2 h (get2 s)"
  shows "reads_cells v c"
  unfolding reads_cells_def
proof (intro allI impI)
  fix h h' :: "'a heap" and s assume same: "\<forall>a \<in> c h s. cells h' a = cells h a"
  have "v1 h' (get1 s) = v1 h (get1 s) \<and> c1 h' (get1 s) = c1 h (get1 s)"
    by (rule reads_cellsD [OF assms(1)]) (use same in \<open>simp add: assms(4)\<close>)
  moreover have "v2 h' (get2 s) = v2 h (get2 s) \<and> c2 h' (get2 s) = c2 h (get2 s)"
    by (rule reads_cellsD [OF assms(2)]) (use same in \<open>simp add: assms(4)\<close>)
  ultimately show "v h' s = v h s \<and> c h' s = c h s" by (simp add: assms(3,4))
qed

lemma copies_field:
  assumes "deep_copies rd rc cp"
    and "\<And>h s. v h s = f (rd h (get s)) s" "\<And>h s. c h s = rc h (get s)"
    and "\<And>s y. get (put y s) = y" "\<And>s x y. f x (put y s) = f x s"
  shows "deep_copies v c (\<lambda>s h. case cp (get s) h of (y, h') \<Rightarrow> (put y s, h'))"
proof (rule deep_copiesI)
  show "reads_cells v c" by (rule reads_field [where f = f and get = get, OF copies_reads [OF assms(1)]]) (simp_all add: assms(2,3))
  fix s h t h' assume use: "in_use c h s" and run: "(case cp (get s) h of (y, h') \<Rightarrow> (put y s, h')) = (t, h')"
  obtain y where y: "cp (get s) h = (y, h')" "t = put y s" using run by (auto split: prod.splits)
  have "in_use rc h (get s)" using use by (simp add: in_use_def assms(3))
  then show "extends h h' \<and> copied v c h s h' t"
    using copied_step [OF assms(1) _ extends_refl y(1)] by (simp add: copied_def y(2) assms(2-5))
qed

lemma copies_storage: "deep_copies storage_value storage_cells MosquittoStorage_DeepCopyInto"
proof -
  have "deep_copies storage_value storage_cells (\<lambda>s h. case copy_pointer the_string StringCell copy_flat (gStorageClassName s) h of
      (y, h') \<Rightarrow> (s\<lparr>gStorageClassName := y\<rparr>, h'))"
    by (rule copies_field [where f = "\<lambda>x s. \<lparr>gSize = gSize s, gStorageClassName = x\<rparr>",
          OF copies_pointer [OF copies_flat]]) (simp_all add: storage_value_def storage_cells_def)
  then show ?thesis by (simp add: MosquittoStorage_DeepCopyInto_def [abs_def] Let_def)
qed

lemma api_lib_parts:
  assumes "api_lib_copies al"
  shows "deep_copies (alObjectMeta al) (alCells al) (alObjectMetaCopy al)"
    and "deep_copies (alListMeta al) (alCells al) (alListMetaCopy al)"
    and "deep_copies (alResources al) (alCells al) (alResourcesCopy al)"
    and "deep_copies (conditions_value al) (conditions_cells al)
      (copy_slice the_conditions ConditionArray (alConditionCopy al))"
  using assms by (simp_all add: api_lib_copies_def copies_slice)

lemma copies_statuses:
  assumes "api_lib_copies al"
  shows "deep_copies (status_value al) (status_cells al) (MosquittoStatus_DeepCopyInto al)"
    and "deep_copies (user_status_value al) (user_status_cells al) (MosquittoUserStatus_DeepCopyInto al)"
proof -
  note conds = api_lib_parts(4) [OF assms]
  have "deep_copies (status_value al) (status_cells al) (\<lambda>s h. case copy_slice the_conditions ConditionArray
      (alConditionCopy al) (gConditions s) h of (y, h') \<Rightarrow> (s\<lparr>gConditions := y\<rparr>, h'))"
    by (rule copies_field [where f = "\<lambda>x s. \<lparr>gPhase = gPhase s, gReadyReplicas = gReadyReplicas s,
          gObservedGeneration = gObservedGeneration s, gUsers = gUsers s, gConditions = x\<rparr>", OF conds])
      (simp_all add: status_value_def status_cells_def)
  then show "deep_copies (status_value al) (status_cells al) (MosquittoStatus_DeepCopyInto al)"
    by (simp add: MosquittoStatus_DeepCopyInto_def [abs_def] Let_def)
  have "deep_copies (user_status_value al) (user_status_cells al) (\<lambda>s h. case copy_slice the_conditions ConditionArray
      (alConditionCopy al) (gUserConditions s) h of (y, h') \<Rightarrow> (s\<lparr>gUserConditions := y\<rparr>, h'))"
    by (rule copies_field [where f = "\<lambda>x s. \<lparr>gUserObservedGeneration = gUserObservedGeneration s,
          gUsername = gUsername s, gUserConditions = x\<rparr>", OF conds])
      (simp_all add: user_status_value_def user_status_cells_def)
  then show "deep_copies (user_status_value al) (user_status_cells al) (MosquittoUserStatus_DeepCopyInto al)"
    by (simp add: MosquittoUserStatus_DeepCopyInto_def [abs_def] Let_def)
qed

lemma copies_user_spec: "deep_copies user_spec_value user_spec_cells MosquittoUserSpec_DeepCopyInto"
proof -
  have "deep_copies user_spec_value user_spec_cells (\<lambda>s h. case copy_slice the_acls ACLArray copy_flat (gACLs s) h of
      (y, h') \<Rightarrow> (s\<lparr>gACLs := y\<rparr>, h'))"
    by (rule copies_field [where f = "\<lambda>x s. \<lparr>gBrokerRef = gBrokerRef s, gCredentialsSecret = gCredentialsSecret s, gACLs = x\<rparr>",
          OF copies_slice [OF copies_flat]]) (simp_all add: user_spec_value_def user_spec_cells_def)
  then show ?thesis by (simp add: MosquittoUserSpec_DeepCopyInto_def [abs_def] Let_def)
qed

lemma copies_spec:
  assumes "api_lib_copies al"
  shows "deep_copies (spec_value al) (spec_cells al) (MosquittoSpec_DeepCopyInto al)"
proof (rule deep_copiesI)
  note ptr = copies_pointer [OF copies_flat, of the_tls TLSCell, OF cell_contents(3)]
    copies_pointer [OF copies_storage, of the_storage StorageCell, OF cell_contents(5)]
    copies_pointer [OF copies_map, of the_map MapCell, OF cell_contents(2)]
    copies_pointer [OF copies_flat, of the_metrics MetricsCell, OF cell_contents(4)]
  note res = api_lib_parts(3) [OF assms]
  note reads = ptr [THEN copies_reads] copies_reads [OF res]
  show "reads_cells (spec_value al) (spec_cells al)"
    unfolding reads_cells_def
  proof (intro allI impI)
    fix h h' :: "'a mem" and s assume same: "\<forall>a \<in> spec_cells al h s. cells h' a = cells h a"
    note parts = reads [THEN reads_cellsD]
    show "spec_value al h' s = spec_value al h s \<and> spec_cells al h' s = spec_cells al h s"
      using same parts(1) [of h "gTLS s" h'] parts(2) [of h "gStorage s" h'] parts(3) [of h "gPodLabels s" h']
        parts(3) [of h "gPodAnnotations s" h'] parts(4) [of h "gMetrics s" h'] parts(5) [of h "gResources s" h']
      by (simp add: spec_value_def spec_cells_def)
  qed
  fix s h t h' assume use: "in_use (spec_cells al) h s" and run: "MosquittoSpec_DeepCopyInto al s h = (t, h')"
  have parts: "in_use (pointer_cells the_tls no_cells) h (gTLS s)" "in_use (alCells al) h (gResources s)"
    "in_use (pointer_cells the_storage storage_cells) h (gStorage s)"
    "in_use (pointer_cells the_map no_cells) h (gPodLabels s)"
    "in_use (pointer_cells the_map no_cells) h (gPodAnnotations s)"
    "in_use (pointer_cells the_metrics no_cells) h (gMetrics s)"
    using use by (simp_all add: in_use_def spec_cells_def)
  obtain tls h1 r h2 sto h3 ls h4 as h5 mt where
    c: "copy_pointer the_tls TLSCell copy_flat (gTLS s) h = (tls, h1)" "alResourcesCopy al (gResources s) h1 = (r, h2)"
      "copy_pointer the_storage StorageCell MosquittoStorage_DeepCopyInto (gStorage s) h2 = (sto, h3)"
      "copy_pointer the_map MapCell copy_map (gPodLabels s) h3 = (ls, h4)"
      "copy_pointer the_map MapCell copy_map (gPodAnnotations s) h4 = (as, h5)"
      "copy_pointer the_metrics MetricsCell copy_flat (gMetrics s) h5 = (mt, h')"
    and t: "t = s\<lparr>gTLS := tls, gResources := r, gStorage := sto, gPodLabels := ls, gPodAnnotations := as, gMetrics := mt\<rparr>"
    using run by (auto simp: MosquittoSpec_DeepCopyInto_def Let_def split: prod.splits)
  note s1 = copied_step [OF ptr(1) parts(1) extends_refl c(1)]
  note s2 = copied_step [OF res parts(2) s1(2) c(2)]
  note s3 = copied_step [OF ptr(2) parts(3) s2(2) c(3)]
  note s4 = copied_step [OF ptr(3) parts(4) s3(2) c(4)]
  note s5 = copied_step [OF ptr(3) parts(5) s4(2) c(5)]
  note s6 = copied_step [OF ptr(4) parts(6) s5(2) c(6)]
  note e5 = s6(1) and e4 = extends_trans [OF s5(1) s6(1)]
  note e3 = extends_trans [OF s4(1) e4]
  note e2 = extends_trans [OF s3(1) e3]
  note e1 = extends_trans [OF s2(1) e2]
  note kept = copied_extends [OF reads(1) s1(3) e1] copied_extends [OF reads(5) s2(3) e2]
    copied_extends [OF reads(2) s3(3) e3] copied_extends [OF reads(3) s4(3) e4]
    copied_extends [OF reads(3) s5(3) e5] s6(3)
  show "extends h h' \<and> copied (spec_value al) (spec_cells al) h s h' t"
    using kept s6(2) by (simp add: copied_def spec_value_def spec_cells_def t)
qed

text \<open>An object, whatever its spec and status; and a list, whatever its items.\<close>

lemma copies_object:
  assumes "deep_copies mv mc mcp" and "deep_copies sv sc scp" and "deep_copies tv tc tcp"
    and v: "\<And>h m. v h m = \<lparr>gTypeMeta = gTypeMeta m, gObjectMeta = mv h (gObjectMeta m), gSpec = sv h (gSpec m),
      gStatus = tv h (gStatus m)\<rparr>"
    and c: "\<And>h m. c h m = mc h (gObjectMeta m) \<union> sc h (gSpec m) \<union> tc h (gStatus m)"
    and cp: "\<And>m h. cp m h = (let (x, h) = mcp (gObjectMeta m) h; (y, h) = scp (gSpec m) h; (z, h) = tcp (gStatus m) h
      in (m\<lparr>gObjectMeta := x, gSpec := y, gStatus := z\<rparr>, h))"
  shows "deep_copies v c cp"
proof (rule deep_copiesI)
  note reads = assms(1-3) [THEN copies_reads]
  show "reads_cells v c"
    unfolding reads_cells_def
  proof (intro allI impI)
    fix h h' :: "'a heap" and m assume same: "\<forall>a \<in> c h m. cells h' a = cells h a"
    note parts = reads [THEN reads_cellsD]
    show "v h' m = v h m \<and> c h' m = c h m"
      using same parts(1) [of h "gObjectMeta m" h'] parts(2) [of h "gSpec m" h'] parts(3) [of h "gStatus m" h']
      by (simp add: v c)
  qed
  fix m h n h' assume use: "in_use c h m" and run: "cp m h = (n, h')"
  have parts: "in_use mc h (gObjectMeta m)" "in_use sc h (gSpec m)" "in_use tc h (gStatus m)"
    using use by (simp_all add: in_use_def c)
  obtain x h1 y h2 z where r: "mcp (gObjectMeta m) h = (x, h1)" "scp (gSpec m) h1 = (y, h2)" "tcp (gStatus m) h2 = (z, h')"
    and n: "n = m\<lparr>gObjectMeta := x, gSpec := y, gStatus := z\<rparr>"
    using run by (auto simp: cp Let_def split: prod.splits)
  note s1 = copied_step [OF assms(1) parts(1) extends_refl r(1)]
  note s2 = copied_step [OF assms(2) parts(2) s1(2) r(2)]
  note s3 = copied_step [OF assms(3) parts(3) s2(2) r(3)]
  note kept = copied_extends [OF reads(1) s1(3) extends_trans [OF s2(1) s3(1)]] copied_extends [OF reads(2) s2(3) s3(1)] s3(3)
  show "extends h h' \<and> copied v c h m h' n"
    using kept s3(2) by (simp add: copied_def v c n)
qed

lemma copies_list:
  assumes "deep_copies mv mc mcp" and "deep_copies iv ic icp"
    and v: "\<And>h l. v h l = \<lparr>gListTypeMeta = gListTypeMeta l, gListMeta = mv h (gListMeta l), gItems = iv h (gItems l)\<rparr>"
    and c: "\<And>h l. c h l = mc h (gListMeta l) \<union> ic h (gItems l)"
    and cp: "\<And>l h. cp l h = (let (x, h) = mcp (gListMeta l) h; (y, h) = icp (gItems l) h
      in (l\<lparr>gListMeta := x, gItems := y\<rparr>, h))"
  shows "deep_copies v c cp"
proof (rule deep_copiesI)
  note reads = assms(1,2) [THEN copies_reads]
  show "reads_cells v c"
    by (rule reads_both [where ?get1.0 = gListMeta and ?get2.0 = gItems and
          f = "\<lambda>x y l. \<lparr>gListTypeMeta = gListTypeMeta l, gListMeta = x, gItems = y\<rparr>", OF reads])
      (simp_all add: v c)
  fix l h k h' assume use: "in_use c h l" and run: "cp l h = (k, h')"
  have parts: "in_use mc h (gListMeta l)" "in_use ic h (gItems l)" using use by (simp_all add: in_use_def c)
  obtain x h1 y where r: "mcp (gListMeta l) h = (x, h1)" "icp (gItems l) h1 = (y, h')"
    and k: "k = l\<lparr>gListMeta := x, gItems := y\<rparr>"
    using run by (auto simp: cp Let_def split: prod.splits)
  note s1 = copied_step [OF assms(1) parts(1) extends_refl r(1)]
  note s2 = copied_step [OF assms(2) parts(2) s1(2) r(2)]
  show "extends h h' \<and> copied v c h l h' k"
    using copied_extends [OF reads(1) s1(3) s2(1)] s2(2,3) by (simp add: copied_def v c k)
qed

lemma copies_objects:
  assumes "api_lib_copies al"
  shows "deep_copies (broker_value al) (broker_cells al) (Mosquitto_DeepCopyInto al)"
    and "deep_copies (user_value al) (user_cells al) (MosquittoUser_DeepCopyInto al)"
proof -
  note parts = api_lib_parts(1) [OF assms] copies_statuses [OF assms]
  have into: "Mosquitto_DeepCopyInto al m h = (let (x, h) = alObjectMetaCopy al (gObjectMeta m) h;
      (y, h) = MosquittoSpec_DeepCopyInto al (gSpec m) h; (z, h) = MosquittoStatus_DeepCopyInto al (gStatus m) h
    in (m\<lparr>gObjectMeta := x, gSpec := y, gStatus := z\<rparr>, h))"
    "MosquittoUser_DeepCopyInto al u h = (let (x, h) = alObjectMetaCopy al (gObjectMeta u) h;
      (y, h) = MosquittoUserSpec_DeepCopyInto (gSpec u) h; (z, h) = MosquittoUserStatus_DeepCopyInto al (gStatus u) h
    in (u\<lparr>gObjectMeta := x, gSpec := y, gStatus := z\<rparr>, h))" for m u h
    by (cases m; cases u; simp add: Mosquitto_DeepCopyInto_def MosquittoUser_DeepCopyInto_def Let_def)+
  show "deep_copies (broker_value al) (broker_cells al) (Mosquitto_DeepCopyInto al)"
    by (rule copies_object [OF parts(1) copies_spec [OF assms] parts(2)])
      (rule broker_value_def broker_cells_def into(1))+
  show "deep_copies (user_value al) (user_cells al) (MosquittoUser_DeepCopyInto al)"
    by (rule copies_object [OF parts(1) copies_user_spec parts(3)])
      (rule user_value_def user_cells_def into(2))+
qed

lemma copies_lists:
  assumes "api_lib_copies al"
  shows "deep_copies (broker_list_value al) (broker_list_cells al) (MosquittoList_DeepCopyInto al)"
    and "deep_copies (user_list_value al) (user_list_cells al) (MosquittoUserList_DeepCopyInto al)"
proof -
  note mt = api_lib_parts(2) [OF assms]
  have into: "MosquittoList_DeepCopyInto al l h = (let (x, h) = alListMetaCopy al (gListMeta l) h;
      (y, h) = copy_slice the_brokers BrokerArray (Mosquitto_DeepCopyInto al) (gItems l) h
    in (l\<lparr>gListMeta := x, gItems := y\<rparr>, h))"
    "MosquittoUserList_DeepCopyInto al l h = (let (x, h) = alListMetaCopy al (gListMeta l) h;
      (y, h) = copy_slice the_users UserArray (MosquittoUser_DeepCopyInto al) (gItems l) h
    in (l\<lparr>gListMeta := x, gItems := y\<rparr>, h))" for l h
    by (cases l; simp add: MosquittoList_DeepCopyInto_def MosquittoUserList_DeepCopyInto_def Let_def)+
  show "deep_copies (broker_list_value al) (broker_list_cells al) (MosquittoList_DeepCopyInto al)"
    by (rule copies_list [OF mt copies_slice [OF copies_objects(1) [OF assms], of the_brokers BrokerArray, OF cell_contents(19)]])
      (rule broker_list_value_def broker_list_cells_def into(1))+
  show "deep_copies (user_list_value al) (user_list_cells al) (MosquittoUserList_DeepCopyInto al)"
    by (rule copies_list [OF mt copies_slice [OF copies_objects(2) [OF assms], of the_users UserArray, OF cell_contents(20)]])
      (rule user_list_value_def user_list_cells_def into(2))+
qed

subsection \<open>The copying functions of the API types are deep\<close>

text \<open>
  \<open>q\<close> is an independent copy of what \<open>p\<close> points to: it is nil exactly when \<open>p\<close> is, denotes the same, and the
  original still denotes what it did. No write through the copy, to any cells the copying allocated,
  is seen through the original, and none to a cell that was in use before is seen through the copy.
\<close>

definition independent_copy ::
  "('l mem \<Rightarrow> ref \<Rightarrow> 'v option) \<Rightarrow> ref \<Rightarrow> 'l mem \<Rightarrow> ref \<Rightarrow> 'l mem \<Rightarrow> bool" where
  "independent_copy value p h q h' \<longleftrightarrow>
     value h' q = value h p \<and> value h' p = value h p \<and>
     (\<forall>h''. (\<forall>a < limit h. cells h'' a = cells h' a) \<longrightarrow> value h'' p = value h p) \<and>
     (\<forall>h''. (\<forall>a \<ge> limit h. cells h'' a = cells h' a) \<longrightarrow> value h'' q = value h p)"

lemma deep_copy_independent:
  assumes "deep_copies value reach cp" and "in_use reach h p" and "cp p h = (q, h')"
  shows "independent_copy value p h q h'"
proof -
  note r = copies_reads [OF assms(1)] and s = copied_step [OF assms(1,2) extends_refl assms(3)]
  have "value h'' p = value h p" if same: "\<forall>a < limit h. cells h'' a = cells h' a" for h''
  proof -
    have "cells h'' a = cells h a" if "a \<in> reach h p" for a
    proof -
      have "a < limit h" using that assms(2) by (auto simp: in_use_def)
      then show ?thesis using same s(2) by (simp add: extends_def)
    qed
    then show ?thesis by (rule reads_cellsD [OF r, THEN conjunct1])
  qed
  moreover have "value h'' q = value h' q" if same: "\<forall>a \<ge> limit h. cells h'' a = cells h' a" for h''
  proof -
    have "cells h'' a = cells h' a" if "a \<in> reach h' q" for a
      using that s(4) same by auto
    then show ?thesis by (rule reads_cellsD [OF r, THEN conjunct1])
  qed
  moreover have "value h' q = value h p" using s(3) by (simp add: copied_def)
  moreover have "value h' p = value h p" by (rule kept(1) [OF r assms(2) s(2)])
  ultimately show ?thesis unfolding independent_copy_def by (intro conjI allI impI) (assumption | metis)+
qed

text \<open>\<open>DeepCopyObject\<close> of the type \<open>t\<close> gives an independent copy, and the nil interface for nil only.\<close>

definition object_copied :: "('l cell \<Rightarrow> 'a option) \<Rightarrow> ('l mem \<Rightarrow> 'a \<Rightarrow> 'v) \<Rightarrow> ('l mem \<Rightarrow> 'a \<Rightarrow> nat set) \<Rightarrow>
    (ref \<Rightarrow> 'l mem \<Rightarrow> object_iface \<times> 'l mem) \<Rightarrow> object_type \<Rightarrow> bool" where
  "object_copied sel value reach copy t \<longleftrightarrow>
     (\<forall>p h x h'. in_use (pointer_cells sel reach) h p \<longrightarrow> p = Null \<or> deref sel p h \<noteq> None \<longrightarrow> copy p h = (x, h') \<longrightarrow>
        (case x of NilObject \<Rightarrow> p = Null
         | Object t' q \<Rightarrow> t' = t \<and> p \<noteq> Null \<and> q \<noteq> Null \<and> independent_copy (pointer_value sel value) p h q h'))"

lemma as_object_copied:
  assumes "deep_copies value reach cp" and "\<And>y. sel (mk y) = Some y"
  shows "object_copied sel value reach (\<lambda>p h. as_object t (copy_pointer sel mk cp p h)) t"
  unfolding object_copied_def
proof (intro allI impI)
  fix p h x h' assume use: "in_use (pointer_cells sel reach) h p" and typed: "p = Null \<or> deref sel p h \<noteq> None"
    and run: "as_object t (copy_pointer sel mk cp p h) = (x, h')"
  obtain q h1 where c: "copy_pointer sel mk cp p h = (q, h1)" by (cases "copy_pointer sel mk cp p h")
  have "independent_copy (pointer_value sel value) p h q h1"
    by (rule deep_copy_independent [OF copies_pointer [OF assms] use c])
  moreover have "q = Null \<longleftrightarrow> p = Null"
    using c typed by (cases p) (auto simp: copy_pointer_def Let_def deref_def split: option.splits prod.splits)
  ultimately show "case x of NilObject \<Rightarrow> p = Null
      | Object t' q \<Rightarrow> t' = t \<and> p \<noteq> Null \<and> q \<noteq> Null \<and> independent_copy (pointer_value sel value) p h q h'"
    using run c by (auto simp: as_object_def split: if_splits)
qed

text \<open>C40: \<open>DeepCopyObject\<close> of each of the four registered types gives an object that denotes the same as the original and
  shares no memory with it: nothing written through one is seen through the other. It gives the nil
  interface for a nil receiver, not an interface that holds a nil pointer.\<close>

theorem DeepCopyObject_independent:
  assumes "api_lib_copies al"
  shows "object_copied the_broker (broker_value al) (broker_cells al) (Mosquitto_DeepCopyObject al) MosquittoType \<and>
    object_copied the_user (user_value al) (user_cells al) (MosquittoUser_DeepCopyObject al) MosquittoUserType \<and>
    object_copied the_broker_list (broker_list_value al) (broker_list_cells al) (MosquittoList_DeepCopyObject al)
      MosquittoListType \<and>
    object_copied the_user_list (user_list_value al) (user_list_cells al) (MosquittoUserList_DeepCopyObject al)
      MosquittoUserListType"
proof (intro conjI)
  show "object_copied the_broker (broker_value al) (broker_cells al) (Mosquitto_DeepCopyObject al) MosquittoType"
    unfolding Mosquitto_DeepCopyObject_def [abs_def] Mosquitto_DeepCopy_def
    by (rule as_object_copied [OF copies_objects(1) [OF assms]]) simp
  show "object_copied the_user (user_value al) (user_cells al) (MosquittoUser_DeepCopyObject al) MosquittoUserType"
    unfolding MosquittoUser_DeepCopyObject_def [abs_def] MosquittoUser_DeepCopy_def
    by (rule as_object_copied [OF copies_objects(2) [OF assms]]) simp
  show "object_copied the_broker_list (broker_list_value al) (broker_list_cells al) (MosquittoList_DeepCopyObject al)
      MosquittoListType"
    unfolding MosquittoList_DeepCopyObject_def [abs_def] MosquittoList_DeepCopy_def
    by (rule as_object_copied [OF copies_lists(1) [OF assms]]) simp
  show "object_copied the_user_list (user_list_value al) (user_list_cells al) (MosquittoUserList_DeepCopyObject al)
      MosquittoUserListType"
    unfolding MosquittoUserList_DeepCopyObject_def [abs_def] MosquittoUserList_DeepCopy_def
    by (rule as_object_copied [OF copies_lists(2) [OF assms]]) simp
qed

text \<open>The copies of the parts that are not objects of their own.\<close>

lemma parts_copied:
  assumes "api_lib_copies al"
  shows "deep_copies (pointer_value the_spec (spec_value al)) (pointer_cells the_spec (spec_cells al)) (MosquittoSpec_DeepCopy al)"
    and "deep_copies (pointer_value the_status (status_value al)) (pointer_cells the_status (status_cells al))
      (MosquittoStatus_DeepCopy al)"
    and "deep_copies (pointer_value the_user_spec user_spec_value) (pointer_cells the_user_spec user_spec_cells)
      MosquittoUserSpec_DeepCopy"
    and "deep_copies (pointer_value the_user_status (user_status_value al)) (pointer_cells the_user_status (user_status_cells al))
      (MosquittoUserStatus_DeepCopy al)"
    and "deep_copies (pointer_value the_storage storage_value) (pointer_cells the_storage storage_cells) MosquittoStorage_DeepCopy"
  unfolding MosquittoSpec_DeepCopy_def MosquittoStatus_DeepCopy_def MosquittoUserSpec_DeepCopy_def
    MosquittoUserStatus_DeepCopy_def MosquittoStorage_DeepCopy_def
  by (intro copies_pointer copies_spec copies_statuses copies_user_spec copies_storage assms; simp)+

lemma flat_parts_copied:
  "deep_copies (pointer_value the_acl flat_value) (pointer_cells the_acl no_cells) MosquittoACL_DeepCopy"
  "deep_copies (pointer_value the_broker_ref flat_value) (pointer_cells the_broker_ref no_cells) MosquittoBrokerRef_DeepCopy"
  "deep_copies (pointer_value the_credentials flat_value) (pointer_cells the_credentials no_cells)
     MosquittoCredentialsSecret_DeepCopy"
  "deep_copies (pointer_value the_metrics flat_value) (pointer_cells the_metrics no_cells) MosquittoMetrics_DeepCopy"
  "deep_copies (pointer_value the_tls flat_value) (pointer_cells the_tls no_cells) MosquittoTLS_DeepCopy"
  unfolding MosquittoACL_DeepCopy_def MosquittoBrokerRef_DeepCopy_def MosquittoCredentialsSecret_DeepCopy_def
    MosquittoMetrics_DeepCopy_def MosquittoTLS_DeepCopy_def
    MosquittoACL_DeepCopyInto_def [abs_def] MosquittoBrokerRef_DeepCopyInto_def [abs_def]
    MosquittoCredentialsSecret_DeepCopyInto_def [abs_def] MosquittoMetrics_DeepCopyInto_def [abs_def]
    MosquittoTLS_DeepCopyInto_def [abs_def]
  by (rule copies_pointer [OF copies_flat]; simp)+

subsection \<open>A concrete memory\<close>

text \<open>
  A struct of the library is a flat part with a pointer to a map, the labels of the metadata. The memory
  holds a user with one condition, and its labels.
\<close>

type_synonym sample_struct = "object_meta \<times> condition \<times> ref"

definition sample_copy :: "sample_struct \<Rightarrow> sample_struct mem \<Rightarrow> sample_struct \<times> sample_struct mem" where
  "sample_copy x h = (case copy_pointer the_map MapCell copy_map (snd (snd x)) h of
     (p, h') \<Rightarrow> ((fst x, fst (snd x), p), h'))"

definition sample_api_lib :: "sample_struct api_lib" where
  "sample_api_lib = \<lparr>
     alObjectMeta = (\<lambda>h x. (fst x)\<lparr>metaLabels := (case deref the_map (snd (snd x)) h of None \<Rightarrow> fmempty | Some m \<Rightarrow> m)\<rparr>),
     alListMeta = (\<lambda>h x. \<lparr>lmResourceVersion = '''', lmContinue = ''''\<rparr>),
     alResources = (\<lambda>h x. \<lparr>resRequests = fmempty, resLimits = fmempty\<rparr>),
     alCondition = (\<lambda>h x. fst (snd x)),
     alCells = (\<lambda>h x. pointer_cells the_map no_cells h (snd (snd x))),
     alObjectMetaCopy = sample_copy, alListMetaCopy = sample_copy, alResourcesCopy = sample_copy,
     alConditionCopy = sample_copy\<rparr>"

lemma sample_copies:
  assumes "\<And>h x. v h x = f (pointer_value the_map flat_value h (snd (snd x))) (fst x, fst (snd x))"
  shows "deep_copies v (\<lambda>h x. pointer_cells the_map no_cells h (snd (snd x))) sample_copy"
proof -
  have "deep_copies v (\<lambda>h x. pointer_cells the_map no_cells h (snd (snd x)))
      (\<lambda>x h. case copy_pointer the_map MapCell copy_map (snd (snd x)) h of (p, h') \<Rightarrow> ((fst x, fst (snd x), p), h'))"
    by (rule copies_field [where f = "\<lambda>m x. f m (fst x, fst (snd x))", OF copies_pointer [OF copies_map]])
      (simp_all add: assms)
  then show ?thesis by (simp add: sample_copy_def [abs_def])
qed

lemma sample_api_lib_ok: "api_lib_copies sample_api_lib"
  unfolding api_lib_copies_def sample_api_lib_def api_lib.simps
  by (intro conjI sample_copies [where f = "\<lambda>m x. (fst x)\<lparr>metaLabels := (case m of None \<Rightarrow> fmempty | Some m \<Rightarrow> m)\<rparr>"]
      sample_copies [where f = "\<lambda>m x. \<lparr>lmResourceVersion = '''', lmContinue = ''''\<rparr>"]
      sample_copies [where f = "\<lambda>m x. \<lparr>resRequests = fmempty, resLimits = fmempty\<rparr>"]
      sample_copies [where f = "\<lambda>m x. snd x"])
    (simp_all add: pointer_value_def flat_value_def option.map_ident comp_def split: option.split)

definition sample_condition :: condition where
  "sample_condition = \<lparr>condType = ConditionTypeReady, condStatus = ConditionFalse, condObservedGeneration = 1,
     condLastTransitionTime = 0, condReason = ReasonSecretNotFound, condMessage = ''gone''\<rparr>"

definition sample_user_mem :: "sample_struct user_mem" where
  "sample_user_mem = \<lparr>gTypeMeta = \<lparr>tmKind = ''MosquittoUser'', tmAPIVersion = ''mko.gtrfc.com/v1''\<rparr>,
     gObjectMeta = (empty_meta\<lparr>metaName := ''ann''\<rparr>, sample_condition, Ref 0),
     gSpec = \<lparr>gBrokerRef = \<lparr>brokerRefName = ''mq''\<rparr>,
       gCredentialsSecret = \<lparr>credName = ''ann-login'', credUsernameKey = '''', credPasswordKey = ''''\<rparr>, gACLs = NilSlice\<rparr>,
     gStatus = \<lparr>gUserObservedGeneration = 1, gUsername = '''', gUserConditions = Slice 2 0 1\<rparr>\<rparr>"

definition sample_mem :: "sample_struct mem" where
  "sample_mem = \<lparr>cells = [0 \<mapsto> MapCell (fmupd ''team'' ''iot'' fmempty), 1 \<mapsto> UserCell sample_user_mem,
     2 \<mapsto> ConditionArray [(empty_meta, sample_condition, Null)]], limit = 3\<rparr>"

lemma sample_mem_user:
  "deref the_user (Ref 1) sample_mem = Some sample_user_mem"
  "in_use (pointer_cells the_user (user_cells sample_api_lib)) sample_mem (Ref 1)"
  by (simp_all add: deref_def sample_mem_def in_use_def pointer_cells_def user_cells_def sample_user_mem_def
      sample_api_lib_def no_cells_def user_spec_cells_def user_status_cells_def slice_cells_def elements_def)

theorem DeepCopyObject_independent_witness:
  "\<exists>q h'. MosquittoUser_DeepCopyObject sample_api_lib (Ref 1) sample_mem = (Object MosquittoUserType q, h') \<and>
     independent_copy (pointer_value the_user (user_value sample_api_lib)) (Ref 1) sample_mem q h'"
proof -
  obtain x h' where run: "MosquittoUser_DeepCopyObject sample_api_lib (Ref 1) sample_mem = (x, h')"
    by (cases "MosquittoUser_DeepCopyObject sample_api_lib (Ref 1) sample_mem")
  then show ?thesis
    using DeepCopyObject_independent [OF sample_api_lib_ok, THEN conjunct2, THEN conjunct1]
      sample_mem_user unfolding object_copied_def by (cases x) fastforce+
qed

end
