(* ===== verification/StatusMemory.thy ===== *)
theory StatusMemory
  imports Pass DeepCopy
begin

section \<open>Status writes and the memory they share (internal/controller/users.go)\<close>

text \<open>
  \<open>persistUserStatus\<close> works on a \<open>MosquittoUser\<close> that other code holds pointers to, the client's cache
  among them, and \<open>SetStatusCondition\<close> changes the elements of the slice it is given in place. The
  function is modelled once more here, over memory: what it sends, and that nothing that was in
  memory before changes. This is what the model of \<open>Users\<close>, which computes with immutable values, rests on.
\<close>

definition list_of :: "'a list option \<Rightarrow> 'a list" where
  "list_of xs = (case xs of None \<Rightarrow> [] | Some ys \<Rightarrow> ys)"

lemma list_of_simps [simp]: "list_of None = []" "list_of (Some xs) = xs"
  by (simp_all add: list_of_def)

text \<open>The immutable value of \<open>ApiTypes\<close> that a user in memory stands for.\<close>

definition api_user_status :: "condition list option user_status_struct \<Rightarrow> mosquitto_user_status" where
  "api_user_status st = \<lparr>ustatObservedGeneration = gUserObservedGeneration st, ustatUsername = gUsername st,
     ustatConditions = list_of (gUserConditions st)\<rparr>"

definition api_user :: "user_value \<Rightarrow> mosquitto_user" where
  "api_user u = \<lparr>uMeta = gObjectMeta u,
     uSpec = \<lparr>userBrokerRef = brokerRefName (gBrokerRef (gSpec u)), userCredentialsSecret = gCredentialsSecret (gSpec u),
       userACLs = list_of (gACLs (gSpec u))\<rparr>,
     uStatus = api_user_status (gStatus u)\<rparr>"

text \<open>
  \<open>SetStatusCondition\<close>: it may write the array of the slice or append to a new one, and touches no other
  cell that was in use.
\<close>

definition sets_condition ::
  "'l api_lib \<Rightarrow> (slice \<Rightarrow> condition \<Rightarrow> 'l mem \<Rightarrow> slice \<times> 'l mem) \<Rightarrow> (condition list \<Rightarrow> condition \<Rightarrow> condition list) \<Rightarrow> bool" where
  "sets_condition al setc f \<longleftrightarrow> (\<forall>s c h s' h'. in_use (conditions_cells al) h s \<longrightarrow> setc s c h = (s', h') \<longrightarrow>
     limit h \<le> limit h' \<and> (\<forall>a < limit h. a \<notin> conditions_cells al h s \<longrightarrow> cells h' a = cells h a) \<and>
     conditions_value al h' s' = Some (f (list_of (conditions_value al h s)) c) \<and>
     conditions_cells al h' s' \<subseteq> conditions_cells al h s \<union> {limit h..<limit h'})"

text \<open>\<open>*p.DeepCopy()\<close>: the copy, and the cell it was made in.\<close>

definition deep_copy_of :: "('a \<Rightarrow> 'c) \<Rightarrow> ('a \<Rightarrow> 'c heap \<Rightarrow> 'a \<times> 'c heap) \<Rightarrow> 'a \<Rightarrow> 'c heap \<Rightarrow> 'a \<times> 'c heap" where
  "deep_copy_of mk cp x h = (let (a, h) = new_cell h; (y, h) = cp x h in (y, set_cell a (mk y) h))"

text \<open>\<open>persistUserStatus\<close> up to the API call: the object it sends, or nil when it sends nothing.\<close>

definition user_status_update ::
  "'l api_lib \<Rightarrow> (slice \<Rightarrow> condition \<Rightarrow> 'l mem \<Rightarrow> slice \<times> 'l mem) \<Rightarrow> ref \<Rightarrow> string \<Rightarrow> verdict \<Rightarrow> 'l mem \<Rightarrow> ref \<times> 'l mem" where
  "user_status_update al setc p username v h = (case deref the_user p h of
       None \<Rightarrow> (Null, h)
     | Some u \<Rightarrow>
         (let (status, h) = deep_copy_of UserStatusCell (MosquittoUserStatus_DeepCopyInto al) (gStatus u) h;
              status = status\<lparr>gUserObservedGeneration := metaGeneration (alObjectMeta al h (gObjectMeta u)),
                gUsername := username\<rparr>;
              (conds, h) = setc (gUserConditions status) (user_condition (api_user (user_value al h u)) v) h;
              status = status\<lparr>gUserConditions := conds\<rparr>
          in if user_status_value al h status = user_status_value al h (gStatus u) then (Null, h)
             else (let (q, h) = MosquittoUser_DeepCopy al p h in
               (case (q, deref the_user q h) of
                  (Ref b, Some stored) \<Rightarrow> (q, set_cell b (UserCell (stored\<lparr>gStatus := status\<rparr>)) h)
                | _ \<Rightarrow> (Null, h)))))"

lemma deep_copy_of_step:
  assumes "deep_copies rd rc cp" and "in_use rc h x" and "deep_copy_of mk cp x h = (y, h')"
  shows "extends h h'" and "rd h' y = rd h x" and "rc h' y \<subseteq> {limit h..<limit h'}"
proof -
  obtain a h1 h2 where n: "new_cell h = (a, h1)" and c: "cp x h1 = (y, h2)" and h': "h' = set_cell a (mk y) h2"
    using assms(3) by (auto simp: deep_copy_of_def Let_def split: prod.splits)
  note n = extends_new [OF n]
  note step = copied_step [OF assms(1,2) n [THEN conjunct1] c]
  have "a \<notin> rc h2 y" using step(4) n by auto
  then have "cells h' b = cells h2 b" if "b \<in> rc h2 y" for b using that by (auto simp: h')
  then have k: "rd h' y = rd h2 y \<and> rc h' y = rc h2 y" by (rule reads_cellsD [OF copies_reads [OF assms(1)]])
  show "extends h h'" unfolding h' using extends_set [OF step(2), of a "mk y"] n by simp
  show "rd h' y = rd h x" using k step(3) by (simp add: copied_def)
  show "rc h' y \<subseteq> {limit h..<limit h'}" using k step(3) by (simp add: copied_def h')
qed

text \<open>The object that is sent: the copy of the user with its new status.\<close>

lemma stored_copy:
  assumes lib: "api_lib_copies al" and p: "deref the_user p h = Some u" "in_use (pointer_cells the_user (user_cells al)) h p"
    and cp: "MosquittoUser_DeepCopy al p h = (q, h1)" and st: "in_use (conditions_cells al) h (gUserConditions status)"
  obtains b y where "q = Ref b" "deref the_user q h1 = Some y" "limit h \<le> b" "extends h h1"
    "extends h (set_cell b (UserCell (y\<lparr>gStatus := status\<rparr>)) h1)"
    "pointer_value the_user (user_value al) (set_cell b (UserCell (y\<lparr>gStatus := status\<rparr>)) h1) q =
       Some ((user_value al h u)\<lparr>gStatus := user_status_value al h status\<rparr>)"
proof -
  obtain a h2 y h3 where n: "new_cell h = (a, h2)" and c: "MosquittoUser_DeepCopyInto al u h2 = (y, h3)"
    and q: "q = Ref a" "h1 = set_cell a (UserCell y) h3"
    using cp p(1) by (auto simp: MosquittoUser_DeepCopy_def copy_pointer_def Let_def split: prod.splits)
  note n = extends_new [OF n]
  note user = copies_objects(2) [OF lib]
  note step = copied_step [OF user pointer_part [OF p(2,1)] n [THEN conjunct1] c]
  let ?h = "set_cell a (UserCell (y\<lparr>gStatus := status\<rparr>)) h1"
  have e: "extends h h1" "extends h ?h"
    using extends_set [OF step(2), of a] extends_set [of h h1 a] n by (simp_all add: q(2))
  have fresh: "a \<notin> user_cells al h3 y" using step(4) n by auto
  have same: "cells ?h b = cells h3 b" if "b \<noteq> a" for b using that by (simp add: q(2))
  have parts: "alObjectMeta al ?h (gObjectMeta y) = alObjectMeta al h3 (gObjectMeta y)"
    "user_spec_value ?h (gSpec y) = user_spec_value h3 (gSpec y)"
    by (rule reads_cellsD [OF copies_reads [OF api_lib_parts(1) [OF lib]], THEN conjunct1];
        use fresh same in \<open>auto simp: user_cells_def\<close>)
      (rule reads_cellsD [OF copies_reads [OF copies_user_spec], THEN conjunct1];
        use fresh same in \<open>auto simp: user_cells_def\<close>)
  have "conditions_value al ?h (gUserConditions status) = conditions_value al h (gUserConditions status)"
    by (rule kept(1) [OF copies_reads [OF api_lib_parts(4) [OF lib]] st e(2)])
  then have st': "user_status_value al ?h status = user_status_value al h status" by (simp add: user_status_value_def)
  have "user_value al h3 y = user_value al h u" using step(3) by (simp add: copied_def)
  then have "user_value al ?h (y\<lparr>gStatus := status\<rparr>) = (user_value al h u)\<lparr>gStatus := user_status_value al h status\<rparr>"
    using parts st' by (simp add: user_value_def)
  then show thesis
    using n e by (intro that [of a y]) (simp_all only: q(1), simp_all add: deref_def pointer_value_def q(2))
qed

lemma condition_stored: "conditions_ok cl \<Longrightarrow> clSetStatusCondition cl w cs c \<noteq> []"
proof
  assume "conditions_ok cl" and none: "clSetStatusCondition cl w cs c = []"
  from this(1) have "case find_condition (condType c) (clSetStatusCondition cl w cs c) of None \<Rightarrow> False
    | Some c' \<Rightarrow> condStatus c' = condStatus c \<and> condReason c' = condReason c \<and>
        condMessage c' = condMessage c \<and> condObservedGeneration c' = condObservedGeneration c"
    unfolding conditions_ok_def by blast
  then show False by (simp add: none find_condition_def)
qed

text \<open>The new status, before the API call: what it stands for, and that the memory so far is as it was.\<close>

lemma new_status_made:
  assumes lib: "api_lib_copies al" and setc: "sets_condition al setc f" and uu: "in_use (user_cells al) h u"
    and c1: "deep_copy_of UserStatusCell (MosquittoUserStatus_DeepCopyInto al) (gStatus u) h = (st, h1)"
    and c2: "setc (gUserConditions st) c h1 = (conds, h2)"
  shows "extends h h1" and "extends h h2" and "in_use (conditions_cells al) h2 conds"
    and "conditions_value al h2 conds = Some (f (ustatConditions (uStatus (api_user (user_value al h u)))) c)"
proof -
  have us: "in_use (user_status_cells al) h (gStatus u)" using uu by (auto simp: in_use_def user_cells_def)
  note s1 = deep_copy_of_step [OF copies_statuses(2) [OF lib] us c1]
  have use1: "in_use (conditions_cells al) h1 (gUserConditions st)"
    using s1(3) by (auto simp: in_use_def user_status_cells_def)
  have s2: "limit h1 \<le> limit h2" "\<forall>a < limit h1. a \<notin> conditions_cells al h1 (gUserConditions st) \<longrightarrow> cells h2 a = cells h1 a"
    "conditions_value al h2 conds = Some (f (list_of (conditions_value al h1 (gUserConditions st))) c)"
    "conditions_cells al h2 conds \<subseteq> conditions_cells al h1 (gUserConditions st) \<union> {limit h1..<limit h2}"
    using setc use1 c2 unfolding sets_condition_def by blast+
  have "cells h2 a = cells h a" if "a < limit h" for a
  proof -
    have "a \<notin> conditions_cells al h1 (gUserConditions st)" "a < limit h1"
      using that s1(1,3) by (auto simp: extends_def user_status_cells_def)
    then show ?thesis using s2(2) s1(1) that by (simp add: extends_def)
  qed
  then show "extends h h2" using s1(1) s2(1) by (simp add: extends_def)
  have "x < limit h2" if "x \<in> conditions_cells al h2 conds" for x
  proof -
    have "x < limit h1" if "x \<in> conditions_cells al h1 (gUserConditions st)"
      using subsetD [OF use1 [unfolded in_use_def] that] by simp
    then show ?thesis using subsetD [OF s2(4) that] s2(1) by fastforce
  qed
  then show "in_use (conditions_cells al) h2 conds" by (auto simp: in_use_def)
  have "list_of (conditions_value al h1 (gUserConditions st)) = ustatConditions (uStatus (api_user (user_value al h u)))"
    using s1(2) by (simp add: user_status_value_def api_user_def api_user_status_def user_value_def)
  then show "conditions_value al h2 conds = Some (f (ustatConditions (uStatus (api_user (user_value al h u)))) c)"
    using s2(3) by simp
qed (rule deep_copy_of_step [OF copies_statuses(2) [OF lib] _ c1], use uu in \<open>auto simp: in_use_def user_cells_def\<close>)

definition new_status :: "user_value \<Rightarrow> string \<Rightarrow> condition list \<Rightarrow> condition list option user_status_struct" where
  "new_status u username cs = \<lparr>gUserObservedGeneration = metaGeneration (gObjectMeta u), gUsername = username,
     gUserConditions = Some cs\<rparr>"

lemma api_user_status_inject:
  assumes "cs \<noteq> []"
  shows "api_user_status \<lparr>gUserObservedGeneration = g, gUsername = n, gUserConditions = Some cs\<rparr> = api_user_status st \<longleftrightarrow>
    \<lparr>gUserObservedGeneration = g, gUsername = n, gUserConditions = Some cs\<rparr> = st"
proof (cases st)
  case (fields g' n' cs')
  then show ?thesis using assms by (cases cs') (auto simp: api_user_status_def)
qed

text \<open>The model over values, in the terms of the memory: what it writes is decided by the new status.\<close>

lemma persistUserStatus_value:
  assumes cond: "conditions_ok cl"
    and new: "new = new_status u username (clSetStatusCondition cl (rnWorld s) (ustatConditions (uStatus (api_user u)))
      (user_condition (api_user u) v))"
  shows "persistUserStatus cl (api_user u) username v s = (if new = gStatus u then (Inr (), s)
      else wrapIO (''writing the status of MosquittoUser '' @ uName (api_user u))
        (write_object cl (UpdateUserStatus (api_user (u\<lparr>gStatus := new\<rparr>)))) s)"
proof -
  let ?u = "api_user u"
  let ?cs = "clSetStatusCondition cl (rnWorld s) (ustatConditions (uStatus ?u)) (user_condition ?u v)"
  have api_new: "(uStatus ?u)\<lparr>ustatObservedGeneration := metaGeneration (uMeta ?u), ustatUsername := username,
      ustatConditions := ?cs\<rparr> = api_user_status new"
    by (simp add: new new_status_def api_user_status_def api_user_def)
  have upd: "api_user (u\<lparr>gStatus := new\<rparr>) = ?u\<lparr>uStatus := api_user_status new\<rparr>" by (simp add: api_user_def)
  have "uStatus ?u = api_user_status (gStatus u)" by (simp add: api_user_def)
  then have differ: "api_user_status new = uStatus ?u \<longleftrightarrow> new = gStatus u"
    using api_user_status_inject [OF condition_stored [OF cond]] unfolding new new_status_def by simp
  show ?thesis
    using differ api_new unfolding upd
    by (cases "new = gStatus u") (simp_all add: persistUserStatus_def Let_def bindIO_def conditionIO_def retIO_def)
qed

text \<open>The write, with the new status built in the copy and the old memory still in place.\<close>

lemma user_status_update_run:
  assumes lib: "api_lib_copies al" and setc: "sets_condition al setc (clSetStatusCondition cl (rnWorld s))"
    and p: "deref the_user p h = Some u" and use: "in_use (pointer_cells the_user (user_cells al)) h p"
    and new: "new = new_status (user_value al h u) username (clSetStatusCondition cl (rnWorld s)
      (ustatConditions (uStatus (api_user (user_value al h u)))) (user_condition (api_user (user_value al h u)) v))"
    and run: "user_status_update al setc p username v h = (q, h')"
  obtains st h2 where "extends h h2" "user_status_value al h2 st = new" "user_value al h2 u = user_value al h u"
    "in_use (conditions_cells al) h2 (gUserConditions st)"
    "(if new = gStatus (user_value al h u) then (Null, h2)
      else (let (q, h) = MosquittoUser_DeepCopy al p h2 in
        (case (q, deref the_user q h) of (Ref b, Some stored) \<Rightarrow> (q, set_cell b (UserCell (stored\<lparr>gStatus := st\<rparr>)) h)
         | _ \<Rightarrow> (Null, h)))) = (q, h')"
proof -
  let ?c = "user_condition (api_user (user_value al h u)) v"
  note reads = copies_reads [OF copies_objects(2) [OF lib]]
  have uu: "in_use (user_cells al) h u" by (rule pointer_part [OF use p])
  obtain st h1 where c1: "deep_copy_of UserStatusCell (MosquittoUserStatus_DeepCopyInto al) (gStatus u) h = (st, h1)"
    by (cases "deep_copy_of UserStatusCell (MosquittoUserStatus_DeepCopyInto al) (gStatus u) h")
  obtain conds h2 where c2: "setc (gUserConditions st) ?c h1 = (conds, h2)" by (cases "setc (gUserConditions st) ?c h1")
  note made = new_status_made [OF lib setc uu c1 c2]
  have u1: "user_value al h1 u = user_value al h u" and u2: "user_value al h2 u = user_value al h u"
    by (rule kept(1) [OF reads uu made(1)], rule kept(1) [OF reads uu made(2)])
  have g1: "alObjectMeta al h1 (gObjectMeta u) = gObjectMeta (user_value al h u)" using u1 by (simp add: user_value_def)
  let ?st = "st\<lparr>gUserObservedGeneration := metaGeneration (gObjectMeta (user_value al h u)), gUsername := username,
    gUserConditions := conds\<rparr>"
  have val: "user_status_value al h2 ?st = new" "user_status_value al h2 (gStatus u) = gStatus (user_value al h u)"
    using made(4) u2 by (simp_all add: user_status_value_def new new_status_def user_value_def)
  have cc: "in_use (conditions_cells al) h2 (gUserConditions ?st)" using made(3) by simp
  show thesis
    by (rule that [OF made(2) val(1) u2 cc])
      (use run [unfolded user_status_update_def p option.case c1 Let_def prod.case u1 g1] in \<open>simp add: c2 val split: if_split_asm\<close>)
qed

text \<open>C36: the status write works on copies. Nothing that was in memory before has changed, so whoever else holds the
  user, the cache of the client among them, still sees what it was; and what is sent is the object the
  model over immutable values sends: the user with its new status, or nothing when the status is the same.\<close>

theorem user_status_write_is_pure:
  assumes lib: "api_lib_copies al" and setc: "sets_condition al setc (clSetStatusCondition cl (rnWorld s))"
    and cond: "conditions_ok cl" and p: "deref the_user p h = Some u"
    and use: "in_use (pointer_cells the_user (user_cells al)) h p"
    and run: "user_status_update al setc p username v h = (q, h')"
  shows "extends h h' \<and>
    persistUserStatus cl (api_user (user_value al h u)) username v s =
      (case pointer_value the_user (user_value al) h' q of
         None \<Rightarrow> (Inr (), s)
       | Some x \<Rightarrow> wrapIO (''writing the status of MosquittoUser '' @ uName (api_user x))
           (write_object cl (UpdateUserStatus (api_user x))) s)"
proof -
  define new where "new = new_status (user_value al h u) username (clSetStatusCondition cl (rnWorld s)
    (ustatConditions (uStatus (api_user (user_value al h u)))) (user_condition (api_user (user_value al h u)) v))"
  note reads = copies_reads [OF copies_objects(2) [OF lib]]
  note pure = persistUserStatus_value [OF cond new_def]
  obtain st h2 where st: "extends h h2" "user_status_value al h2 st = new" "user_value al h2 u = user_value al h u"
      "in_use (conditions_cells al) h2 (gUserConditions st)"
    and run': "(if new = gStatus (user_value al h u) then (Null, h2)
      else (let (q, h) = MosquittoUser_DeepCopy al p h2 in
        (case (q, deref the_user q h) of (Ref b, Some stored) \<Rightarrow> (q, set_cell b (UserCell (stored\<lparr>gStatus := st\<rparr>)) h)
         | _ \<Rightarrow> (Null, h)))) = (q, h')"
    by (rule user_status_update_run [OF lib setc p use new_def run])
  show ?thesis
  proof (cases "new = gStatus (user_value al h u)")
    case True
    then show ?thesis using run' pure st(1) by (auto simp: pointer_value_def deref_def)
  next
    case False
    obtain q1 h3 where cp: "MosquittoUser_DeepCopy al p h2 = (q1, h3)" by (cases "MosquittoUser_DeepCopy al p h2")
    have k: "deref the_user p h2 = Some u"
      using p use st(1) by (cases p) (auto simp: deref_def in_use_def pointer_cells_def extends_def)
    obtain b y where sent: "q1 = Ref b" "deref the_user q1 h3 = Some y"
      "extends h2 (set_cell b (UserCell (y\<lparr>gStatus := st\<rparr>)) h3)"
      "pointer_value the_user (user_value al) (set_cell b (UserCell (y\<lparr>gStatus := st\<rparr>)) h3) q1 =
         Some ((user_value al h2 u)\<lparr>gStatus := user_status_value al h2 st\<rparr>)"
      by (rule stored_copy [OF lib k kept(3) [OF reads_pointer [OF reads] use st(1)] cp st(4)])
    have q: "q = q1" "h' = set_cell b (UserCell (y\<lparr>gStatus := st\<rparr>)) h3"
      using run' False cp sent(1,2) by auto
    then show ?thesis
      using pure False extends_trans [OF st(1) sent(3)] sent(4) st(2,3) unfolding q by (simp add: api_user_def)
  qed
qed

subsection \<open>A concrete memory\<close>

definition sample_set_condition ::
  "(condition list \<Rightarrow> condition \<Rightarrow> condition list) \<Rightarrow> slice \<Rightarrow> condition \<Rightarrow> sample_struct mem \<Rightarrow> slice \<times> sample_struct mem" where
  "sample_set_condition f s c h =
     (let cs = f (list_of (conditions_value sample_api_lib h s)) c; (a, h) = new_cell h
      in (Slice a 0 (length cs), set_cell a (ConditionArray (map (\<lambda>c. (empty_meta, c, Null)) cs)) h))"

lemma sample_set_condition_ok: "sets_condition sample_api_lib (sample_set_condition f) f"
  by (auto simp: sets_condition_def sample_set_condition_def new_cell_def Let_def slice_value_def slice_cells_def
      elements_def sample_api_lib_def pointer_cells_def deref_def comp_def)

definition sample_verdict :: verdict where
  "sample_verdict = \<lparr>vAccepted = True, vReason = ReasonUserAccepted, vMessage = ''accepted''\<rparr>"

theorem user_status_write_is_pure_witness:
  "\<exists>q h'. user_status_update sample_api_lib (sample_set_condition (clSetStatusCondition sample_client ())) (Ref 1) ''ann''
      sample_verdict sample_mem = (q, h') \<and> extends sample_mem h'"
proof -
  obtain q h' where run: "user_status_update sample_api_lib (sample_set_condition (clSetStatusCondition sample_client ())) (Ref 1)
      ''ann'' sample_verdict sample_mem = (q, h')" by (cases "user_status_update sample_api_lib
      (sample_set_condition (clSetStatusCondition sample_client ())) (Ref 1) ''ann'' sample_verdict sample_mem")
  have "sets_condition sample_api_lib (sample_set_condition (clSetStatusCondition sample_client ()))
      (clSetStatusCondition sample_client (rnWorld sample_run))"
    using sample_set_condition_ok by simp
  from user_status_write_is_pure [OF sample_api_lib_ok this sample_client_conditions sample_mem_user(1,2) run]
  show ?thesis using run by blast
qed

end
