(* ===== verification/Binaries.thy ===== *)
theory Binaries
  imports Wiring Entry ExporterServe StatusMemory
begin

section \<open>The binaries and the scheme (cmd, api/v1/groupversion_info.go)\<close>

text \<open>
  What is left of the programs around the modelled cores: the registration of the API types with the
  scheme the operator's client decodes by, the choice between the two entry points of the manager
  binary, the exporter binary, and the image the test suites provision.
\<close>

subsection \<open>The scheme\<close>

record group_version =
  gvGroup :: string
  gvVersion :: string

definition GroupVersion :: group_version where
  "GroupVersion = \<lparr>gvGroup = ''mko.gtrfc.com'', gvVersion = ''v1''\<rparr>"

text \<open>A scheme maps a group, version and kind to the Go type that is decoded; the kind of a registered type is its name.\<close>

datatype go_type = OwnType object_type | LibraryType string

fun go_type_name :: "go_type \<Rightarrow> string" where
  "go_type_name (OwnType MosquittoType) = ''Mosquitto''"
| "go_type_name (OwnType MosquittoListType) = ''MosquittoList''"
| "go_type_name (OwnType MosquittoUserType) = ''MosquittoUser''"
| "go_type_name (OwnType MosquittoUserListType) = ''MosquittoUserList''"
| "go_type_name (LibraryType name) = name"

type_synonym scheme = "group_version \<times> string \<rightharpoonup> go_type"

text \<open>\<open>AddKnownTypes\<close> panics when another type holds the kind.\<close>

fun AddKnownTypes :: "scheme \<Rightarrow> group_version \<Rightarrow> go_type list \<Rightarrow> scheme option" where
  "AddKnownTypes s gv [] = Some s"
| "AddKnownTypes s gv (t # ts) =
     (case s (gv, go_type_name t) of
        Some t' \<Rightarrow> if t' = t then AddKnownTypes s gv ts else None
      | None \<Rightarrow> AddKnownTypes (s((gv, go_type_name t) \<mapsto> t)) gv ts)"

text \<open>
  What the libraries register: the meta types of a group version, and the types of Kubernetes itself,
  which may fail.
\<close>

record scheme_lib =
  slMetaTypes :: "go_type list"
  slClientGo :: "scheme \<Rightarrow> scheme option result"

definition addKnownTypes :: "scheme_lib \<Rightarrow> scheme \<Rightarrow> scheme option result" where
  "addKnownTypes sl s =
     (case AddKnownTypes s GroupVersion [OwnType MosquittoType, OwnType MosquittoListType,
        OwnType MosquittoUserType, OwnType MosquittoUserListType] of
        None \<Rightarrow> Inr None
      | Some s \<Rightarrow> Inr (AddKnownTypes s GroupVersion (slMetaTypes sl)))"

text \<open>\<open>init\<close>: \<open>Must\<close> panics on an error, and a panic ends the process before \<open>main\<close>.\<close>

definition scheme_init :: "scheme_lib \<Rightarrow> scheme option" where
  "scheme_init sl =
     (case slClientGo sl Map.empty of
        Inl _ \<Rightarrow> None
      | Inr None \<Rightarrow> None
      | Inr (Some s) \<Rightarrow> (case addKnownTypes sl s of Inl _ \<Rightarrow> None | Inr r \<Rightarrow> r))"

text \<open>The kinds of the objects the operator's client writes.\<close>

definition core_v1 :: group_version where "core_v1 = \<lparr>gvGroup = '''', gvVersion = ''v1''\<rparr>"
definition apps_v1 :: group_version where "apps_v1 = \<lparr>gvGroup = ''apps'', gvVersion = ''v1''\<rparr>"

fun written_kind :: "api_write \<Rightarrow> group_version \<times> string" where
  "written_kind (CreateSecret _) = (core_v1, ''Secret'')"
| "written_kind (UpdateSecret _) = (core_v1, ''Secret'')"
| "written_kind (UpdateUserStatus _) = (GroupVersion, ''MosquittoUser'')"
| "written_kind (CreateConfigMap _) = (core_v1, ''ConfigMap'')"
| "written_kind (UpdateConfigMap _) = (core_v1, ''ConfigMap'')"
| "written_kind (CreateService _) = (core_v1, ''Service'')"
| "written_kind (UpdateService _) = (core_v1, ''Service'')"
| "written_kind (CreateStatefulSet _) = (apps_v1, ''StatefulSet'')"
| "written_kind (UpdateStatefulSet _) = (apps_v1, ''StatefulSet'')"
| "written_kind (UpdateMosquittoStatus _) = (GroupVersion, ''Mosquitto'')"

text \<open>
  The documented content of the libraries' schemes: the built-in groups, none of which is the
  operator's own, and meta types that are none of its kinds.
\<close>

definition scheme_rules :: "scheme_lib \<Rightarrow> bool" where
  "scheme_rules sl \<longleftrightarrow>
     (\<exists>s. slClientGo sl Map.empty = Inr (Some s) \<and> (\<forall>kind. s (GroupVersion, kind) = None) \<and>
        s (core_v1, ''Secret'') \<noteq> None \<and> s (core_v1, ''ConfigMap'') \<noteq> None \<and> s (core_v1, ''Service'') \<noteq> None \<and>
        s (apps_v1, ''StatefulSet'') \<noteq> None) \<and>
     distinct (map go_type_name (slMetaTypes sl)) \<and>
     (\<forall>t \<in> set (slMetaTypes sl). \<forall>o'. go_type_name t \<noteq> go_type_name (OwnType o'))"

lemma AddKnownTypes_fresh:
  "distinct (map go_type_name ts) \<Longrightarrow> (\<And>t. t \<in> set ts \<Longrightarrow> s (gv, go_type_name t) = None) \<Longrightarrow>
     \<exists>s'. AddKnownTypes s gv ts = Some s' \<and>
       (\<forall>k. s' k = (if fst k = gv \<and> snd k \<in> go_type_name ` set ts then s' k else s k)) \<and>
       (\<forall>t \<in> set ts. s' (gv, go_type_name t) = Some t)"
proof (induction ts arbitrary: s)
  case (Cons t ts)
  let ?s = "s((gv, go_type_name t) \<mapsto> t)"
  have "?s (gv, go_type_name u) = None" if u: "u \<in> set ts" for u
  proof -
    have "go_type_name u \<noteq> go_type_name t" using Cons.prems(1) u by (metis distinct.simps(2) image_eqI list.set_map list.simps(9))
    then show ?thesis using Cons.prems(2) u by simp
  qed
  moreover have d: "distinct (map go_type_name ts)" using Cons.prems(1) by simp
  ultimately obtain s' where s': "AddKnownTypes ?s gv ts = Some s'"
    "\<forall>k. s' k = (if fst k = gv \<and> snd k \<in> go_type_name ` set ts then s' k else ?s k)"
    "\<forall>u \<in> set ts. s' (gv, go_type_name u) = Some u" using Cons.IH [of ?s, OF d] by blast
  have "go_type_name t \<notin> go_type_name ` set ts" using Cons.prems(1) by simp
  then have "s' (gv, go_type_name t) = ?s (gv, go_type_name t)" using s'(2) by (metis snd_conv)
  then have "s' (gv, go_type_name t) = Some t" by simp
  moreover have "s' k = s k" if "\<not> (fst k = gv \<and> snd k \<in> go_type_name ` set (t # ts))" for k
  proof -
    have "\<not> (fst k = gv \<and> snd k \<in> go_type_name ` set ts)" "k \<noteq> (gv, go_type_name t)" using that by (cases k; auto)+
    then show ?thesis using s'(2) by (metis fun_upd_other)
  qed
  ultimately show ?case using s'(1,3) Cons.prems(2) by auto
qed simp

lemma own_names: "distinct (map go_type_name [OwnType MosquittoType, OwnType MosquittoListType,
    OwnType MosquittoUserType, OwnType MosquittoUserListType])"
  by simp

text \<open>Every kind the operator writes can be encoded: the program starts, and its scheme has a type for each.\<close>

lemma written_kinds_registered:
  assumes "scheme_rules sl"
  obtains s where "scheme_init sl = Some s" and "\<And>x. s (written_kind x) \<noteq> None"
    and "\<And>o'. s (GroupVersion, go_type_name (OwnType o')) = Some (OwnType o')"
proof -
  let ?own = "[OwnType MosquittoType, OwnType MosquittoListType, OwnType MosquittoUserType, OwnType MosquittoUserListType]"
  obtain s0 where s0: "slClientGo sl Map.empty = Inr (Some s0)" "\<And>kind. s0 (GroupVersion, kind) = None"
    "s0 (core_v1, ''Secret'') \<noteq> None" "s0 (core_v1, ''ConfigMap'') \<noteq> None" "s0 (core_v1, ''Service'') \<noteq> None"
    "s0 (apps_v1, ''StatefulSet'') \<noteq> None"
    and meta: "distinct (map go_type_name (slMetaTypes sl))"
      "\<And>t o'. t \<in> set (slMetaTypes sl) \<Longrightarrow> go_type_name t \<noteq> go_type_name (OwnType o')"
    using assms unfolding scheme_rules_def by blast
  obtain s1 where s1: "AddKnownTypes s0 GroupVersion ?own = Some s1"
    "\<forall>k. s1 k = (if fst k = GroupVersion \<and> snd k \<in> go_type_name ` set ?own then s1 k else s0 k)"
    "\<forall>t \<in> set ?own. s1 (GroupVersion, go_type_name t) = Some t"
    using AddKnownTypes_fresh [OF own_names, of s0 GroupVersion] s0(2) by blast
  have own: "OwnType o' \<in> set ?own" for o' by (cases o') auto
  have "s1 (GroupVersion, go_type_name t) = None" if t: "t \<in> set (slMetaTypes sl)" for t
  proof -
    have "go_type_name t \<notin> go_type_name ` set ?own" using meta(2) [OF t] by (auto simp del: go_type_name.simps)
    then show ?thesis using s1(2) s0(2) by (metis snd_conv)
  qed
  then obtain s2 where s2: "AddKnownTypes s1 GroupVersion (slMetaTypes sl) = Some s2"
    "\<forall>k. s2 k = (if fst k = GroupVersion \<and> snd k \<in> go_type_name ` set (slMetaTypes sl) then s2 k else s1 k)"
    using AddKnownTypes_fresh [OF meta(1), of s1 GroupVersion] by blast
  have init: "scheme_init sl = Some s2" by (simp add: scheme_init_def s0(1) addKnownTypes_def s1(1) s2(1) del: AddKnownTypes.simps)
  have mine: "s2 (GroupVersion, go_type_name (OwnType o')) = Some (OwnType o')" for o'
  proof -
    have "go_type_name (OwnType o') \<notin> go_type_name ` set (slMetaTypes sl)" by (metis imageE meta(2))
    then have "s2 (GroupVersion, go_type_name (OwnType o')) = s1 (GroupVersion, go_type_name (OwnType o'))"
      using s2(2) by (metis snd_conv)
    moreover have "s1 (GroupVersion, go_type_name (OwnType o')) = Some (OwnType o')" using s1(3) own [of o'] by (rule bspec)
    ultimately show ?thesis by simp
  qed
  have others: "s2 (gv, kind) = s0 (gv, kind)" if "gv \<noteq> GroupVersion" for gv kind
    using that s1(2) s2(2) by (metis fst_conv)
  have gvs: "core_v1 \<noteq> GroupVersion" "apps_v1 \<noteq> GroupVersion" by (simp_all add: core_v1_def apps_v1_def GroupVersion_def)
  have "s2 (written_kind x) \<noteq> None" for x
    using mine [of MosquittoType] mine [of MosquittoUserType] others [OF gvs(1)] others [OF gvs(2)] s0(3-6) by (cases x) auto
  then show thesis using that init mine by blast
qed

subsection \<open>The manager binary\<close>

text \<open>
  \<open>bindZapFlags\<close>: the options the logging flags write into, and the flags the library declares for them. \<open>main\<close>
  hands over to the reloader or parses the command line: help ends the process with 0, a bad command line with 2.
\<close>

record zap_options =
  zoDevelopment :: bool

definition bindZapFlags :: "(zap_options \<Rightarrow> (string \<times> flag_kind) list) \<Rightarrow> zap_options \<times> (string \<times> flag_kind) list" where
  "bindZapFlags bind = (let opts = \<lparr>zoDevelopment = True\<rparr> in (opts, bind opts))"

datatype manager_end =
    Reloaded reload_mode machine
  | OperatorExit int "start_call list"

definition manager_main ::
  "flag_lib \<Rightarrow> (zap_options \<Rightarrow> (string \<times> flag_kind) list) \<Rightarrow> string \<Rightarrow> string list \<Rightarrow>
     (start_call \<Rightarrow> go_error option) \<Rightarrow> machine \<Rightarrow> manager_end" where
  "manager_main lib zap version os_args fails s =
     (case reload_entry os_args of
        Some args \<Rightarrow> (case reload_main lib args s of (mode, s) \<Rightarrow> Reloaded mode s)
      | None \<Rightarrow>
          (case parse_flags lib (operatorFlagSpecs @ snd (bindZapFlags zap)) (tl os_args) fmempty of
             Inl e \<Rightarrow> OperatorExit (if e = ''flag: help requested'' then 0 else 2) []
           | Inr fs \<Rightarrow> (case operator_main lib version fs fails of (code, made) \<Rightarrow> OperatorExit code made)))"

text \<open>The operator never runs in a pod of a broker, and the reloader never as the operator.\<close>

lemma manager_main_reloads:
  "(\<exists>mode s'. manager_main lib zap version os_args fails s = Reloaded mode s') \<longleftrightarrow>
     length os_args > 1 \<and> os_args ! 1 = ''reload''"
proof (cases "length os_args > 1 \<and> os_args ! 1 = ''reload''")
  case True
  then show ?thesis by (auto simp: manager_main_def reload_entry_def split: prod.splits)
next
  case False
  then have "reload_entry os_args = None" by (simp add: reload_entry_def)
  then show ?thesis using False by (auto simp: manager_main_def split: prod.splits sum.splits)
qed

subsection \<open>The exporter binary and the test image\<close>

definition exporter_binary ::
  "flag_lib \<Rightarrow> string list \<Rightarrow> (string \<Rightarrow> go_error option) \<Rightarrow> (exporter_config \<Rightarrow> run_end) \<Rightarrow> int" where
  "exporter_binary lib os_args listen ends = exporter_main lib (tl os_args) listen ends"

definition EnvMosquittoImage :: string where "EnvMosquittoImage = ''E2E_MOSQUITTO_IMAGE''"
definition MosquittoImage :: string where "MosquittoImage = ''eclipse-mosquitto:2.1.2-alpine''"

text \<open>\<open>testimages.Default\<close>; a variable that is not set reads as the empty string.\<close>

definition default_test_image :: "(string \<Rightarrow> string) \<Rightarrow> string" where
  "default_test_image getenv =
     (let image = getenv EnvMosquittoImage in if image \<noteq> '''' then image else MosquittoImage)"

end
