(* ===== verification/Delivery.thy ===== *)
theory Delivery
  imports Deployed Binaries
begin

section \<open>From a ready user to a login\<close>

text \<open>
  The operator, the Secret, the pod's mount and the reloader in one line. When a broker is not awaited, a user
  whose status says it is ready can log in to it with the credentials of its own Secret, as soon as the
  kubelet has projected the rendered Secret into the pod and the reloader has copied it.
\<close>

text \<open>The mount of a pod shows the data of a Secret, and the files the broker reads are the reloader's copies.\<close>

definition projected :: "config \<Rightarrow> strmap \<Rightarrow> machine \<Rightarrow> bool" where
  "projected cfg data s \<longleftrightarrow> (\<forall>n \<in> set (cfFiles cfg).
     fmlookup (mcFiles s) (path_join (fst (resolveData (cfSource cfg) s)) n) = fmlookup data n)"

definition broker_files :: "config \<Rightarrow> machine \<Rightarrow> strmap" where
  "broker_files cfg s = fmap_of_list (concat (map (\<lambda>n.
     case fmlookup (mcFiles s) (path_join (cfTarget cfg) n) of None \<Rightarrow> [] | Some data \<Rightarrow> [(n, data)]) (cfFiles cfg)))"

lemma broker_files_lookup:
  "n \<in> set (cfFiles cfg) \<Longrightarrow> fmlookup (broker_files cfg s) n = fmlookup (mcFiles s) (path_join (cfTarget cfg) n)"
proof -
  have "map_of (concat (map (\<lambda>n. case f n of None \<Rightarrow> [] | Some d \<Rightarrow> [(n, d)]) ns)) n = (if n \<in> set ns then f n else None)"
    for f :: "string \<Rightarrow> string option" and ns
    by (induction ns) (auto split: option.split simp: map_add_def)
  then show "n \<in> set (cfFiles cfg) \<Longrightarrow> fmlookup (broker_files cfg s) n = fmlookup (mcFiles s) (path_join (cfTarget cfg) n)"
    by (simp add: broker_files_def fmlookup_of_list)
qed

text \<open>A copy that succeeded gives the broker the data of the projected Secret.\<close>

lemma broker_files_synced:
  assumes "Sync cfg s = ((changed, None), s')" and "plain_names cfg" and "projected cfg data s" and "n \<in> set (cfFiles cfg)"
  shows "fmlookup (broker_files cfg s') n = fmlookup data n"
proof -
  have "list_all (\<lambda>n. fmlookup (mcFiles s') (path_join (cfTarget cfg) n) =
      fmlookup (mcFiles s) (path_join (fst (resolveData (cfSource cfg) s)) n)) (cfFiles cfg)"
    using Sync_spec [OF assms(1,2)] by (simp add: Let_def list_all_iff)
  then show ?thesis using assms(3,4) by (simp add: broker_files_lookup projected_def list_all_iff)
qed

subsection \<open>The login\<close>

text \<open>What the reloader of a pod is configured with.\<close>

definition pod_reload_config :: "string \<Rightarrow> config" where
  "pod_reload_config tls_dir = \<lparr>cfSource = AuthSecretMountPath, cfTarget = AuthMountPath,
     cfFiles = [PasswdKey, ACLKey], cfProcess = ''mosquitto'', cfProcRoot = ''/proc'', cfTLSDir = tls_dir\<rparr>"

lemma pod_reload_plain: "plain_names (pod_reload_config tls)" "PasswdKey \<in> set (cfFiles (pod_reload_config tls))"
  "ACLKey \<in> set (cfFiles (pod_reload_config tls))"
  by (simp_all add: plain_names_def pod_reload_config_def has_prefix_def PasswdKey_def ACLKey_def)

lemma ready_user_served:
  assumes pb: "pbkdf2_ok (libRuntime lib)" and ok: "store_ok S" and b: "stBrokers S key = Some m"
    and left: "resources_left lib r cl sv m S n" and u: "u \<in> set (stUsers S)" "bound_to key u" "is_ready u"
  obtains sec x where "stSecrets S (uNamespace u, credName (userCredentialsSecret (uSpec u))) = Some sec"
    "has_key (secData sec) (UsernameKey u)" "has_key (secData sec) (PasswordKey u)"
    "ustatUsername (uStatus u) = go_get (secData sec) (UsernameKey u)" "stSecrets S (auth_key m) = Some x"
    "VerifyPassword (libRuntime lib) (go_get (Hashes (secData x)) (ustatUsername (uStatus u))) (go_get (secData sec) (PasswordKey u))"
    "\<And>a t. (ustatUsername (uStatus u), a, t) \<in> set (acl_grants (secData x)) \<longleftrightarrow>
       \<lparr>aclTopic = t, aclAccess = a\<rparr> \<in> set (userACLs (uSpec u))"
proof -
  have key: "(mNamespace m, mName m) = key" using store_ok_broker [OF ok b] by (simp add: object_key_def)
  have us: "u \<in> set (bound_users m S)" using u(1,2) by (simp add: key)
  obtain pass where pass: "rendered (libRuntime lib) r sv m S pass"
    "user_done (go_get (upUsernames pass) (uName u)) (verdict_of (upVerdicts pass) (uName u)) u" "secret_done cl m (upData pass) S"
    using left us unfolding resources_left_def by blast
  obtain x where x: "stSecrets S (auth_key m) = Some x" "secData x = upData pass" using secret_done_data [OF pass(3)] by blast
  have name: "ustatUsername (uStatus u) = go_get (upUsernames pass) (uName u)" using pass(2) by (simp add: user_done_def)
  show thesis
  proof (rule rendered_login [OF pb ok pass(1) us ready_accepted [OF pass(2) u(3)]])
    fix sec assume sec: "stSecrets S (uNamespace u, credName (userCredentialsSecret (uSpec u))) = Some sec"
      "has_key (secData sec) (UsernameKey u)" "has_key (secData sec) (PasswordKey u)"
      "go_get (upUsernames pass) (uName u) = go_get (secData sec) (UsernameKey u)"
      "VerifyPassword (libRuntime lib) (go_get (Hashes (upData pass)) (go_get (secData sec) (UsernameKey u))) (go_get (secData sec) (PasswordKey u))"
      "\<And>a t. (go_get (secData sec) (UsernameKey u), a, t) \<in> set (acl_grants (upData pass)) \<longleftrightarrow>
         \<lparr>aclTopic = t, aclAccess = a\<rparr> \<in> set (userACLs (uSpec u))"
    show thesis by (rule that [OF sec(1-3) _ x(1)]) (use sec(4-6) in \<open>simp_all add: name x(2)\<close>)
  qed
qed

text \<open>C1: a user that is ready can log in. When a broker is not awaited and was not refused, a user bound to it
  whose Ready condition is true has a credentials Secret with both keys, and after any successful copy
  of the mounted Secret by the pod's reloader, the broker's own passwd file verifies that Secret's
  password for the username in the user's status, and its acl file grants that username exactly the
  user's ACLs. What edits, failing passes and late events came before does not matter.\<close>

theorem ready_user_can_log_in:
  assumes "serves cl sv" and "ownership_ok cl" and "conditions_ok cl" and "pbkdf2_ok (libRuntime lib)" and "rcHasAPIReader r"
    and "controller_rules ct" and "owner_rules cl ct"
    and op: "operates lib r cl sv ct st" "S = svView sv (opWorld st)" "\<not> awaited ct S (opQueue st) (opEvents st) key"
    and broker: "stBrokers S key = Some m" "metaDeletionTimestamp (mMeta m) = None" "namespaceGranted r (mNamespace m)"
      "check_of (libRuntime lib) r m S = None"
    and user: "u \<in> set (stUsers S)" "bound_to key u" "is_ready u"
    and mount: "\<And>x. stSecrets S (auth_key m) = Some x \<Longrightarrow> projected (pod_reload_config tls) (secData x) s"
    and copy: "Sync (pod_reload_config tls) s = ((changed, None), s')"
  shows "\<exists>sec. stSecrets S (uNamespace u, credName (userCredentialsSecret (uSpec u))) = Some sec \<and>
    has_key (secData sec) (UsernameKey u) \<and> has_key (secData sec) (PasswordKey u) \<and>
    ustatUsername (uStatus u) = go_get (secData sec) (UsernameKey u) \<and>
    (let files = broker_files (pod_reload_config tls) s' in
      VerifyPassword (libRuntime lib) (go_get (Hashes files) (ustatUsername (uStatus u))) (go_get (secData sec) (PasswordKey u)) \<and>
      (\<forall>a t. (ustatUsername (uStatus u), a, t) \<in> set (acl_grants files) \<longleftrightarrow>
         \<lparr>aclTopic = t, aclAccess = a\<rparr> \<in> set (userACLs (uSpec u))))"
proof -
  obtain n where left: "store_ok S" "resources_left lib r cl sv m S n" by (rule idle_broker_left [OF assms(1-14)])
  show ?thesis
  proof (rule ready_user_served [OF assms(4) left(1) broker(1) left(2) user])
    fix sec x assume sec: "stSecrets S (uNamespace u, credName (userCredentialsSecret (uSpec u))) = Some sec"
      "has_key (secData sec) (UsernameKey u)" "has_key (secData sec) (PasswordKey u)"
      "ustatUsername (uStatus u) = go_get (secData sec) (UsernameKey u)" and x: "stSecrets S (auth_key m) = Some x"
      and login: "VerifyPassword (libRuntime lib) (go_get (Hashes (secData x)) (ustatUsername (uStatus u))) (go_get (secData sec) (PasswordKey u))"
        "\<And>a t. (ustatUsername (uStatus u), a, t) \<in> set (acl_grants (secData x)) \<longleftrightarrow>
           \<lparr>aclTopic = t, aclAccess = a\<rparr> \<in> set (userACLs (uSpec u))"
    note files = broker_files_synced [OF copy pod_reload_plain(1) mount [OF x]]
    have "Hashes (broker_files (pod_reload_config tls) s') = Hashes (secData x)"
      "acl_grants (broker_files (pod_reload_config tls) s') = acl_grants (secData x)"
      using files [OF pod_reload_plain(2)] files [OF pod_reload_plain(3)] by (simp_all add: Hashes_def acl_grants_def go_get_def)
    then show ?thesis using sec login by (simp add: Let_def)
  qed
qed

subsection \<open>The sample cluster\<close>

definition mounted_machine :: "string \<Rightarrow> string \<Rightarrow> machine" where
  "mounted_machine passwd acl = \<lparr>
     mcFiles = fmap_of_list [(path_join AuthSecretMountPath PasswdKey, passwd), (path_join AuthSecretMountPath ACLKey, acl),
       (path_join AuthMountPath PasswdKey, passwd), (path_join AuthMountPath ACLKey, acl)],
     mcLinks = fmempty, mcProcesses = [], mcSignals = [], mcFaults = [], mcHistory = []\<rparr>"

lemma mounted_files:
  "fmlookup (mcFiles (mounted_machine passwd acl)) (path_join AuthSecretMountPath PasswdKey) = Some passwd"
  "fmlookup (mcFiles (mounted_machine passwd acl)) (path_join AuthSecretMountPath ACLKey) = Some acl"
  "fmlookup (mcFiles (mounted_machine passwd acl)) (path_join AuthMountPath PasswdKey) = Some passwd"
  "fmlookup (mcFiles (mounted_machine passwd acl)) (path_join AuthMountPath ACLKey) = Some acl"
  by (simp_all add: mounted_machine_def fmlookup_of_list path_join_def AuthSecretMountPath_def AuthMountPath_def PasswdKey_def
      ACLKey_def)

lemma mounted_machine_synced:
  "fmlookup data PasswdKey = Some passwd \<Longrightarrow> fmlookup data ACLKey = Some acl \<Longrightarrow>
     projected (pod_reload_config tls) data (mounted_machine passwd acl)"
  "Sync (pod_reload_config tls) (mounted_machine passwd acl) = ((False, None), mounted_machine passwd acl)"
proof -
  let ?M = "mounted_machine passwd acl"
  have fault: "next_fault ?M = (None, ?M)" by (simp add: next_fault_def mounted_machine_def)
  have dir: "resolveData AuthSecretMountPath ?M = (AuthSecretMountPath, ?M)"
    by (simp add: resolveData_def os_readlink_def fault) (simp add: mounted_machine_def)
  have cfg: "cfSource (pod_reload_config tls) = AuthSecretMountPath" "cfTarget (pod_reload_config tls) = AuthMountPath"
    "cfFiles (pod_reload_config tls) = [PasswdKey, ACLKey]"
    by (simp_all add: pod_reload_config_def)
  show "projected (pod_reload_config tls) data ?M" if "fmlookup data PasswdKey = Some passwd" "fmlookup data ACLKey = Some acl"
    by (simp add: projected_def cfg dir mounted_files that)
  show "Sync (pod_reload_config tls) ?M = ((False, None), ?M)"
    by (simp add: Sync_def readSource_def cfg dir os_read_file_def fault mounted_files go_get_upd)
qed

lemma rendered_files_keys:
  assumes "store_ok S" and "rendered rt r sv m S pass"
  shows "fmlookup (upData pass) PasswdKey \<noteq> None \<and> fmlookup (upData pass) ACLKey \<noteq> None"
proof (rule rendered_run [OF assms(2)])
  fix names verdicts inputs random res random'
  assume i: "inputs_at rt r sv S (bound_users m S) fmempty fmempty = (names, verdicts, inputs)"
    and R: "RenderUsers rt FilePayload inputs (exporter_principals m (upData pass)) (upData pass) random = Inr (res, random')"
    and keys: "fmlookup (upData pass) PasswdKey = fmlookup (resData res) PasswdKey"
      "fmlookup (upData pass) ACLKey = fmlookup (resData res) ACLKey"
  obtain es where "resData res = RenderFiles es"
    using rendered_files_entries [OF exporter_principals_ok(1) _ R] inputs_at_user [OF i bound_names_distinct [OF assms(1)]] by blast
  then show ?thesis by (simp add: keys RenderFiles_def split_beta)
qed

text \<open>The only user of a broker is accepted when the checks admit it.\<close>

lemma lone_user_accepted:
  assumes ok: "store_ok S" and left: "rendered rt r sv m S pass" and us: "bound_users m S = [u]"
    and cred: "credentials_at rt r sv S u = Inr i" and adm: "user_admitted i"
  shows "vAccepted (verdict_of (upVerdicts pass) (uName u))"
proof (rule rendered_run [OF left])
  fix names verdicts inputs random res random'
  assume i: "inputs_at rt r sv S (bound_users m S) fmempty fmempty = (names, verdicts, inputs)"
    and R: "RenderUsers rt FilePayload inputs (exporter_principals m (upData pass)) (upData pass) random = Inr (res, random')"
    and pass: "upVerdicts pass = verdicts ++\<^sub>f resVerdicts res"
  have inputs: "inputs = [i]" using i by (simp add: us cred)
  have name: "inName i = uName u" by (rule credentials_at_name [OF cred])
  have "check rt i = None" using adm by (simp add: check_None)
  then obtain j where "j \<in> same_username inputs i"
    "fmlookup (resVerdicts res) (inName i) = Some (if j = i then accepted_verdict rt i else conflict_verdict rt i (inName j))"
    using render_verdicts [OF R, of i] inputs by auto
  then have "fmlookup (resVerdicts res) (uName u) = Some (accepted_verdict rt i)"
    by (simp add: same_username_def inputs name)
  then show ?thesis by (simp add: verdict_of_def pass fmlookup_dom_iff accepted_verdict_def)
qed

lemma sample_user_parts:
  assumes "uMeta u = uMeta sample_user" and "uSpec u = uSpec sample_user"
  shows "uNamespace u = ''ns''" "credName (userCredentialsSecret (uSpec u)) = ''ann-login''"
    "uName u = ''ann''" "UsernameKey u = ''username''" "PasswordKey u = ''password''"
    "metaCreationTimestamp (uMeta u) = 1"
    "userACLs (uSpec u) = [\<lparr>aclTopic = ''t/#'', aclAccess = AccessRead\<rparr>]"
  by (simp_all add: uNamespace_def UsernameKey_def PasswordKey_def assms)
    (simp_all add: sample_user_def empty_meta_def DefaultUsernameKey_def DefaultPasswordKey_def)

lemma sample_secret_data:
  "go_get (secData sample_secret) ''username'' = ''ann''" "go_get (secData sample_secret) ''password'' = ''x''"
  "has_key (secData sample_secret) ''username''" "has_key (secData sample_secret) ''password''"
  "go_get (metaLabels (secMeta (svCached store_server sample_secret))) ConsumableLabel = ConsumableLabelValue"
  by (simp_all add: sample_secret_def store_server_def go_get_def has_key_def fmlookup_of_list ConsumableLabel_def)

lemma sample_delivered:
  assumes m: "same_object sample_broker m" and us: "stUsers S = [u]" and ok: "store_ok S"
    and u0: "uMeta u = uMeta sample_user" "uSpec u = uSpec sample_user"
    and secret: "stSecrets S (''ns'', ''ann-login'') = Some sample_secret"
    and left: "resources_left sample_library (sample_reconciler []) store_client store_server m S n"
  obtains x passwd acl where "bound_to (''ns'', ''mq'') u" "is_ready u"
    "stSecrets S (auth_key m) = Some x" "fmlookup (secData x) PasswdKey = Some passwd" "fmlookup (secData x) ACLKey = Some acl"
proof -
  note eqs = same_objectD [OF m]
  have bound: "bound_to (''ns'', ''mq'') u" by (simp add: bound_to_def uNamespace_def u0) (simp add: sample_user_def empty_meta_def)
  then have bus: "bound_users m S = [u]" by (simp add: us eqs sample_broker_names)
  obtain pass where pass: "rendered (libRuntime sample_library) (sample_reconciler []) store_server m S pass"
    "\<forall>u \<in> set (bound_users m S). user_done (go_get (upUsernames pass) (uName u)) (verdict_of (upVerdicts pass) (uName u)) u"
    "secret_done store_client m (upData pass) S"
    using left unfolding resources_left_def by blast
  define i where "i = sample_ann\<lparr>inName := ''ann''\<rparr>"
  have cred: "credentials_at (libRuntime sample_library) (sample_reconciler []) store_server S u = Inr i"
    by (simp add: credentials_at_def sample_user_parts [OF u0] secret sample_secret_data credentials_of_def i_def sample_ann_def)
  have "user_admitted i" using sample_admitted(1) by (simp add: i_def user_admitted_def)
  then have ready: "is_ready u"
    using accepted_ready lone_user_accepted [OF ok pass(1) bus cred] pass(2) bus by (metis list.set_intros(1))
  obtain x where x: "stSecrets S (auth_key m) = Some x" "secData x = upData pass" using secret_done_data [OF pass(3)] by blast
  obtain passwd acl where "fmlookup (secData x) PasswdKey = Some passwd" "fmlookup (secData x) ACLKey = Some acl"
    using rendered_files_keys [OF ok pass(1)] x(2) by auto
  then show thesis by (rule that [OF bound ready x(1)])
qed

theorem ready_user_can_log_in_witness:
  "\<exists>(S :: store) u passwd acl. u \<in> set (stUsers S) \<and> is_ready u \<and> ustatUsername (uStatus u) = ''ann'' \<and>
     (let files = broker_files (pod_reload_config '''') (mounted_machine passwd acl) in
       VerifyPassword sample_runtime (go_get (Hashes files) ''ann'') ''x'' \<and>
       {(a, t). (''ann'', a, t) \<in> set (acl_grants files)} = {(AccessRead, ''t/#'')})"
proof -
  obtain st where st: "tended sample_library (sample_reconciler []) store_client store_server watching_controller st"
    "spared store_client (''ns'', ''mq'') sample_store (opWorld st)"
    "\<not> awaited watching_controller (opWorld st) (opQueue st) (opEvents st) (''ns'', ''mq'')"
    using sample_operated by blast
  have view: "opWorld st = svView store_server (opWorld st)" by (simp add: store_server_def)
  obtain m u where m: "stBrokers (opWorld st) (''ns'', ''mq'') = Some m" "same_object sample_broker m"
    and us: "stUsers (opWorld st) = [u]" and u0: "uMeta u = uMeta sample_user" "uSpec u = uSpec sample_user"
    and cred: "stSecrets (opWorld st) (''ns'', ''ann-login'') = Some sample_secret"
    and cert: "stSecrets (opWorld st) (''ns'', ''cert'') = Some cert_secret"
    by (rule sample_kept [OF st(2)])
  note S = m(1) sample_broker_admitted [OF m(2) cert]
  obtain n where left: "store_ok (opWorld st)"
      "resources_left sample_library (sample_reconciler []) store_client store_server m (opWorld st) n"
    by (rule idle_broker_left [OF sample_hyps(1-3,5-8) tended_operates [OF st(1)] view st(3) S])
  obtain x passwd acl where ready: "bound_to (''ns'', ''mq'') u" "is_ready u"
    and x: "stSecrets (opWorld st) (auth_key m) = Some x" "fmlookup (secData x) PasswdKey = Some passwd" "fmlookup (secData x) ACLKey = Some acl"
    by (rule sample_delivered [OF m(2) us left(1) u0 cred left(2)])
  have in_us: "u \<in> set (stUsers (opWorld st))" by (simp add: us)
  have mount: "projected (pod_reload_config '''') (secData y) (mounted_machine passwd acl)"
    if "stSecrets (opWorld st) (auth_key m) = Some y" for y
    using that x mounted_machine_synced(1) by simp
  note parts = sample_user_parts [OF u0]
  let ?files = "broker_files (pod_reload_config '''') (mounted_machine passwd acl)"
  note login = ready_user_can_log_in [OF sample_hyps(1-3,5-8) tended_operates [OF st(1)] view st(3) S in_us ready mount mounted_machine_synced(2)]
  obtain s where s: "Some sample_secret = Some s" "ustatUsername (uStatus u) = go_get (secData s) ''username''"
    "VerifyPassword (libRuntime sample_library) (go_get (Hashes ?files) (ustatUsername (uStatus u))) (go_get (secData s) ''password'')"
    "\<forall>a t. (ustatUsername (uStatus u), a, t) \<in> set (acl_grants ?files) \<longleftrightarrow>
       \<lparr>aclTopic = t, aclAccess = a\<rparr> \<in> set [\<lparr>aclTopic = ''t/#'', aclAccess = AccessRead\<rparr>]"
    using login unfolding parts cred Let_def by blast
  have "s = sample_secret" using s(1) by simp
  note log = s(2-4) [unfolded this sample_secret_data]
  have g: "{(a, t). (''ann'', a, t) \<in> set (acl_grants ?files)} = {(AccessRead, ''t/#'')}"
    using log(3) unfolding log(1) by auto
  have v: "VerifyPassword sample_runtime (go_get (Hashes ?files) ''ann'') ''x''"
    using log(2) unfolding log(1) sample_library_def library.simps .
  show ?thesis
    unfolding Let_def
    by (intro exI [of _ "opWorld st"] exI [of _ u] exI [of _ passwd] exI [of _ acl] conjI in_us ready(2) log(1) v g)
qed

end
