(* ===== verification/Spec2Isabelle.thy ===== *)
theory Spec2Isabelle
  imports Delivery
begin

text \<open>
  This development models the mosquitto-operator: a Kubernetes operator that runs a Mosquitto MQTT broker
  per \<open>Mosquitto\<close> resource and admits to it the users its \<open>MosquittoUser\<close> resources name. It has three
  programs in two binaries, all modelled. The operator (\<open>internal/controller\<close>, with the pure packages \<open>internal/auth\<close>,
  \<open>internal/builder\<close> and \<open>internal/common\<close>) reads a resource, its users and their Secrets, renders the
  credentials, and writes the objects the broker runs from. The reloader (\<open>internal/reloader\<close>) runs in
  every broker pod: once before the broker starts, then as a sidecar that copies changed credentials to
  the broker and signals it. The exporter (\<open>internal/exporter\<close>) turns the broker's status messages into
  metrics. They meet in the pod the operator builds: the theorem of this file states that the programs accept the
  arguments the builder writes, and that each file and directory these name is mounted in the
  container, from the key of the Secret or the volume it is meant to be.

  \<^bold>\<open>Where the code is.\<close> Definitions carry the names of the functions and types they model; a name in the
  style of the model (\<open>accept_loop\<close>, \<open>finish_pass\<close>) is a loop or a part of one function.
    \<^item> \<open>Prelude\<close>, \<open>GoStrings\<close>, \<open>GoFlags\<close>: errors as sums, Go maps as finite maps, strings as byte lists
      with their UTF-8 decoder, decimal numbers and splitting, and the parser of command lines: what the
      program uses of the Go library.
    \<^item> \<open>ApiTypes\<close>: \<open>api/v1\<close>. \<open>Labels\<close>: \<open>internal/common/labels.go\<close>.
    \<^item> \<open>Hash\<close>, \<open>Render\<close>, \<open>Files\<close>: \<open>internal/auth\<close>. A password hash and its parser; the checks, the
      resolution of username collisions and the rendering; the two files. What the renderer needs of a
      file format is the locale \<open>payload\<close>, interpreted in \<open>Files\<close> on the passwd and acl files.
    \<^item> \<open>Config\<close>, \<open>PodSpec\<close>, \<open>Workload\<close>: \<open>internal/builder\<close>. The broker's configuration and the allowlist of
      what a user may append to it; the pod; the Services, the Secret and the StatefulSet with its digests,
      comparison and merge.
    \<^item> \<open>Api\<close>, \<open>Managed\<close>, \<open>Users\<close>, \<open>Reconcile\<close>: \<open>internal/controller\<close> without the watches. \<open>Api\<close> has the API
      client as a record of functions over an abstract world, and computations that record the calls they
      make. \<open>Managed\<close> has the four write paths; what the comparison and the update of a kind of object owe each
      other is the locale \<open>reconciled\<close>, interpreted for every kind. \<open>Users\<close> and \<open>Reconcile\<close> have the pass.
    \<^item> \<open>Watches\<close>, \<open>Wiring\<close>: \<open>watches.go\<close> and \<open>cmd/main.go\<close>. The mapping functions, the flags and options; the
      registered watches with what an event wakes, and the start of the operator.
    \<^item> \<open>Reloader\<close>, \<open>Entry\<close>: \<open>internal/reloader\<close>. \<open>Exporter\<close>, \<open>ExporterRun\<close>, \<open>ExporterServe\<close>: \<open>internal/exporter\<close>, its
      mapping and collector, its client and entry point, and the collector once more, statement by
      statement under its mutex.
    \<^item> \<open>GoMemory\<close>, \<open>DeepCopy\<close>, \<open>StatusMemory\<close>: the generated deep copies of \<open>api/v1\<close> over a memory of cells, and the one
      function of a pass that works on a copied object, \<open>persistUserStatus\<close>. Everywhere else objects are
      immutable values; these theories show that this is right.
    \<^item> \<open>Binaries\<close>: the scheme of \<open>api/v1/groupversion_info.go\<close> and \<open>cmd/main.go\<close>, the entry points of both binaries, and
      \<open>test/testimages\<close>.
    \<^item> The other theories hold no code of the program. \<open>Pass\<close>, \<open>Settled\<close>, \<open>ApiStore\<close>, \<open>Converge\<close>, \<open>Spared\<close>, \<open>Done\<close>
      and \<open>Progress\<close> have the properties of one pass: \<open>Settled\<close> gives the write paths their common shape through
      the locale \<open>settling\<close> that extends \<open>reconciled\<close>; \<open>ApiStore\<close> has the abstract server that stores what is
      written, over which \<open>Converge\<close>, with the locale \<open>stored\<close> that extends \<open>settling\<close>, follows a pass stage by
      stage; \<open>Spared\<close> bounds what any pass may touch, \<open>Done\<close> says when a pass has nothing to do and that one which
      succeeded leaves it so, and \<open>Progress\<close> shows that it succeeds. \<open>Cluster\<close>, \<open>Operator\<close> and \<open>Rest\<close> compose the
      passes with the watches: the events of a change and what they wake, the operator as a state
      machine of world, queue and events on their way, and its coming to rest. \<open>Tended\<close> has the runs in which nobody
      else touches the pod spec of a broker's StatefulSet, and the invariant that the digests on the pods are true
      in them. \<open>Rendered\<close> reads a rendering back
      from the store it left; \<open>Deployed\<close> has the contract with the author of a \<open>Mosquitto\<close>, the workload that runs and
      a status that is true, and \<open>Delivery\<close> goes on through the pod's mount and the reloader to the files the
      broker reads.

  \<^bold>\<open>State.\<close> A pass is a function from a run (the world, the random bytes left, the trace of calls) to a result
  and a run; an error is a value and ends the pass as a return does. The reloader's state is \<open>round\<close> and a
  machine: files, links, processes, signals, and a list of faults that says which call fails; the relation
  \<open>run\<close> interleaves its rounds with arbitrary changes of the machine by others. The exporter's state is its
  collector, driven by messages, sessions and losses; the relation \<open>process_step\<close> has the goroutines that drive it.
  The operator's state is the world with the keys in its queue and the events on their way; the relation
  \<open>operator_step\<close> interleaves edits by others, deliveries in any order, and passes, which are one step each.

  \<^bold>\<open>What is shown.\<close> Access: the generated listener admits nobody without a login whatever spec.config holds,
  and the acl file read back grants exactly what accepted users asked for. Users: verdicts, collisions,
  independence of the order of arrival, and that no user can make rendering fail. Passes: nothing is written
  that the Mosquitto does not own, writes come in dependency order, a refused pass writes statuses only, no
  Secret's data is read without consent; a pass over an API server that accepts its writes succeeds, and the
  next one writes nothing, provided neither a user nor the TLS listener names the rendered Secret. A pass is
  woken by the events of its broker, its users and their Secrets only. The operator: no change is missed,
  whatever edits, late events and failing passes come in between, and without edits it comes to rest, though
  its own writes wake it; a broker that nothing is pending for has the configuration, the ports and the replicas of
  its spec and, unless others edit the pod spec or two pod specs share a digest of 32 bits, its pod spec; its status tells
  the truth, and a user it reports as ready can log in once the reloader has copied. Pods: which container is
  shown which key of which Secret, and that ports, selectors and digests fit. Reloader: copies are atomic and complete, a change that a successful copy reports is
  signalled or stays owed, one that a failing copy made before it failed is dropped, and no signal is sent
  while the mounted certificate is not a checked one. Exporter: a scrape shows the values of this session,
  once each, however scrapes and messages interleave. Memory: a copy of an object shares nothing with it,
  and a status write changes nothing that others hold.

  \<^bold>\<open>Code that is a parameter.\<close> PBKDF2 (with its output length), SHA-256, the X.509 and PEM parsers, floating-point
  and duration parsing, \<open>unicode.IsPrint\<close>, the JSON encoding of a pod spec, resource quantities, the API client, the
  MQTT client and the metrics library are fields of records the definitions take. What a theorem needs of
  them is a named hypothesis (\<open>pbkdf2_ok\<close>, keys have the length asked for, \<open>pbkdf2_derives\<close>, it does not
  fail for the constants of \<open>hash.go\<close>, \<open>ownership_ok\<close>, \<open>conditions_ok\<close>, \<open>condition_kept\<close>, \<open>serves\<close>,
  \<open>accepts\<close>, \<open>index_ok\<close>, \<open>controller_rules\<close>, \<open>owner_rules\<close>, \<open>metric_rules\<close>, \<open>scheme_rules\<close>, \<open>api_lib_copies\<close>) stating documented behaviour; each theorem with a
  hypothesis has a witness on a concrete instance. \<open>serves\<close> is the server of the convergence theorems: it reads
  back what was written, its cache has caught up, and nobody else writes while a pass runs. \<open>cluster_ok\<close> is what every
  cluster has (one object per key, unique UIDs, owner references that name their owner) and one restriction that
  nothing in the program enforces: no user bound to a broker and no TLS listener names a broker's rendered Secret
  (\<open>secrets_unnamed\<close>), in the first state and after each edit; see the finding on \<open>users.go\<close> for what happens
  otherwise. \<open>edited\<close> is what edits keep to: an object of the same key and generation is the same object, and
  others leave statuses of brokers and users alone. Deleting and creating an object again
  behind one compressed event is outside of it.

  \<^bold>\<open>Bounds and recursion.\<close> Every definition is total; no fuel is used. Loops recurse on their list, the rune decoder and
  the decimal printer on a measure. Go integers are unbounded integers where the code only compares or prints
  them; the conversion to int32 in the user count and the 32-bit digest are words, and the 64-bit range of a
  parsed number is a check. The polling loop, which does not end, is the relation \<open>run\<close>.

  \<^bold>\<open>Not modelled.\<close> Log lines, the build information they print, and what the libraries do behind the calls the code
  makes of them (the HTTP server, the MQTT client, the controller's queue). The objects of the Kubernetes
  API have the fields the code sets or reads.
\<close>

subsection \<open>The containers and their programs\<close>

lemmas path_constants = AuthSecretMountPath_def AuthMountPath_def TLSMountPath_def OperatorBinary_def
  PasswdKey_def ACLKey_def

lemma reload_args:
  "reload_entry (cCommand (buildReloadContainer name opts extra) @ cArgs (buildReloadContainer name opts extra)) =
     Some ([''--source'', AuthSecretMountPath, ''--target'', AuthMountPath] @ extra)"
  by (simp add: reload_entry_def buildReloadContainer_def)

lemma parse_reload_base:
  "parse_flags lib reload_flags ([''--source'', AuthSecretMountPath, ''--target'', AuthMountPath] @ extra) fmempty =
     parse_flags lib reload_flags extra (fmupd ''target'' AuthMountPath (fmupd ''source'' AuthSecretMountPath fmempty))"
  by (simp add: reload_flags_def flag_value_ok_def flag_parts_def Let_def)

lemma auth_init_mode:
  assumes "reload_entry (cCommand c @ cArgs c) = Some args" and "c = buildReloadContainer name opts [''--once'']"
  shows "reload_main lib args s = (case once_main (pod_reload_config '''') s of (code, s) \<Rightarrow> (Exited code, s))"
proof -
  have a: "args = [''--source'', AuthSecretMountPath, ''--target'', AuthMountPath] @ [''--once'']"
    using assms reload_args by simp
  have p: "parse_flags lib reload_flags args fmempty =
      Inr (fmupd ''once'' ''true'' (fmupd ''target'' AuthMountPath (fmupd ''source'' AuthSecretMountPath fmempty)))"
    unfolding a parse_reload_base by (simp add: reload_flags_def flag_value_ok_def flag_parts_def)
  show ?thesis
    by (simp add: reload_main_def p Let_def bool_flag_def parse_bool_def reload_config_def flag_or_def
        pod_reload_config_def go_split_def PasswdKey_def ACLKey_def)
qed

lemma sidecar_args:
  "cCommand (buildReloaderSidecar m opts) @ cArgs (buildReloaderSidecar m opts) =
     (let c = buildReloadContainer ReloaderContainerName opts (if IsTLSEnabled m then [''--tls-dir'', TLSMountPath] else [])
      in cCommand c @ cArgs c)"
  by (simp add: buildReloaderSidecar_def buildReloadContainer_def Let_def)

lemma sidecar_mode:
  assumes "reload_entry (cCommand (buildReloaderSidecar m opts) @ cArgs (buildReloaderSidecar m opts)) = Some args"
  shows "reload_main lib args s =
    (Polling (pod_reload_config (if IsTLSEnabled m then TLSMountPath else '''')) (2 * 1000000000), s)"
proof -
  let ?base = "fmupd ''target'' AuthMountPath (fmupd ''source'' AuthSecretMountPath fmempty)"
  let ?fs = "if IsTLSEnabled m then fmupd ''tls-dir'' TLSMountPath ?base else ?base"
  have a: "args = [''--source'', AuthSecretMountPath, ''--target'', AuthMountPath] @
      (if IsTLSEnabled m then [''--tls-dir'', TLSMountPath] else [])"
    using assms unfolding sidecar_args Let_def reload_args by simp
  have p: "parse_flags lib reload_flags args fmempty = Inr ?fs"
    unfolding a parse_reload_base by (simp add: reload_flags_def flag_value_ok_def flag_parts_def)
  have "fmlookup ?fs ''once'' = None" "fmlookup ?fs ''interval'' = None"
    "reload_config ?fs = pod_reload_config (if IsTLSEnabled m then TLSMountPath else '''')"
    by (simp_all add: reload_config_def flag_or_def pod_reload_config_def go_split_def PasswdKey_def ACLKey_def)
  then show ?thesis by (simp add: reload_main_def p Let_def bool_flag_def poll_interval_def)
qed

definition pod_exporter_config :: "mosquitto \<Rightarrow> exporter_config" where
  "pod_exporter_config m = \<lparr>
     ecBroker = (if IsTLSEnabled m then ''ssl'' else ''tcp'') @ ''://127.0.0.1:'' @ go_itoa_int (BrokerPort m),
     ecUsername = ExporterUsername,
     ecPasswordFile = ExporterSecretMountPath @ ''/password'',
     ecTLSCert = (if IsTLSEnabled m then TLSMountPath @ ''/'' @ TLSCertKey else ''''),
     ecListen = '':'' @ go_itoa_int ExporterPort\<rparr>"

lemma exporter_mode: "exporter_start lib (cArgs (buildExporterContainer m opts)) = Inr (pod_exporter_config m)"
  by (cases "IsTLSEnabled m")
    (simp_all add: exporter_start_def buildExporterContainer_def exporter_flags_def flag_value_ok_def flag_parts_def
      Let_def exporter_config_of_def flag_or_def pod_exporter_config_def BrokerPort_def ExporterUsername_def ReservedPrefix_def)

subsection \<open>The directories and files behind the arguments\<close>

text \<open>
  What makes a configuration fit the container it runs in: every file it names is one the container is shown, with the
  key of the Secret it is meant to have, and the copies land in the directory the broker reads.
\<close>

definition reloads_for :: "pod_spec \<Rightarrow> container \<Rightarrow> config \<Rightarrow> mosquitto \<Rightarrow> bool" where
  "reloads_for ps c cfg m \<longleftrightarrow>
     list_all (\<lambda>n. shows_file ps c (path_join (cfSource cfg) n) (AuthSecretName m) n) (cfFiles cfg) \<and>
     mounted_at ps c (cfTarget cfg) = [(AuthVolumeName, EmptyDirSource, True)] \<and>
     mounted_at ps (buildBrokerContainer m) (cfTarget cfg) = [(AuthVolumeName, EmptyDirSource, False)] \<and>
     list_all (\<lambda>l. l \<in> set (go_split nl (GenerateMosquittoConf m)))
       [''plugin_opt_password_file '' @ path_join (cfTarget cfg) PasswdKey, ''plugin_opt_acl_file '' @ path_join (cfTarget cfg) ACLKey] \<and>
     (if cfTLSDir cfg = '''' then True
      else list_all (\<lambda>k. shows_file ps c (path_join (cfTLSDir cfg) k) (tls_secret m) k) [tlsCertFile, tlsKeyFile])"

definition exports_for :: "pod_spec \<Rightarrow> container \<Rightarrow> exporter_config \<Rightarrow> mosquitto \<Rightarrow> bool" where
  "exports_for ps c cfg m \<longleftrightarrow>
     shows_file ps c (ecPasswordFile cfg) (AuthSecretName m) ExporterPasswordKey \<and>
     (if IsTLSEnabled m then shows_file ps c (ecTLSCert cfg) (tls_secret m) TLSCertKey else ecTLSCert cfg = '''')"

text \<open>The broker itself: its configuration file, its data and, with TLS, the pair its listener names.\<close>

definition broker_fits :: "pod_spec \<Rightarrow> mosquitto \<Rightarrow> bool" where
  "broker_fits ps m \<longleftrightarrow> (let c = buildBrokerContainer m; conf = go_split nl (GenerateMosquittoConf m) in
     cCommand c = [''/usr/sbin/mosquitto'', ''-c'', path_join ConfigMountPath ConfigKey] \<and>
     mounted_at ps c ConfigMountPath = [(ConfigVolumeName, ConfigMapSource (ConfigMapName m) volumeDefaultMode, False)] \<and>
     ''listener '' @ go_itoa_int (BrokerPort m) \<in> set conf \<and>
     (if IsTLSEnabled m
      then list_all (\<lambda>(d, k). d @ path_join TLSMountPath k \<in> set conf \<and> shows_file ps c (path_join TLSMountPath k) (tls_secret m) k)
        [(''certfile '', TLSCertKey), (''keyfile '', TLSKeyKey)]
      else True))"

lemmas files_shown = shows_file_def secret_mounts_of path_join_def

lemma auth_paths:
  "AuthMountPath \<noteq> AuthSecretMountPath" "AuthMountPath \<noteq> TLSMountPath" "AuthMountPath \<noteq> ConfigMountPath"
  "AuthMountPath \<noteq> DataMountPath" "ConfigMountPath \<noteq> DataMountPath" "ConfigMountPath \<noteq> TLSMountPath"
  by (simp_all add: AuthMountPath_def AuthSecretMountPath_def TLSMountPath_def ConfigMountPath_def DataMountPath_def)

lemma copies_mounted:
  "mounted_at (buildPodSpec m opts) (buildReloadContainer n opts' xs) AuthMountPath = [(AuthVolumeName, EmptyDirSource, True)]"
  "mounted_at (buildPodSpec m opts) (buildReloaderSidecar m opts') AuthMountPath = [(AuthVolumeName, EmptyDirSource, True)]"
  "mounted_at (buildPodSpec m opts) (buildBrokerContainer m) AuthMountPath = [(AuthVolumeName, EmptyDirSource, False)]"
  "mounted_at (buildPodSpec m opts) (buildBrokerContainer m) ConfigMountPath =
     [(ConfigVolumeName, ConfigMapSource (ConfigMapName m) volumeDefaultMode, False)]"
  using auth_paths by (auto simp: mounted_at_def volumes_of mounts_of mount_def pod_names)

lemma file_lines:
  "''plugin_opt_password_file '' @ path_join AuthMountPath PasswdKey \<in> set (go_split nl (GenerateMosquittoConf m))"
  "''plugin_opt_acl_file '' @ path_join AuthMountPath ACLKey \<in> set (go_split nl (GenerateMosquittoConf m))"
  unfolding conf_lines by (simp_all add: header_lines_def path_join_def PasswdKey_def ACLKey_def)

lemma reload_fits:
  "reloads_for (buildPodSpec m opts) (buildReloadContainer n opts xs) (pod_reload_config '''') m"
  "reloads_for (buildPodSpec m opts) (buildReloaderSidecar m opts)
     (pod_reload_config (if IsTLSEnabled m then TLSMountPath else '''')) m"
  using file_lines by (simp_all add: reloads_for_def pod_reload_config_def copies_mounted files_shown)

lemma exporter_fits:
  "IsMetricsEnabled m \<Longrightarrow> exports_for (buildPodSpec m opts) (buildExporterContainer m opts) (pod_exporter_config m) m"
  by (simp add: exports_for_def pod_exporter_config_def files_shown)

lemma broker_fits_pod: "broker_fits (buildPodSpec m opts) m"
proof -
  have "''certfile '' @ path_join TLSMountPath TLSCertKey \<in> set (go_split nl (GenerateMosquittoConf m))"
    "''keyfile '' @ path_join TLSMountPath TLSKeyKey \<in> set (go_split nl (GenerateMosquittoConf m))" if "IsTLSEnabled m"
    unfolding conf_lines using that by (simp_all add: listener_lines_def path_join_def)
  then show ?thesis
    using listener_line [of m] by (simp add: broker_fits_def Let_def copies_mounted shows_file_def secret_mounts_of)
      (simp add: buildBrokerContainer_def path_join_def Let_def)
qed

text \<open>C20: the pod runs what the builder meant. Its containers are the init container, the config check, the
  broker, the sidecar and, with metrics, the exporter. The arguments of auth-init, of the sidecar and of the
  exporter are accepted by the programs they start: auth-init copies once, the sidecar polls. The files they
  name are mounted: each file to copy shows the key of that name of the rendered Secret, the target is the
  volume from which the broker reads the files its configuration names, the TLS directory shows the
  pair of spec.tls; the exporter's password file shows the exporter's key, and it dials the port the
  broker listens on, under the reserved name. The renderer writes exactly the files that are copied.\<close>

theorem containers_run_as_built:
  "pod_containers (buildPodSpec m opts) =
     [buildReloadContainer AuthInitContainerName opts [''--once''], buildConfigCheckContainer m,
      buildBrokerContainer m, buildReloaderSidecar m opts] @
     (if IsMetricsEnabled m then [buildExporterContainer m opts] else []) \<and>
   (\<exists>args. reload_entry (cCommand (buildReloadContainer AuthInitContainerName opts [''--once'']) @
        cArgs (buildReloadContainer AuthInitContainerName opts [''--once''])) = Some args \<and>
      reload_main lib args s =
        (case once_main (pod_reload_config '''') s of (code, s) \<Rightarrow> (Exited code, s))) \<and>
   reloads_for (buildPodSpec m opts) (buildReloadContainer AuthInitContainerName opts [''--once'']) (pod_reload_config '''') m \<and>
   (\<exists>args. reload_entry (cCommand (buildReloaderSidecar m opts) @ cArgs (buildReloaderSidecar m opts)) = Some args \<and>
      reload_main lib args s =
        (Polling (pod_reload_config (if IsTLSEnabled m then TLSMountPath else '''')) (2 * 1000000000), s)) \<and>
   reloads_for (buildPodSpec m opts) (buildReloaderSidecar m opts)
     (pod_reload_config (if IsTLSEnabled m then TLSMountPath else '''')) m \<and>
   exporter_start lib (cArgs (buildExporterContainer m opts)) = Inr (pod_exporter_config m) \<and>
   (IsMetricsEnabled m \<longrightarrow> exports_for (buildPodSpec m opts) (buildExporterContainer m opts) (pod_exporter_config m) m) \<and>
   broker_fits (buildPodSpec m opts) m \<and>
   set (sorted_keys (RenderFiles users)) = set (cfFiles (pod_reload_config tls))"
proof -
  have keys: "set (sorted_keys (RenderFiles users)) = set (cfFiles (pod_reload_config tls))"
    by (auto simp: RenderFiles_def Let_def pod_reload_config_def split: prod.splits)
  have init: "\<exists>args. reload_entry (cCommand (buildReloadContainer AuthInitContainerName opts [''--once'']) @
        cArgs (buildReloadContainer AuthInitContainerName opts [''--once''])) = Some args \<and>
      reload_main lib args s = (case once_main (pod_reload_config []) s of (code, s) \<Rightarrow> (Exited code, s))"
    using reload_args [of AuthInitContainerName opts "[''--once'']"] auth_init_mode [OF _ refl] by blast
  have "\<exists>args. reload_entry (cCommand (buildReloaderSidecar m opts) @ cArgs (buildReloaderSidecar m opts)) = Some args"
    unfolding sidecar_args Let_def reload_args by simp
  then have sidecar: "\<exists>args. reload_entry (cCommand (buildReloaderSidecar m opts) @ cArgs (buildReloaderSidecar m opts)) = Some args \<and>
      reload_main lib args s = (Polling (pod_reload_config (if IsTLSEnabled m then TLSMountPath else [])) (2 * 1000000000), s)"
    using sidecar_mode by blast
  show ?thesis
    by (intro conjI impI pod_containers_of init reload_fits sidecar exporter_mode exporter_fits broker_fits_pod keys)
qed

theorem containers_run_as_built_witness:
  "IsMetricsEnabled sample_broker \<and> IsTLSEnabled sample_broker \<and>
   ''/mosquitto/exporter/password'' = ecPasswordFile (pod_exporter_config sample_broker) \<and>
   shows_file (buildPodSpec sample_broker sample_options) (buildExporterContainer sample_broker sample_options)
     ''/mosquitto/exporter/password'' ''mq-auth'' ''exporter-password''"
proof -
  have m: "IsMetricsEnabled sample_broker" "IsTLSEnabled sample_broker" "AuthSecretName sample_broker = ''mq-auth''"
    by (simp_all add: sample_broker_def IsMetricsEnabled_def IsTLSEnabled_def AuthSecretName_def empty_meta_def)
  have p: "ecPasswordFile (pod_exporter_config sample_broker) = ''/mosquitto/exporter/password''"
    by (simp add: pod_exporter_config_def ExporterSecretMountPath_def)
  have "exports_for (buildPodSpec sample_broker sample_options) (buildExporterContainer sample_broker sample_options)
      (pod_exporter_config sample_broker) sample_broker"
    using containers_run_as_built [of sample_broker sample_options] m(1) by blast
  then show ?thesis unfolding exports_for_def p m(3) ExporterPasswordKey_def using m p by simp
qed

end
